(* ===== verification/Jos_Prelude.thy ===== *)
theory Jos_Prelude
  imports Main "HOL-Library.Word"
begin

unbundle bit_operations_syntax

text \<open>
  Shared vocabulary of the development: the C integer types of
  \<^verbatim>\<open>inc/types.h\<close> as words, the rounding macros, and the generic lemmas on
  words, linked lists and function updates that the component theories use.
\<close>

section \<open>C integer types (inc/types.h)\<close>

type_synonym u8 = "8 word"
type_synonym u16 = "16 word"
type_synonym u32 = "32 word"

named_theorems jos_consts \<open>definitions of the constants of inc/*.h\<close>

section \<open>Rounding (inc/types.h)\<close>

definition ROUNDDOWN :: "u32 \<Rightarrow> u32 \<Rightarrow> u32" where
  "ROUNDDOWN a n = a - a mod n"

definition ROUNDUP :: "u32 \<Rightarrow> u32 \<Rightarrow> u32" where
  "ROUNDUP a n = ROUNDDOWN (a + n - 1) n"

lemma u32_less: "unat (w :: u32) < 4294967296"
  using unsigned_less [of w, where ?'a = nat] by simp

lemma u16_less: "unat (w :: u16) < 65536"
  using unsigned_less [of w, where ?'a = nat] by simp

lemma u8_less: "unat (w :: u8) < 256"
  using unsigned_less [of w, where ?'a = nat] by simp

text \<open>Words below half of their range have the same value with and without a sign.\<close>

lemma sint_eq_unat:
  assumes "unat (w :: u32) < 0x80000000"
  shows "sint w = int (unat w)"
proof -
  have "uint w < 0x80000000" using assms by (metis of_nat_less_iff of_nat_numeral uint_nat)
  moreover have "- 0x80000000 \<le> uint w" by (rule order_trans [OF _ uint_ge_0]) simp
  ultimately have "signed_take_bit 31 (uint w) = uint w" by (intro signed_take_bit_int_eq_self) simp_all
  then show ?thesis by (simp add: sint_uint)
qed

lemma unat_ROUNDDOWN: "unat (ROUNDDOWN a n) = unat a - unat a mod unat n"
  unfolding ROUNDDOWN_def
  by (subst unat_sub) (auto simp: word_le_nat_alt unat_mod)

lemma unat_ROUNDDOWN_mult: "unat (ROUNDDOWN a n) = unat a div unat n * unat n"
  by (simp add: unat_ROUNDDOWN minus_mod_eq_div_mult)

lemma ROUNDDOWN_le: "ROUNDDOWN a n \<le> a"
  by (simp add: word_le_nat_alt unat_ROUNDDOWN)

lemma unat_add_no_wrap:
  fixes a b :: "'a::len word"
  assumes "unat a + unat b < 2 ^ LENGTH('a)"
  shows "unat (a + b) = unat a + unat b"
  using assms by (simp add: unat_word_ariths)

lemma unat_ROUNDUP:
  assumes "unat a + unat n < 2 ^ 32" and "0 < unat n"
  shows "unat (ROUNDUP a n) = (unat a + unat n - 1) div unat n * unat n"
proof -
  have s: "unat (a + n) = unat a + unat n"
    using assms(1) by (intro unat_add_no_wrap) simp
  have "(1::u32) \<le> a + n"
    using assms(2) s by (simp add: word_le_nat_alt)
  then have "unat (a + n - 1) = unat a + unat n - 1"
    using s by (subst unat_sub) auto
  then show ?thesis
    by (simp add: ROUNDUP_def unat_ROUNDDOWN_mult)
qed

section \<open>Numbers as words, and differences of words\<close>

lemma unat_sub_cases:
  fixes x y :: u32
  shows "unat (x - y) = (if unat y \<le> unat x then unat x - unat y else unat x + 4294967296 - unat y)"
proof (cases "unat y \<le> unat x")
  case True
  then show ?thesis by (simp add: unat_sub word_le_nat_alt)
next
  case False
  have "unat x = (unat (x - y) + unat y) mod 4294967296" using unat_word_ariths(1) [of "x - y" y] by simp
  moreover have "\<not> unat (x - y) + unat y < 4294967296"
  proof
    assume "unat (x - y) + unat y < 4294967296"
    with calculation False show False by simp
  qed
  ultimately have "unat x = unat (x - y) + unat y - 4294967296"
    using u32_less [of "x - y"] u32_less [of y] by (simp add: le_mod_geq not_less)
  then show ?thesis using False \<open>\<not> unat (x - y) + unat y < 4294967296\<close> by simp
qed

lemma unat_of_small: "k < 4294967296 \<Longrightarrow> unat (of_nat k :: u32) = k"
  by (simp add: unat_of_nat take_bit_nat_eq_self)

lemma less_of_small: "k < 4294967296 \<Longrightarrow> (x :: u32) < of_nat k \<longleftrightarrow> unat x < k"
  by (simp add: word_less_nat_alt unat_of_small)

lemma of_nat_inj32: "i < 4294967296 \<Longrightarrow> j < 4294967296 \<Longrightarrow> (of_nat i :: u32) = of_nat j \<longleftrightarrow> i = j"
  by (metis unat_of_small)

section \<open>Linked lists through link fields\<close>

text \<open>
  The kernel threads its free lists through a pointer field of the array elements.
  \<open>linked next p xs\<close> says that following \<open>next\<close> from \<open>p\<close> visits exactly
  the elements \<open>xs\<close>, in that order, and then reaches the null pointer.
\<close>

fun linked :: "('a \<Rightarrow> 'a option) \<Rightarrow> 'a option \<Rightarrow> 'a list \<Rightarrow> bool" where
  "linked nxt p [] \<longleftrightarrow> p = None"
| "linked nxt p (x # xs) \<longleftrightarrow> p = Some x \<and> linked nxt (nxt x) xs"

lemma linked_None [simp]: "linked nxt None xs \<longleftrightarrow> xs = []"
  by (cases xs) auto

lemma linked_Some: "linked nxt (Some x) xs \<longleftrightarrow> (\<exists>ys. xs = x # ys \<and> linked nxt (nxt x) ys)"
  by (cases xs) auto

lemma linked_cong:
  "(\<And>x. x \<in> set xs \<Longrightarrow> f x = g x) \<Longrightarrow> linked f p xs \<longleftrightarrow> linked g p xs"
  by (induction xs arbitrary: p) auto

lemma linked_upd [simp]: "x \<notin> set xs \<Longrightarrow> linked (f(x := v)) p xs \<longleftrightarrow> linked f p xs"
  by (rule linked_cong) auto

lemma linked_append_head:
  "linked f p (xs @ ys) \<Longrightarrow> \<exists>q. linked f q ys"
  by (induction xs arbitrary: p) auto

lemma linked_unique: "linked f p xs \<Longrightarrow> linked f p ys \<Longrightarrow> xs = ys"
proof (induction xs arbitrary: p ys)
  case Nil
  then show ?case by simp
next
  case (Cons x xs)
  then show ?case by (auto simp: linked_Some)
qed

lemma linked_distinct: "linked f p xs \<Longrightarrow> distinct xs"
proof (induction xs arbitrary: p)
  case Nil
  then show ?case by simp
next
  case (Cons x xs)
  have "x \<notin> set xs"
  proof
    assume "x \<in> set xs"
    then obtain as bs where xs: "xs = as @ x # bs"
      by (auto simp: in_set_conv_decomp)
    with Cons.prems have "linked f (f x) (as @ x # bs)" by simp
    then obtain q where "linked f q (x # bs)"
      using linked_append_head by blast
    then have "linked f (f x) bs" by simp
    moreover have "linked f (f x) (as @ x # bs)"
      using Cons.prems xs by simp
    ultimately have "bs = as @ x # bs"
      by (rule linked_unique)
    then have "length bs = length (as @ x # bs)"
      by (rule arg_cong)
    then show False by simp
  qed
  with Cons show ?case by auto
qed

text \<open>Following a list for at most \<open>n\<close> links.\<close>

fun chase :: "('a \<Rightarrow> 'a option) \<Rightarrow> nat \<Rightarrow> 'a option \<Rightarrow> 'a list" where
  "chase nxt 0 p = []"
| "chase nxt (Suc n) None = []"
| "chase nxt (Suc n) (Some x) = x # chase nxt n (nxt x)"

lemma chase_linked: "linked nxt p xs \<Longrightarrow> length xs \<le> n \<Longrightarrow> chase nxt n p = xs"
proof (induction xs arbitrary: p n)
  case Nil
  then show ?case by (cases n) auto
next
  case (Cons x xs)
  then show ?case by (cases n) auto
qed

lemma distinct_length_bound:
  assumes "distinct xs" and "\<forall>x \<in> set xs. x < n"
  shows "length xs \<le> (n :: nat)"
proof -
  have "length xs = card (set xs)"
    using assms(1) by (simp add: distinct_card)
  also have "\<dots> \<le> card {..<n}"
    using assms(2) by (intro card_mono) auto
  finally show ?thesis by simp
qed

end
