(* ===== verification/Errors.thy ===== *)
theory Errors
  imports Jos_Prelude
begin

text \<open>
  The error codes that the kernel, the file server and the libraries share. Functions return
  them negated.
\<close>

section \<open>Error codes (inc/error.h)\<close>

definition E_UNSPECIFIED :: int where [jos_consts]: "E_UNSPECIFIED = 1"
definition E_BAD_ENV :: int where [jos_consts]: "E_BAD_ENV = 2"
definition E_INVAL :: int where [jos_consts]: "E_INVAL = 3"
definition E_NO_MEM :: int where [jos_consts]: "E_NO_MEM = 4"
definition E_NO_FREE_ENV :: int where [jos_consts]: "E_NO_FREE_ENV = 5"
definition E_FAULT :: int where [jos_consts]: "E_FAULT = 6"
definition E_IPC_NOT_RECV :: int where [jos_consts]: "E_IPC_NOT_RECV = 7"
definition E_EOF :: int where [jos_consts]: "E_EOF = 8"
definition E_NO_DISK :: int where [jos_consts]: "E_NO_DISK = 9"
definition E_MAX_OPEN :: int where [jos_consts]: "E_MAX_OPEN = 10"
definition E_NOT_FOUND :: int where [jos_consts]: "E_NOT_FOUND = 11"
definition E_BAD_PATH :: int where [jos_consts]: "E_BAD_PATH = 12"
definition E_FILE_EXISTS :: int where [jos_consts]: "E_FILE_EXISTS = 13"
definition E_NOT_EXEC :: int where [jos_consts]: "E_NOT_EXEC = 14"
definition E_NOT_SUPP :: int where [jos_consts]: "E_NOT_SUPP = 15"
definition E_E1000_TXBUF_FULL :: int where [jos_consts]: "E_E1000_TXBUF_FULL = 16"
definition E_E1000_RXBUF_EMPTY :: int where [jos_consts]: "E_E1000_RXBUF_EMPTY = 17"

definition MAXERROR :: int where [jos_consts]: "MAXERROR = 18"

end
