(* ===== verification/Layout.thy ===== *)
theory Layout
  imports Jos_Prelude
begin

text \<open>
  The address-space layout of \<^verbatim>\<open>inc/mmu.h\<close> and \<^verbatim>\<open>inc/memlayout.h\<close>: the macros
  that take linear addresses and page-table entries apart, the flag bits, and the
  boundaries of the virtual memory map. Addresses and entries are 32-bit words.
\<close>

section \<open>Paging constants and macros (inc/mmu.h)\<close>

type_synonym pte_t = u32
type_synonym physaddr = u32
type_synonym uintptr = u32

definition PGSIZE :: u32 where [jos_consts]: "PGSIZE = 4096"
definition PTSIZE :: u32 where [jos_consts]: "PTSIZE = 4096 * 1024"
definition NPDENTRIES :: nat where [jos_consts]: "NPDENTRIES = 1024"
definition NPTENTRIES :: nat where [jos_consts]: "NPTENTRIES = 1024"

definition PGNUM :: "u32 \<Rightarrow> u32" where "PGNUM la = drop_bit 12 la"
definition PDX :: "u32 \<Rightarrow> u32" where "PDX la = drop_bit 22 la AND 0x3FF"
definition PTX :: "u32 \<Rightarrow> u32" where "PTX la = drop_bit 12 la AND 0x3FF"
definition PGOFF :: "u32 \<Rightarrow> u32" where "PGOFF la = la AND 0xFFF"
definition PGADDR :: "u32 \<Rightarrow> u32 \<Rightarrow> u32 \<Rightarrow> u32" where
  "PGADDR d t oo = push_bit 22 d OR push_bit 12 t OR oo"
definition PTE_ADDR :: "u32 \<Rightarrow> physaddr" where "PTE_ADDR pte = pte AND NOT 0xFFF"

definition PTE_P :: u32 where [jos_consts]: "PTE_P = 0x001"
definition PTE_W :: u32 where [jos_consts]: "PTE_W = 0x002"
definition PTE_U :: u32 where [jos_consts]: "PTE_U = 0x004"
definition PTE_PWT :: u32 where [jos_consts]: "PTE_PWT = 0x008"
definition PTE_PCD :: u32 where [jos_consts]: "PTE_PCD = 0x010"
definition PTE_AVAIL :: u32 where [jos_consts]: "PTE_AVAIL = 0xE00"
definition PTE_SHARE :: u32 where [jos_consts]: "PTE_SHARE = 0x400"
definition PTE_COW :: u32 where [jos_consts]: "PTE_COW = 0x800"
definition PTE_SYSCALL :: u32 where [jos_consts]:
  "PTE_SYSCALL = (PTE_AVAIL OR PTE_P OR PTE_W OR PTE_U)"

definition FL_IF :: u32 where [jos_consts]: "FL_IF = 0x200"
definition FL_IOPL_3 :: u32 where [jos_consts]: "FL_IOPL_3 = 0x3000"

section \<open>The virtual memory map (inc/memlayout.h)\<close>

definition GD_KT :: u16 where [jos_consts]: "GD_KT = 0x08"
definition GD_KD :: u16 where [jos_consts]: "GD_KD = 0x10"
definition GD_UT :: u16 where [jos_consts]: "GD_UT = 0x18"
definition GD_UD :: u16 where [jos_consts]: "GD_UD = 0x20"
definition GD_TSS0 :: u16 where [jos_consts]: "GD_TSS0 = 0x28"

definition KERNBASE :: u32 where [jos_consts]: "KERNBASE = 0xF0000000"
definition IOPHYSMEM :: u32 where [jos_consts]: "IOPHYSMEM = 0x0A0000"
definition EXTPHYSMEM :: u32 where [jos_consts]: "EXTPHYSMEM = 0x100000"
definition KSTACKTOP :: u32 where [jos_consts]: "KSTACKTOP = KERNBASE"
definition KSTKSIZE :: u32 where [jos_consts]: "KSTKSIZE = 8 * PGSIZE"
definition KSTKGAP :: u32 where [jos_consts]: "KSTKGAP = 8 * PGSIZE"
definition MMIOLIM :: u32 where [jos_consts]: "MMIOLIM = KSTACKTOP - PTSIZE"
definition MMIOBASE :: u32 where [jos_consts]: "MMIOBASE = MMIOLIM - PTSIZE"
definition ULIM :: u32 where [jos_consts]: "ULIM = MMIOBASE"
definition UVPT :: u32 where [jos_consts]: "UVPT = ULIM - PTSIZE"
definition UPAGES :: u32 where [jos_consts]: "UPAGES = UVPT - PTSIZE"
definition UENVS :: u32 where [jos_consts]: "UENVS = UPAGES - PTSIZE"
definition UTOP :: u32 where [jos_consts]: "UTOP = UENVS"
definition UXSTACKTOP :: u32 where [jos_consts]: "UXSTACKTOP = UTOP"
definition USTACKTOP :: u32 where [jos_consts]: "USTACKTOP = UTOP - 2 * PGSIZE"
definition UTEXT :: u32 where [jos_consts]: "UTEXT = 2 * PTSIZE"
definition UTEMP :: u32 where [jos_consts]: "UTEMP = PTSIZE"
definition PFTEMP :: u32 where [jos_consts]: "PFTEMP = UTEMP + PTSIZE - PGSIZE"
definition MPENTRY_PADDR :: u32 where [jos_consts]: "MPENTRY_PADDR = 0x7000"

section \<open>Arithmetic reading of the macros\<close>

lemma mask10: "(0x3FF :: u32) = mask 10" and mask12: "(0xFFF :: u32) = mask 12"
  by (simp_all add: mask_eq_exp_minus_1)

lemma unat_PGNUM: "unat (PGNUM la) = unat la div 4096"
  by (simp add: PGNUM_def drop_bit_eq_div unat_div)

lemma unat_PTX: "unat (PTX la) = unat la div 4096 mod 1024"
  unfolding PTX_def mask10 take_bit_eq_mask [symmetric]
  by (simp add: drop_bit_eq_div unat_div take_bit_eq_mod unat_mod)

lemma unat_PDX: "unat (PDX la) = unat la div 4194304"
proof -
  have "unat la div 4194304 < 1024"
    using u32_less [of la] by (simp add: div_less_iff_less_mult)
  then show ?thesis
    unfolding PDX_def mask10 take_bit_eq_mask [symmetric]
    by (simp add: drop_bit_eq_div unat_div take_bit_eq_mod unat_mod)
qed

lemma unat_PGOFF: "unat (PGOFF la) = unat la mod 4096"
  unfolding PGOFF_def mask12 take_bit_eq_mask [symmetric]
  by (simp add: take_bit_eq_mod unat_mod)

lemma unat_PTE_ADDR: "unat (PTE_ADDR pte) = unat pte div 4096 * 4096"
proof -
  have "PTE_ADDR pte = push_bit 12 (drop_bit 12 pte)"
    unfolding PTE_ADDR_def mask12
    by (rule bit_word_eqI) (auto simp: bit_simps)
  moreover have "unat (push_bit 12 (drop_bit 12 pte)) = unat pte div 4096 * 4096"
  proof -
    have "unat pte div 4096 * 4096 < 4294967296"
      using u32_less [of pte] by (rule le_less_trans [rotated]) simp
    then show ?thesis
      by (simp add: push_bit_eq_mult unat_word_ariths drop_bit_eq_div unat_div)
  qed
  ultimately show ?thesis by simp
qed

lemma PGNUM_PTE_ADDR: "PGNUM (PTE_ADDR pte) = PGNUM pte"
  by (simp add: word_unat_eq_iff unat_PGNUM unat_PTE_ADDR)

lemma unat_PDX_bound: "unat (PDX la) < 1024"
  using u32_less [of la] by (simp add: unat_PDX div_less_iff_less_mult)

lemma unat_PTX_bound: "unat (PTX la) < 1024"
  by (simp add: unat_PTX)

lemma PDX_PTX_PGNUM:
  "PDX a = PDX b \<and> PTX a = PTX b \<longleftrightarrow> PGNUM a = PGNUM b"
proof -
  have "unat a div 4096 div 1024 = unat a div 4194304" "unat b div 4096 div 1024 = unat b div 4194304"
    by (simp_all add: div_mult2_eq [symmetric])
  then show ?thesis
    by (auto simp: word_unat_eq_iff unat_PDX unat_PTX unat_PGNUM) (metis div_mult_mod_eq)
qed

end
