(* ===== verification/Console.thy ===== *)
theory Console
  imports Jos_Prelude
begin

text \<open>
  The console, \<^verbatim>\<open>kern/console.c\<close>: serial, parallel and CGA output, the keyboard's scan-code
  state machine and the circular input buffer. A device is what the code sees of it through
  its ports: the serial port and the keyboard controller are queues of bytes waiting to be
  read (the data-available bit is set while the queue is not empty), the output ports collect
  the bytes written to them.
\<close>

section \<open>State\<close>

definition CONSBUFSIZE :: nat where [jos_consts]: "CONSBUFSIZE = 512"
definition CRT_ROWS :: nat where [jos_consts]: "CRT_ROWS = 25"
definition CRT_COLS :: nat where [jos_consts]: "CRT_COLS = 80"
definition CRT_SIZE :: nat where [jos_consts]: "CRT_SIZE = CRT_ROWS * CRT_COLS"

record console =
  cons_buf :: "nat \<Rightarrow> u8"
  cons_rpos :: nat
  cons_wpos :: nat
  serial_exists :: bool
  com1_rx :: "u8 list"
  com1_tx :: "u8 list"
  kbc_data :: "u8 list"
  kbd_shift :: u32
  lpt_tx :: "u8 list"
  crt_buf :: "nat \<Rightarrow> u16"
  crt_pos :: u16
  rebooted :: bool

section \<open>Output\<close>

text \<open>The waiting loops poll a status port and give up after 12800 rounds; then they send.\<close>

definition serial_putc :: "u32 \<Rightarrow> console \<Rightarrow> console" where
  "serial_putc c s = s\<lparr>com1_tx := com1_tx s @ [ucast c]\<rparr>"

definition lpt_putc :: "u32 \<Rightarrow> console \<Rightarrow> console" where
  "lpt_putc c s = s\<lparr>lpt_tx := lpt_tx s @ [ucast c]\<rparr>"

definition cga_attr :: "u32 \<Rightarrow> u32" where
  "cga_attr c = (if c AND NOT 0xFF = 0 then c OR 0x0700 else c)"

definition cga_scroll :: "console \<Rightarrow> console" where
  "cga_scroll s =
     (if unat (crt_pos s) \<ge> CRT_SIZE then
        s\<lparr>crt_buf := (\<lambda>i. if i < CRT_SIZE - CRT_COLS then crt_buf s (i + CRT_COLS)
                          else if i < CRT_SIZE then 0x0720
                          else crt_buf s i),
          crt_pos := crt_pos s - of_nat CRT_COLS\<rparr>
      else s)"

text \<open>
  \<open>cga_putc\<close> on anything but a tab: the switch, then the scrolling. A tab makes it call \<open>cons_putc\<close> on
  five blanks, and a blank is never a tab, so the recursion has depth two.
\<close>

definition cga_switch :: "u32 \<Rightarrow> console \<Rightarrow> console" where
  "cga_switch c s =
     (let k = c AND 0xFF in
      if k = 8 then
        (if crt_pos s > 0
         then s\<lparr>crt_pos := crt_pos s - 1,
                crt_buf := (crt_buf s)(unat (crt_pos s - 1) := ucast ((c AND NOT 0xFF) OR 0x20))\<rparr>
         else s)
      else if k = 10 then
        (let p = crt_pos s + of_nat CRT_COLS in s\<lparr>crt_pos := p - p mod of_nat CRT_COLS\<rparr>)
      else if k = 13 then s\<lparr>crt_pos := crt_pos s - crt_pos s mod of_nat CRT_COLS\<rparr>
      else s\<lparr>crt_buf := (crt_buf s)(unat (crt_pos s) := ucast c), crt_pos := crt_pos s + 1\<rparr>)"

definition cga_char :: "u32 \<Rightarrow> console \<Rightarrow> console" where
  "cga_char c s = cga_scroll (cga_switch (cga_attr c) s)"

definition cons_putc_blank :: "console \<Rightarrow> console" where
  "cons_putc_blank s = cga_char 0x20 (lpt_putc 0x20 (serial_putc 0x20 s))"

definition cga_putc :: "u32 \<Rightarrow> console \<Rightarrow> console" where
  "cga_putc c s =
     (if cga_attr c AND 0xFF = 9 then cga_scroll ((cons_putc_blank ^^ 5) s) else cga_char c s)"

definition cons_putc :: "u32 \<Rightarrow> console \<Rightarrow> console" where
  "cons_putc c s = cga_putc c (lpt_putc c (serial_putc c s))"

definition cputchar :: "u32 \<Rightarrow> console \<Rightarrow> console" where
  "cputchar c s = cons_putc c s"

section \<open>Keyboard\<close>

definition SHIFT :: u32 where [jos_consts]: "SHIFT = 1"
definition CTL :: u32 where [jos_consts]: "CTL = 2"
definition ALT :: u32 where [jos_consts]: "ALT = 4"
definition CAPSLOCK :: u32 where [jos_consts]: "CAPSLOCK = 8"
definition NUMLOCK :: u32 where [jos_consts]: "NUMLOCK = 16"
definition SCROLLLOCK :: u32 where [jos_consts]: "SCROLLLOCK = 32"
definition E0ESC :: u32 where [jos_consts]: "E0ESC = 64"

definition KEY_HOME :: u8 where [jos_consts]: "KEY_HOME = 0xE0"
definition KEY_END :: u8 where [jos_consts]: "KEY_END = 0xE1"
definition KEY_UP :: u8 where [jos_consts]: "KEY_UP = 0xE2"
definition KEY_DN :: u8 where [jos_consts]: "KEY_DN = 0xE3"
definition KEY_LF :: u8 where [jos_consts]: "KEY_LF = 0xE4"
definition KEY_RT :: u8 where [jos_consts]: "KEY_RT = 0xE5"
definition KEY_PGUP :: u8 where [jos_consts]: "KEY_PGUP = 0xE6"
definition KEY_PGDN :: u8 where [jos_consts]: "KEY_PGDN = 0xE7"
definition KEY_INS :: u8 where [jos_consts]: "KEY_INS = 0xE8"
definition KEY_DEL :: u8 where [jos_consts]: "KEY_DEL = 0xE9"

definition shiftcode :: "u8 \<Rightarrow> u8" where
  "shiftcode d =
     (if d \<in> {0x1D, 0x9D} then ucast CTL
      else if d \<in> {0x2A, 0x36} then ucast SHIFT
      else if d \<in> {0x38, 0xB8} then ucast ALT
      else 0)"

definition togglecode :: "u8 \<Rightarrow> u8" where
  "togglecode d =
     (if d = 0x3A then ucast CAPSLOCK
      else if d = 0x45 then ucast NUMLOCK
      else if d = 0x46 then ucast SCROLLLOCK
      else 0)"

text \<open>Character codes of a string literal; the key tables are written with them.\<close>

definition codes :: "string \<Rightarrow> u8 list" where
  "codes cs = map (\<lambda>c. of_nat (of_char c :: nat)) cs"

definition table :: "u8 list \<Rightarrow> (u8 \<times> u8) list \<Rightarrow> u8 \<Rightarrow> u8" where
  "table xs special d =
     (case map_of special d of
        Some c \<Rightarrow> c
      | None \<Rightarrow> if unat d < length xs then xs ! unat d else 0)"

definition special_keys :: "(u8 \<times> u8) list" where
  "special_keys = [(0xC7, KEY_HOME), (0x9C, 10), (0xB5, 0x2F), (0xC8, KEY_UP), (0xC9, KEY_PGUP),
     (0xCB, KEY_LF), (0xCD, KEY_RT), (0xCF, KEY_END), (0xD0, KEY_DN), (0xD1, KEY_PGDN),
     (0xD2, KEY_INS), (0xD3, KEY_DEL)]"

definition normalmap :: "u8 \<Rightarrow> u8" where
  "normalmap = table
     ([0, 0x1B] @ codes ''1234567890-='' @ [8, 9] @ codes ''qwertyuiop[]'' @ [10, 0]
      @ codes ''asdfghjkl;'' @ [0x27] @ codes ''`'' @ [0, 0x5C] @ codes ''zxcvbnm,./'' @ [0]
      @ codes ''*'' @ [0] @ codes '' '' @ replicate 13 0 @ codes ''789-456+1230.'' @ replicate 4 0)
     special_keys"

definition shiftmap :: "u8 \<Rightarrow> u8" where
  "shiftmap = table
     ([0, 0x1B] @ codes ''!@#$%^&*()_+'' @ [8, 9] @ codes ''QWERTYUIOP{}'' @ [10, 0]
      @ codes ''ASDFGHJKL:'' @ [0x22] @ codes ''~'' @ [0] @ codes ''|'' @ codes ''ZXCVBNM<>?'' @ [0]
      @ codes ''*'' @ [0] @ codes '' '' @ replicate 13 0 @ codes ''789-456+1230.'' @ replicate 4 0)
     special_keys"

definition ctl_keys :: "(u8 \<times> u8) list" where
  "ctl_keys = [(0x97, KEY_HOME), (0xB5, 0x2F - 0x40), (0xC8, KEY_UP), (0xC9, KEY_PGUP),
     (0xCB, KEY_LF), (0xCD, KEY_RT), (0xCF, KEY_END), (0xD0, KEY_DN), (0xD1, KEY_PGDN),
     (0xD2, KEY_INS), (0xD3, KEY_DEL)]"

definition ctlmap :: "u8 \<Rightarrow> u8" where
  "ctlmap = table
     (let C = (\<lambda>cs. map (\<lambda>x. x - 0x40) (codes cs)) in
      replicate 16 0 @ C ''QWERTYUIOP'' @ [0, 0, 13, 0] @ C ''ASDFGHJKL'' @ replicate 4 0
      @ [0x5C - 0x40] @ C ''ZXCVBNM'' @ [0, 0] @ C ''/'' @ [0, 0])
     ctl_keys"

definition charcode :: "u32 \<Rightarrow> u8 \<Rightarrow> u8" where
  "charcode sh = (if sh = 0 then normalmap else if sh = 1 then shiftmap else ctlmap)"

text \<open>\<open>cprint cs\<close> is \<open>cprintf\<close> of a text without directives.\<close>

definition cprint :: "u8 list \<Rightarrow> console \<Rightarrow> console" where
  "cprint cs = fold (\<lambda>c. cputchar (ucast c)) cs"

text \<open>
  \<open>kbd_proc_data\<close> returns -1 when there is no data, 0 when no character is complete. \<open>kbd_press\<close> is what
  it does for a key that goes down, \<open>kbd_release\<close> for one that goes up.
\<close>

definition kbd_press :: "u8 \<Rightarrow> u32 \<Rightarrow> u8 \<times> u32" where
  "kbd_press data shift =
     (let data = (if shift AND E0ESC \<noteq> 0 then data OR 0x80 else data);
          shift = (if shift AND E0ESC \<noteq> 0 then shift AND NOT E0ESC else shift);
          shift = shift OR ucast (shiftcode data);
          shift = shift XOR ucast (togglecode data);
          c = charcode (shift AND (CTL OR SHIFT)) data;
          c = (if shift AND CAPSLOCK \<noteq> 0 then
                 (if 0x61 \<le> c \<and> c \<le> 0x7A then c - 0x20
                  else if 0x41 \<le> c \<and> c \<le> 0x5A then c + 0x20 else c)
               else c) in
      (c, shift))"

definition kbd_release :: "u8 \<Rightarrow> u32 \<Rightarrow> u32" where
  "kbd_release data shift =
     (let data = (if shift AND E0ESC \<noteq> 0 then data else data AND 0x7F) in
      shift AND NOT (ucast (shiftcode data) OR E0ESC))"

definition kbd_proc_data :: "console \<Rightarrow> int \<times> console" where
  "kbd_proc_data s =
     (case kbc_data s of
        [] \<Rightarrow> (- 1, s)
      | data # rest \<Rightarrow>
          let s = s\<lparr>kbc_data := rest\<rparr> in
          if data = 0xE0 then (0, s\<lparr>kbd_shift := kbd_shift s OR E0ESC\<rparr>)
          else if data AND 0x80 \<noteq> 0 then (0, s\<lparr>kbd_shift := kbd_release data (kbd_shift s)\<rparr>)
          else
            let (c, shift) = kbd_press data (kbd_shift s);
                s = s\<lparr>kbd_shift := shift\<rparr>;
                s = (if NOT shift AND (CTL OR ALT) = 0 \<and> c = KEY_DEL
                     then (cprint (codes ''Rebooting!'' @ [10]) s)\<lparr>rebooted := True\<rparr> else s) in
            (int (unat c), s))"

definition serial_proc_data :: "console \<Rightarrow> int \<times> console" where
  "serial_proc_data s =
     (case com1_rx s of [] \<Rightarrow> (- 1, s) | c # rest \<Rightarrow> (int (unat c), s\<lparr>com1_rx := rest\<rparr>))"

section \<open>The input buffer\<close>

definition cons_put :: "u8 \<Rightarrow> console \<Rightarrow> console" where
  "cons_put c s =
     (let s = s\<lparr>cons_buf := (cons_buf s)(cons_wpos s := c), cons_wpos := cons_wpos s + 1\<rparr> in
      if cons_wpos s = CONSBUFSIZE then s\<lparr>cons_wpos := 0\<rparr> else s)"

text \<open>
  \<open>cons_intr proc\<close> calls \<open>proc\<close> until it returns -1. Each other call takes one byte off the
  device, so as many rounds as bytes are waiting, plus one, are enough.
\<close>

fun cons_intr :: "nat \<Rightarrow> (console \<Rightarrow> int \<times> console) \<Rightarrow> console \<Rightarrow> console" where
  "cons_intr 0 proc s = s"
| "cons_intr (Suc n) proc s =
     (let (c, s) = proc s in
      if c = - 1 then s
      else if c = 0 then cons_intr n proc s
      else cons_intr n proc (cons_put (of_int c) s))"

definition serial_intr :: "console \<Rightarrow> console" where
  "serial_intr s =
     (if serial_exists s then cons_intr (Suc (length (com1_rx s))) serial_proc_data s else s)"

definition kbd_intr :: "console \<Rightarrow> console" where
  "kbd_intr s = cons_intr (Suc (length (kbc_data s))) kbd_proc_data s"

definition cons_take :: "console \<Rightarrow> int \<times> console" where
  "cons_take s =
     (if cons_rpos s \<noteq> cons_wpos s then
        let c = cons_buf s (cons_rpos s); s = s\<lparr>cons_rpos := cons_rpos s + 1\<rparr>;
            s = (if cons_rpos s = CONSBUFSIZE then s\<lparr>cons_rpos := 0\<rparr> else s) in
        (int (unat c), s)
      else (0, s))"

definition cons_getc :: "console \<Rightarrow> int \<times> console" where
  "cons_getc s = cons_take (kbd_intr (serial_intr s))"

end
