(* ===== verification/E1000.thy ===== *)
theory E1000
  imports Jos_Prelude
begin

text \<open>
  The driver of the Intel 82540EM network card, \<^verbatim>\<open>kern/e1000.c\<close>: the descriptor rings it shares
  with the card and the two operations on them. The card's registers are an array of 32-bit
  cells; packets are what lies in the packet buffers. What needs the kernel (mapping the
  registers, waking environments) is in \<^verbatim>\<open>E1000_Kern\<close>.
\<close>

definition PKT_SIZE :: nat where [jos_consts]: "PKT_SIZE = 2048"
definition NTXQ :: nat where [jos_consts]: "NTXQ = 32"
definition NRXQ :: nat where [jos_consts]: "NRXQ = 128"
definition NMTA :: nat where [jos_consts]: "NMTA = 128"

definition E1000_EERD :: nat where [jos_consts]: "E1000_EERD = 0x00014 div 4"
definition E1000_ICR :: nat where [jos_consts]: "E1000_ICR = 0x000C0 div 4"
definition E1000_IMS :: nat where [jos_consts]: "E1000_IMS = 0x000D0 div 4"
definition E1000_RCTL :: nat where [jos_consts]: "E1000_RCTL = 0x00100 div 4"
definition E1000_TCTL :: nat where [jos_consts]: "E1000_TCTL = 0x00400 div 4"
definition E1000_TIPG :: nat where [jos_consts]: "E1000_TIPG = 0x00410 div 4"
definition E1000_RDBAL :: nat where [jos_consts]: "E1000_RDBAL = 0x02800 div 4"
definition E1000_RDBAH :: nat where [jos_consts]: "E1000_RDBAH = 0x02804 div 4"
definition E1000_RDLEN :: nat where [jos_consts]: "E1000_RDLEN = 0x02808 div 4"
definition E1000_RDH :: nat where [jos_consts]: "E1000_RDH = 0x02810 div 4"
definition E1000_RDT :: nat where [jos_consts]: "E1000_RDT = 0x02818 div 4"
definition E1000_TDBAL :: nat where [jos_consts]: "E1000_TDBAL = 0x03800 div 4"
definition E1000_TDBAH :: nat where [jos_consts]: "E1000_TDBAH = 0x03804 div 4"
definition E1000_TDLEN :: nat where [jos_consts]: "E1000_TDLEN = 0x03808 div 4"
definition E1000_TDH :: nat where [jos_consts]: "E1000_TDH = 0x03810 div 4"
definition E1000_TDT :: nat where [jos_consts]: "E1000_TDT = 0x03818 div 4"
definition E1000_MTA :: nat where [jos_consts]: "E1000_MTA = 0x05200 div 4"
definition E1000_RAL :: nat where [jos_consts]: "E1000_RAL = 0x05400 div 4"
definition E1000_RAH :: nat where [jos_consts]: "E1000_RAH = 0x05404 div 4"

definition E1000_TXD_CMD_EOP :: u8 where [jos_consts]: "E1000_TXD_CMD_EOP = 0x01"
definition E1000_TXD_CMD_RS :: u8 where [jos_consts]: "E1000_TXD_CMD_RS = 0x08"
definition E1000_TXD_CMD_DEXT :: u8 where [jos_consts]: "E1000_TXD_CMD_DEXT = 0x20"
definition E1000_TXD_STAT_DD :: u8 where [jos_consts]: "E1000_TXD_STAT_DD = 0x01"
definition E1000_RXD_STAT_DD :: u8 where [jos_consts]: "E1000_RXD_STAT_DD = 0x01"
definition E1000_RXD_STAT_EOP :: u8 where [jos_consts]: "E1000_RXD_STAT_EOP = 0x02"

record e1000_tx_desc =
  tx_buffer_addr :: "64 word"
  tx_length :: u16
  tx_cso :: u8
  tx_cmd :: u8
  tx_status :: u8
  tx_css :: u8
  tx_special :: u16

record e1000_rx_desc =
  rx_buffer_addr :: "64 word"
  rx_length :: u16
  rx_csum :: u16
  rx_status :: u8
  rx_errors :: u8
  rx_special :: u16

record e1000 =
  e1000_regs :: "nat \<Rightarrow> u32"
  txq :: "nat \<Rightarrow> e1000_tx_desc"
  tx_paks :: "nat \<Rightarrow> nat \<Rightarrow> u8"
  rxq :: "nat \<Rightarrow> e1000_rx_desc"
  rx_paks :: "nat \<Rightarrow> nat \<Rightarrow> u8"
  mac :: "nat \<Rightarrow> u16"

definition set_reg :: "nat \<Rightarrow> u32 \<Rightarrow> e1000 \<Rightarrow> e1000" where
  "set_reg r v d = d\<lparr>e1000_regs := (e1000_regs d)(r := v)\<rparr>"

text \<open>\<open>memmove\<close> of a list of bytes to the start of a buffer.\<close>

definition put_bytes :: "u8 list \<Rightarrow> (nat \<Rightarrow> u8) \<Rightarrow> nat \<Rightarrow> u8" where
  "put_bytes bs f i = (if i < length bs then bs ! i else f i)"

section \<open>Transmission\<close>

text \<open>
  \<open>pck length\<close>: the packet's bytes are only read once the length and the descriptor have been
  accepted. The result is the return value.
\<close>

definition e1000_transmit :: "u8 list \<Rightarrow> e1000 \<Rightarrow> int \<times> e1000" where
  "e1000_transmit pck d =
     (if length pck > PKT_SIZE then (- 1, d)
      else
        let idx = unat (e1000_regs d E1000_TDT) in
        if tx_status (txq d idx) AND E1000_TXD_STAT_DD = 0 then (- 1, d)
        else
          let d = d\<lparr>tx_paks := (tx_paks d)(idx := put_bytes pck (tx_paks d idx))\<rparr>;
              d = d\<lparr>txq := (txq d)(idx := (txq d idx)\<lparr>
                    tx_status := tx_status (txq d idx) AND NOT E1000_TXD_STAT_DD,
                    tx_cmd := tx_cmd (txq d idx) OR E1000_TXD_CMD_EOP,
                    tx_length := of_nat (length pck)\<rparr>)\<rparr> in
          (0, set_reg E1000_TDT (of_nat ((idx + 1) mod NTXQ)) d))"

section \<open>Reception\<close>

datatype rx_result = RxEmpty | RxPanic | RxPacket "u8 list"

definition e1000_receive :: "e1000 \<Rightarrow> rx_result \<times> e1000" where
  "e1000_receive d =
     (let index = unat ((e1000_regs d E1000_RDT + 1) mod of_nat NRXQ) in
      if rx_status (rxq d index) AND E1000_RXD_STAT_DD = 0 then (RxEmpty, d)
      else if rx_status (rxq d index) AND E1000_RXD_STAT_EOP = 0 then (RxPanic, d)
      else
        let len = unat (rx_length (rxq d index));
            pck = map (rx_paks d index) [0..<len];
            st = rx_status (rxq d index) AND NOT E1000_RXD_STAT_DD AND NOT E1000_RXD_STAT_EOP;
            d = d\<lparr>rxq := (rxq d)(index := (rxq d index)\<lparr>rx_status := st\<rparr>)\<rparr> in
        (RxPacket pck, set_reg E1000_RDT (of_nat index) d))"

end
