(* ===== verification/Kstate.thy ===== *)
theory Kstate
  imports Errors Layout Console E1000
begin

text \<open>
  The kernel's state and the results of its functions. The C structs become records,
  pointers into the arrays \<open>pages\<close> and \<open>envs\<close> become optional indices (\<open>None\<close> is the
  null pointer), and pointers to page directories and page-table entries stay what they are
  in C, 32-bit kernel virtual addresses into the direct map at KERNBASE. Physical memory is
  an array of pages of 1024 words. \<^verbatim>\<open>cprintf\<close> output of diagnostics is not part of the state.
\<close>

section \<open>Trap frames (inc/trap.h)\<close>

record PushRegs =
  reg_edi :: u32
  reg_esi :: u32
  reg_ebp :: u32
  reg_oesp :: u32
  reg_ebx :: u32
  reg_edx :: u32
  reg_ecx :: u32
  reg_eax :: u32

record Trapframe =
  tf_regs :: PushRegs
  tf_es :: u16
  tf_padding1 :: u16
  tf_ds :: u16
  tf_padding2 :: u16
  tf_trapno :: u32
  tf_err :: u32
  tf_eip :: u32
  tf_cs :: u16
  tf_padding3 :: u16
  tf_eflags :: u32
  tf_esp :: u32
  tf_ss :: u16
  tf_padding4 :: u16

definition zero_regs :: PushRegs where
  "zero_regs = \<lparr>reg_edi = 0, reg_esi = 0, reg_ebp = 0, reg_oesp = 0,
     reg_ebx = 0, reg_edx = 0, reg_ecx = 0, reg_eax = 0\<rparr>"

definition zero_tf :: Trapframe where
  "zero_tf = \<lparr>tf_regs = zero_regs, tf_es = 0, tf_padding1 = 0, tf_ds = 0, tf_padding2 = 0,
     tf_trapno = 0, tf_err = 0, tf_eip = 0, tf_cs = 0, tf_padding3 = 0, tf_eflags = 0,
     tf_esp = 0, tf_ss = 0, tf_padding4 = 0\<rparr>"

section \<open>Environments (inc/env.h)\<close>

definition LOG2NENV :: nat where [jos_consts]: "LOG2NENV = 10"
definition NENV :: nat where [jos_consts]: "NENV = 1024"

type_synonym envid_t = u32

definition ENVX :: "envid_t \<Rightarrow> nat" where
  "ENVX envid = unat (envid AND (of_nat NENV - 1))"

datatype env_status_t = ENV_FREE | ENV_DYING | ENV_RUNNABLE | ENV_RUNNING | ENV_NOT_RUNNABLE

datatype EnvType = ENV_TYPE_USER | ENV_TYPE_FS | ENV_TYPE_NS

record Env =
  env_tf :: Trapframe
  env_link :: "nat option"
  env_id :: envid_t
  env_parent_id :: envid_t
  env_type :: EnvType
  env_status :: env_status_t
  env_runs :: u32
  env_cpunum :: nat
  env_pgdir :: u32
  env_pgfault_upcall :: u32
  env_ipc_recving :: bool
  env_ipc_dstva :: u32
  env_ipc_value :: u32
  env_ipc_from :: envid_t
  env_ipc_perm :: u32
  env_e1000_waiting_rx :: bool

section \<open>Physical pages (inc/memlayout.h) and CPUs (kern/cpu.h)\<close>

record PageInfo =
  pp_link :: "nat option"
  pp_ref :: u16

definition NCPU :: nat where [jos_consts]: "NCPU = 8"

datatype cpu_status_t = CPU_UNUSED | CPU_STARTED | CPU_HALTED

record CpuInfo =
  cpu_status :: cpu_status_t
  cpu_env :: "nat option"
  ts_esp0 :: u32

section \<open>The kernel state\<close>

text \<open>
  \<open>pmem p i\<close> is word \<open>i\<close> of physical page \<open>p\<close>. \<open>tlb\<close> is the translation cache of the
  executing CPU: the page-table entry it holds for a virtual page number, if any.
  \<open>cpunum\<close> is the index of the executing CPU, \<open>lock_cpu\<close> the CPU that holds the big
  kernel lock. \<open>cons\<close> is the console and \<open>nic\<close> the network card with its driver's rings.
\<close>

record kstate =
  npages :: u32
  npages_basemem :: u32
  nextfree :: u32
  mmio_base :: u32
  kern_pgdir :: u32
  pages :: "nat \<Rightarrow> PageInfo"
  page_free_list :: "nat option"
  user_mem_check_addr :: u32
  pmem :: "nat \<Rightarrow> nat \<Rightarrow> u32"
  cr3 :: u32
  tlb :: "nat \<Rightarrow> u32 option"
  envs :: "nat \<Rightarrow> Env"
  env_free_list :: "nat option"
  cpus :: "nat \<Rightarrow> CpuInfo"
  cpunum :: nat
  lock_cpu :: "nat option"
  ticks :: u32
  cons :: console
  nic :: e1000

definition curenv :: "kstate \<Rightarrow> nat option" where
  "curenv s = cpu_env (cpus s (cpunum s))"

section \<open>Results of kernel functions\<close>

text \<open>
  A kernel function returns a value and the new state, or stops in a panic, or leaves the
  kernel without returning to its caller: into user mode (\<open>env_pop_tf\<close>), into the halt
  loop of \<open>sched_halt\<close>, into the kernel monitor, or by spinning on the kernel lock.
\<close>

datatype kexit = UserMode nat | Halt | Monitor | Spin

datatype 'a kres = Ret 'a kstate | Exit kexit kstate | Panic string

primrec kbind :: "'a kres \<Rightarrow> ('a \<Rightarrow> kstate \<Rightarrow> 'b kres) \<Rightarrow> 'b kres" where
  "kbind (Ret x s) f = f x s"
| "kbind (Exit e s) f = Exit e s"
| "kbind (Panic m) f = Panic m"

lemma kbind_Ret_iff:
  "kbind r f = Ret y t \<longleftrightarrow> (\<exists>x s. r = Ret x s \<and> f x s = Ret y t)"
  by (cases r) auto

lemma kbind_Exit_iff:
  "kbind r f = Exit e t \<longleftrightarrow> r = Exit e t \<or> (\<exists>x s. r = Ret x s \<and> f x s = Exit e t)"
  by (cases r) auto

lemma kbind_Panic_iff:
  "kbind r f = Panic m \<longleftrightarrow> r = Panic m \<or> (\<exists>x s. r = Ret x s \<and> f x s = Panic m)"
  by (cases r) auto

lemmas kbind_iffs = kbind_Ret_iff kbind_Exit_iff kbind_Panic_iff

text \<open>The state a result carries, when there is one, satisfies a predicate.\<close>

primrec kres_all :: "(kstate \<Rightarrow> bool) \<Rightarrow> 'a kres \<Rightarrow> bool" where
  "kres_all P (Ret x s) \<longleftrightarrow> P s"
| "kres_all P (Exit e s) \<longleftrightarrow> P s"
| "kres_all P (Panic m) \<longleftrightarrow> True"

lemma kres_all_kbind:
  assumes "kres_all P r" and "\<And>x s. r = Ret x s \<Longrightarrow> P s \<Longrightarrow> kres_all P (f x s)"
  shows "kres_all P (kbind r f)"
  using assms by (cases r) auto

section \<open>Memory through kernel virtual addresses\<close>

definition pa_page :: "physaddr \<Rightarrow> nat" where "pa_page pa = unat (PGNUM pa)"
definition pa_word :: "physaddr \<Rightarrow> nat" where "pa_word pa = unat (PGOFF pa) div 4"

definition kload :: "kstate \<Rightarrow> u32 \<Rightarrow> u32" where
  "kload s kva = pmem s (pa_page (kva - KERNBASE)) (pa_word (kva - KERNBASE))"

definition set_word :: "(nat \<Rightarrow> nat \<Rightarrow> u32) \<Rightarrow> nat \<Rightarrow> nat \<Rightarrow> u32 \<Rightarrow> nat \<Rightarrow> nat \<Rightarrow> u32" where
  "set_word m p i v = m(p := (m p)(i := v))"

definition kstore :: "u32 \<Rightarrow> u32 \<Rightarrow> kstate \<Rightarrow> kstate" where
  "kstore kva v s =
     s\<lparr>pmem := set_word (pmem s) (pa_page (kva - KERNBASE)) (pa_word (kva - KERNBASE)) v\<rparr>"

text \<open>The kernel virtual address of word \<open>i\<close> of physical page \<open>p\<close>.\<close>

definition kva_of :: "nat \<Rightarrow> nat \<Rightarrow> u32" where
  "kva_of p i = KERNBASE + of_nat (p * 4096 + i * 4)"

lemma kva_of_parts:
  assumes "p < 1048576" and "i < 1024"
  shows "pa_page (kva_of p i - KERNBASE) = p" and "pa_word (kva_of p i - KERNBASE) = i"
proof -
  have u: "unat (kva_of p i - KERNBASE) = p * 4096 + i * 4"
    using assms by (simp add: kva_of_def unat_of_nat del: of_nat_add of_nat_mult)
  show "pa_page (kva_of p i - KERNBASE) = p"
    using assms by (simp add: pa_page_def unat_PGNUM u)
  show "pa_word (kva_of p i - KERNBASE) = i"
    using assms by (simp add: pa_word_def unat_PGOFF u)
qed

lemma kload_kva_of: "p < 1048576 \<Longrightarrow> i < 1024 \<Longrightarrow> kload s (kva_of p i) = pmem s p i"
  by (simp add: kload_def kva_of_parts)

lemma kstore_kva_of:
  "p < 1048576 \<Longrightarrow> i < 1024 \<Longrightarrow> kstore (kva_of p i) v s = s\<lparr>pmem := set_word (pmem s) p i v\<rparr>"
  by (simp add: kstore_def kva_of_parts)

lemma set_word_apply: "set_word m p i v q j = (if q = p \<and> j = i then v else m q j)"
  by (simp add: set_word_def)

end
