(* ===== verification/Pmap.thy ===== *)
theory Pmap
  imports Kstate
begin

text \<open>
  Physical page management and two-level page tables, \<^verbatim>\<open>kern/pmap.c\<close> and the inline
  functions of \<^verbatim>\<open>kern/pmap.h\<close>. Every function is translated with its panics and early
  returns; a C assertion that fails is a panic, and so is a kernel access through a null
  pointer, which traps and ends in \<open>page_fault_handler\<close>'s kernel-mode panic.
\<close>

section \<open>Address conversion (kern/pmap.h)\<close>

definition PADDR :: "u32 \<Rightarrow> kstate \<Rightarrow> physaddr kres" where
  "PADDR kva s =
     (if kva < KERNBASE then Panic ''PADDR called with invalid kva''
      else Ret (kva - KERNBASE) s)"

definition KADDR :: "physaddr \<Rightarrow> kstate \<Rightarrow> u32 kres" where
  "KADDR pa s =
     (if PGNUM pa \<ge> npages s then Panic ''KADDR called with invalid pa''
      else Ret (pa + KERNBASE) s)"

definition page2pa :: "nat \<Rightarrow> physaddr" where
  "page2pa pp = push_bit 12 (of_nat pp)"

definition pa2page :: "physaddr \<Rightarrow> kstate \<Rightarrow> nat kres" where
  "pa2page pa s =
     (if PGNUM pa \<ge> npages s then Panic ''pa2page called with invalid pa''
      else Ret (unat (PGNUM pa)) s)"

definition page2kva :: "nat \<Rightarrow> kstate \<Rightarrow> u32 kres" where
  "page2kva pp s = KADDR (page2pa pp) s"

text \<open>\<open>memset\<close> of one whole page with a byte value.\<close>

definition memset_page :: "u32 \<Rightarrow> u8 \<Rightarrow> kstate \<Rightarrow> kstate" where
  "memset_page kva c s =
     s\<lparr>pmem := (pmem s)(pa_page (kva - KERNBASE) := (\<lambda>_. ucast c * 0x01010101))\<rparr>"

text \<open>A store through a null pointer faults in kernel mode.\<close>

definition null_deref :: "'a kres" where
  "null_deref = Panic ''page_fault_handler:page fault''"

section \<open>The boot-time allocator (kern/pmap.c)\<close>

text \<open>\<open>kend\<close> is the linker symbol \<open>end\<close>.\<close>

definition boot_alloc :: "u32 \<Rightarrow> u32 \<Rightarrow> kstate \<Rightarrow> u32 kres" where
  "boot_alloc kend n s =
     (let s = (if nextfree s = 0 then s\<lparr>nextfree := ROUNDUP kend PGSIZE\<rparr> else s) in
      if n > 0 then
        (let result = nextfree s;
             s = s\<lparr>nextfree := ROUNDUP (nextfree s + n) PGSIZE\<rparr> in
         if nextfree s - KERNBASE > npages s * PGSIZE
         then Panic ''Cannot alloc more physical memory''
         else Ret result s)
      else Ret (nextfree s) s)"

text \<open>\<open>mc146818_read\<close> reads a CMOS register; \<open>cmos r\<close> is the byte at \<open>r\<close>.\<close>

definition nvram_read :: "(u32 \<Rightarrow> u8) \<Rightarrow> u32 \<Rightarrow> u32" where
  "nvram_read cmos r = ucast (cmos r) OR push_bit 8 (ucast (cmos (r + 1)))"

definition NVRAM_BASELO :: u32 where [jos_consts]: "NVRAM_BASELO = 0x15"
definition NVRAM_EXTLO :: u32 where [jos_consts]: "NVRAM_EXTLO = 0x17"

definition i386_detect_memory :: "(u32 \<Rightarrow> u8) \<Rightarrow> kstate \<Rightarrow> kstate" where
  "i386_detect_memory cmos s =
     (let s = s\<lparr>npages_basemem := (nvram_read cmos NVRAM_BASELO * 1024) div PGSIZE\<rparr>;
          npages_extmem = (nvram_read cmos NVRAM_EXTLO * 1024) div PGSIZE in
      if npages_extmem \<noteq> 0
      then s\<lparr>npages := EXTPHYSMEM div PGSIZE + npages_extmem\<rparr>
      else s\<lparr>npages := npages_basemem s\<rparr>)"

section \<open>Tracking of physical pages\<close>

definition page_in_use :: "u32 \<Rightarrow> u32 \<Rightarrow> u32 \<Rightarrow> u32 \<Rightarrow> bool" where
  "page_in_use basemem num_io_pages num_alloc i \<longleftrightarrow>
     i = 0
     \<or> (i \<ge> basemem \<and> i < basemem + num_io_pages)
     \<or> (i \<ge> basemem + num_io_pages \<and> i < basemem + num_io_pages + num_alloc)
     \<or> i = MPENTRY_PADDR div PGSIZE"

definition page_init_step :: "u32 \<Rightarrow> u32 \<Rightarrow> nat \<Rightarrow> kstate \<Rightarrow> kstate" where
  "page_init_step num_io_pages num_alloc i s =
     (if page_in_use (npages_basemem s) num_io_pages num_alloc (of_nat i)
      then s\<lparr>pages := (pages s)(i := (pages s i)\<lparr>pp_ref := 1\<rparr>)\<rparr>
      else s\<lparr>pages := (pages s)(i := (pages s i)\<lparr>pp_ref := 0, pp_link := page_free_list s\<rparr>),
             page_free_list := Some i\<rparr>)"

definition page_init :: "u32 \<Rightarrow> kstate \<Rightarrow> unit kres" where
  "page_init kend s =
     kbind (boot_alloc kend 0 s) (\<lambda>first_free s.
       let num_alloc = (first_free - KERNBASE) div PGSIZE;
           num_io_pages = (EXTPHYSMEM - IOPHYSMEM) div PGSIZE;
           s = s\<lparr>page_free_list := None\<rparr> in
       Ret () (fold (page_init_step num_io_pages num_alloc) [0..<unat (npages s)] s))"

definition ALLOC_ZERO :: u32 where [jos_consts]: "ALLOC_ZERO = 1"

definition page_alloc :: "u32 \<Rightarrow> kstate \<Rightarrow> nat option kres" where
  "page_alloc alloc_flags s =
     (case page_free_list s of
        None \<Rightarrow> Ret None s
      | Some temp_page \<Rightarrow>
          if pp_ref (pages s temp_page) \<noteq> 0
          then Panic ''assertion failed: temp_page->pp_ref == 0''
          else
            let s = s\<lparr>page_free_list := pp_link (pages s temp_page)\<rparr>;
                s = s\<lparr>pages := (pages s)(temp_page := (pages s temp_page)\<lparr>pp_link := None\<rparr>)\<rparr> in
            if alloc_flags AND ALLOC_ZERO \<noteq> 0
            then kbind (page2kva temp_page s)
                   (\<lambda>kva s. Ret (Some temp_page) (memset_page kva 0 s))
            else Ret (Some temp_page) s)"

definition page_free :: "nat \<Rightarrow> kstate \<Rightarrow> unit kres" where
  "page_free pp s =
     (if pp_ref (pages s pp) \<noteq> 0 then Panic ''Still using page''
      else if pp_link (pages s pp) \<noteq> None then Panic ''free page still have a link''
      else Ret () (s\<lparr>pages := (pages s)(pp := (pages s pp)\<lparr>pp_link := page_free_list s\<rparr>),
                     page_free_list := Some pp\<rparr>))"

definition set_ref :: "nat \<Rightarrow> u16 \<Rightarrow> kstate \<Rightarrow> kstate" where
  "set_ref pp r s = s\<lparr>pages := (pages s)(pp := (pages s pp)\<lparr>pp_ref := r\<rparr>)\<rparr>"

definition page_decref :: "nat \<Rightarrow> kstate \<Rightarrow> unit kres" where
  "page_decref pp s =
     (let s = set_ref pp (pp_ref (pages s pp) - 1) s in
      if pp_ref (pages s pp) = 0 then page_free pp s else Ret () s)"

section \<open>Page tables\<close>

definition pgdir_walk :: "u32 \<Rightarrow> u32 \<Rightarrow> bool \<Rightarrow> kstate \<Rightarrow> u32 option kres" where
  "pgdir_walk pgdir va create s =
     (let pgdir_entry = pgdir + 4 * PDX va in
      kbind
        (if kload s pgdir_entry AND PTE_P = 0 then
           if create then
             kbind (page_alloc 1 s) (\<lambda>pg s.
               case pg of
                 None \<Rightarrow> Ret False s
               | Some pg \<Rightarrow>
                   kbind (page2kva pg s) (\<lambda>kva s.
                     let s = memset_page kva 0 s;
                         s = set_ref pg (pp_ref (pages s pg) + 1) s in
                     Ret True (kstore pgdir_entry (page2pa pg OR PTE_P OR PTE_U OR PTE_W) s)))
           else Ret False s
         else Ret True s)
        (\<lambda>found s.
           if \<not> found then Ret None s
           else kbind (KADDR (PTE_ADDR (kload s pgdir_entry)) s)
                  (\<lambda>pgtb_entry s. Ret (Some (pgtb_entry + 4 * PTX va)) s)))"

definition invlpg :: "u32 \<Rightarrow> kstate \<Rightarrow> kstate" where
  "invlpg va s = s\<lparr>tlb := (tlb s)(unat (PGNUM va) := None)\<rparr>"

definition tlb_invalidate :: "u32 \<Rightarrow> u32 \<Rightarrow> kstate \<Rightarrow> kstate" where
  "tlb_invalidate pgdir va s =
     (case curenv s of
        None \<Rightarrow> invlpg va s
      | Some e \<Rightarrow> if env_pgdir (envs s e) = pgdir then invlpg va s else s)"

text \<open>
  \<open>page_lookup\<close> returns the page together with what it stores through \<open>pte_store\<close>; when it
  returns the null pointer it leaves \<open>*pte_store\<close> alone.
\<close>

definition page_lookup :: "u32 \<Rightarrow> u32 \<Rightarrow> kstate \<Rightarrow> (nat \<times> u32) option kres" where
  "page_lookup pgdir va s =
     kbind (pgdir_walk pgdir va False s) (\<lambda>pt_entry s.
       case pt_entry of
         None \<Rightarrow> Ret None s
       | Some pt_entry \<Rightarrow>
           if kload s pt_entry AND PTE_P \<noteq> 0
           then kbind (pa2page (PTE_ADDR (kload s pt_entry)) s)
                  (\<lambda>pp s. Ret (Some (pp, pt_entry)) s)
           else Ret None s)"

definition page_remove :: "u32 \<Rightarrow> u32 \<Rightarrow> kstate \<Rightarrow> unit kres" where
  "page_remove pgdir va s =
     kbind (page_lookup pgdir va s) (\<lambda>pg s.
       case pg of
         None \<Rightarrow> Ret () s
       | Some (pg, pte_store) \<Rightarrow>
           kbind (page_decref pg s) (\<lambda>_ s.
             Ret () (kstore pte_store 0 (tlb_invalidate pgdir va s))))"

definition page_insert :: "u32 \<Rightarrow> nat \<Rightarrow> u32 \<Rightarrow> u32 \<Rightarrow> kstate \<Rightarrow> int kres" where
  "page_insert pgdir pp va perm s =
     kbind (pgdir_walk pgdir va True s) (\<lambda>pg_entry s.
       case pg_entry of
         None \<Rightarrow> Ret (- E_NO_MEM) s
       | Some pg_entry \<Rightarrow>
           let s = set_ref pp (pp_ref (pages s pp) + 1) s in
           kbind (if kload s pg_entry AND PTE_P \<noteq> 0
                  then page_remove pgdir va (tlb_invalidate pgdir va s)
                  else Ret () s) (\<lambda>_ s.
             let s = kstore pg_entry (page2pa pp OR perm OR PTE_P) s;
                 pde = pgdir + 4 * PDX va in
             Ret 0 (kstore pde (kload s pde OR perm OR PTE_P) s)))"

fun boot_map_loop :: "u32 \<Rightarrow> u32 \<Rightarrow> physaddr \<Rightarrow> u32 \<Rightarrow> nat list \<Rightarrow> kstate \<Rightarrow> unit kres" where
  "boot_map_loop pgdir va pa perm [] s = Ret () s"
| "boot_map_loop pgdir va pa perm (i # is) s =
     kbind (pgdir_walk pgdir (va + of_nat i * PGSIZE) True s) (\<lambda>tb_entry s.
       case tb_entry of
         None \<Rightarrow> null_deref
       | Some tb_entry \<Rightarrow>
           boot_map_loop pgdir va pa perm is
             (kstore tb_entry ((pa + of_nat i * PGSIZE) OR perm OR PTE_P) s))"

definition boot_map_region :: "u32 \<Rightarrow> u32 \<Rightarrow> u32 \<Rightarrow> physaddr \<Rightarrow> u32 \<Rightarrow> kstate \<Rightarrow> unit kres" where
  "boot_map_region pgdir va sz pa perm s =
     boot_map_loop pgdir va pa perm [0..<unat (sz div PGSIZE)] s"

definition mmio_map_region :: "physaddr \<Rightarrow> u32 \<Rightarrow> kstate \<Rightarrow> u32 kres" where
  "mmio_map_region pa sz s =
     (let ret = mmio_base s; round_size = ROUNDUP sz PGSIZE in
      if mmio_base s + round_size \<ge> MMIOLIM then Panic ''mmio_map_region: map overflow''
      else kbind (boot_map_region (kern_pgdir s) (mmio_base s) round_size pa
                    (PTE_PCD OR PTE_PWT OR PTE_W) s) (\<lambda>_ s.
             Ret ret (s\<lparr>mmio_base := mmio_base s + round_size\<rparr>)))"

section \<open>Checking user memory\<close>

text \<open>
  The loop of \<open>user_mem_check\<close> keeps its counter in the global variable
  \<open>user_mem_check_addr\<close>. The counter grows by PGSIZE and stays below ULIM while the loop goes
  on, so at most \<open>2 ^ 20\<close> iterations happen: the fuel is \<open>2 ^ 32 - counter\<close>.
\<close>

function user_mem_check_loop :: "u32 \<Rightarrow> u32 \<Rightarrow> u32 \<Rightarrow> u32 \<Rightarrow> kstate \<Rightarrow> int kres" where
  "user_mem_check_loop pgdir start limit perm s =
     (if user_mem_check_addr s < limit then
        case pgdir_walk pgdir (ROUNDDOWN (user_mem_check_addr s) PGSIZE) False s of
          Ret pte s' \<Rightarrow>
            (let addr = user_mem_check_addr s in
             if (case pte of None \<Rightarrow> True
                 | Some pte \<Rightarrow> kload s pte OR perm OR PTE_P \<noteq> kload s pte) \<or> addr \<ge> ULIM
             then Ret (- E_FAULT)
                    (if addr \<noteq> start then s\<lparr>user_mem_check_addr := ROUNDDOWN addr PGSIZE\<rparr> else s)
             else user_mem_check_loop pgdir start limit perm
                    (s\<lparr>user_mem_check_addr := addr + PGSIZE\<rparr>))
        | Exit e s' \<Rightarrow> Exit e s'
        | Panic m \<Rightarrow> Panic m
      else Ret 0 s)"
  by pat_completeness auto
termination
proof (relation "measure (\<lambda>(pgdir, start, limit, perm, s). 2 ^ 32 - unat (user_mem_check_addr s))")
  fix pgdir start limit perm :: u32 and s s' :: kstate and pte :: "u32 option" and addr :: u32
  assume "addr = user_mem_check_addr s"
    and "\<not> ((case pte of None \<Rightarrow> True
          | Some pte \<Rightarrow> kload s pte OR perm OR PTE_P \<noteq> kload s pte) \<or> ULIM \<le> addr)"
  then have "addr < 0xEF800000" by (simp add: jos_consts not_le)
  then have "unat (addr + PGSIZE) = unat addr + 4096" and "unat addr < 4018143232"
    by (simp_all add: unat_word_ariths PGSIZE_def word_less_nat_alt)
  then show "((pgdir, start, limit, perm, s\<lparr>user_mem_check_addr := addr + PGSIZE\<rparr>),
      (pgdir, start, limit, perm, s))
    \<in> measure (\<lambda>(pgdir, start, limit, perm, s). 2 ^ 32 - unat (user_mem_check_addr s))"
    using \<open>addr = user_mem_check_addr s\<close> by simp
qed simp

declare user_mem_check_loop.simps [simp del]

definition user_mem_check :: "nat \<Rightarrow> u32 \<Rightarrow> u32 \<Rightarrow> u32 \<Rightarrow> kstate \<Rightarrow> int kres" where
  "user_mem_check env va len perm s =
     user_mem_check_loop (env_pgdir (envs s env)) va (ROUNDUP (va + len) PGSIZE) perm
       (s\<lparr>user_mem_check_addr := va\<rparr>)"

end
