(* ===== verification/Allocator.thy ===== *)
theory Allocator
  imports Jos_Prelude
begin

text \<open>
  The contract of a resource allocator, shared by the physical page allocator
  (\<^verbatim>\<open>kern/pmap.c\<close>) and the disk block allocator (\<^verbatim>\<open>fs/fs.c\<close>): what an allocation takes
  from the free set, when it fails, and what a release gives back. What a client may
  conclude from the contract alone is proved once here, about whole sequences of
  allocations and releases.
\<close>

fun alloc_many :: "('s \<Rightarrow> ('r option \<times> 's) option) \<Rightarrow> nat \<Rightarrow> 's \<Rightarrow> ('r list \<times> 's) option" where
  "alloc_many alloc 0 s = Some ([], s)"
| "alloc_many alloc (Suc n) s =
     (case alloc s of
        Some (Some r, s') \<Rightarrow>
          (case alloc_many alloc n s' of Some (rs, t) \<Rightarrow> Some (r # rs, t) | None \<Rightarrow> None)
      | _ \<Rightarrow> None)"

fun release_all :: "('r \<Rightarrow> 's \<Rightarrow> 's option) \<Rightarrow> 'r list \<Rightarrow> 's \<Rightarrow> 's option" where
  "release_all release [] s = Some s"
| "release_all release (r # rs) s =
     (case release r s of Some s' \<Rightarrow> release_all release rs s' | None \<Rightarrow> None)"

locale allocator =
  fixes alloc :: "'s \<Rightarrow> ('r option \<times> 's) option"
    and release :: "'r \<Rightarrow> 's \<Rightarrow> 's option"
    and free_set :: "'s \<Rightarrow> 'r set"
    and owned :: "'r \<Rightarrow> 's \<Rightarrow> bool"
    and inv :: "'s \<Rightarrow> bool"
  assumes free_finite: "inv s \<Longrightarrow> finite (free_set s)"
    and alloc_none: "inv s \<Longrightarrow> free_set s = {} \<Longrightarrow>
      \<exists>s'. alloc s = Some (None, s') \<and> free_set s' = {} \<and> inv s' \<and> (\<forall>q. owned q s \<longrightarrow> owned q s')"
    and alloc_some: "inv s \<Longrightarrow> free_set s \<noteq> {} \<Longrightarrow>
      \<exists>r s'. alloc s = Some (Some r, s') \<and> r \<in> free_set s \<and> free_set s' = free_set s - {r}
        \<and> inv s' \<and> owned r s' \<and> (\<forall>q. owned q s \<longrightarrow> owned q s')"
    and release_some: "inv s \<Longrightarrow> owned r s \<Longrightarrow>
      \<exists>s'. release r s = Some s' \<and> free_set s' = insert r (free_set s) \<and> inv s'
        \<and> (\<forall>q. q \<noteq> r \<longrightarrow> owned q s \<longrightarrow> owned q s')"
    and owned_not_free: "inv s \<Longrightarrow> owned r s \<Longrightarrow> r \<notin> free_set s"
begin

text \<open>As many allocations succeed as there are free resources, and they are all different.\<close>

lemma alloc_many_ok:
  assumes "inv s" and "n \<le> card (free_set s)"
  shows "\<exists>rs t. alloc_many alloc n s = Some (rs, t) \<and> length rs = n \<and> distinct rs
    \<and> set rs \<subseteq> free_set s \<and> free_set t = free_set s - set rs \<and> inv t
    \<and> (\<forall>r \<in> set rs. owned r t) \<and> (\<forall>q. owned q s \<longrightarrow> owned q t)"
  using assms
proof (induction n arbitrary: s)
  case 0
  then show ?case by simp
next
  case (Suc n)
  then have "free_set s \<noteq> {}" by auto
  then obtain r s' where a: "alloc s = Some (Some r, s')" and r: "r \<in> free_set s"
    and fs: "free_set s' = free_set s - {r}" and i: "inv s'" and o: "owned r s'"
    and keep: "\<forall>q. owned q s \<longrightarrow> owned q s'"
    using alloc_some Suc.prems(1) by blast
  have "n \<le> card (free_set s')"
    using Suc.prems r fs by (simp add: free_finite)
  with Suc.IH i obtain rs t where m: "alloc_many alloc n s' = Some (rs, t)" "length rs = n" "distinct rs"
    "set rs \<subseteq> free_set s'" "free_set t = free_set s' - set rs" "inv t"
    "\<forall>r \<in> set rs. owned r t" "\<forall>q. owned q s' \<longrightarrow> owned q t"
    by blast
  have "alloc_many alloc (Suc n) s = Some (r # rs, t)"
    using a m(1) by simp
  moreover have "free_set t = free_set s - set (r # rs)"
    using m(5) fs by auto
  moreover have "length (r # rs) = Suc n" "distinct (r # rs)" "set (r # rs) \<subseteq> free_set s"
    using m r fs by auto
  ultimately show ?case
    using m(6-8) o keep by (intro exI [of _ "r # rs"] exI [of _ t]) auto
qed

text \<open>Beyond that number allocation reports exhaustion.\<close>

lemma alloc_many_exhausts:
  assumes "inv s" and "card (free_set s) < n"
  shows "alloc_many alloc n s = None"
  using assms
proof (induction n arbitrary: s)
  case 0
  then show ?case by simp
next
  case (Suc n)
  show ?case
  proof (cases "free_set s = {}")
    case True
    then show ?thesis using alloc_none [OF Suc.prems(1)] by auto
  next
    case False
    then obtain r s' where a: "alloc s = Some (Some r, s')" and r: "r \<in> free_set s"
      and fs: "free_set s' = free_set s - {r}" and i: "inv s'"
      using alloc_some Suc.prems(1) by blast
    have "0 < card (free_set s)"
      using r free_finite [OF Suc.prems(1)] by (auto simp: card_gt_0_iff)
    then have "card (free_set s') < n"
      using Suc.prems r fs by (simp add: free_finite)
    with Suc.IH i a show ?thesis by simp
  qed
qed

lemma release_all_ok:
  assumes "inv s" and "distinct rs" and "\<forall>r \<in> set rs. owned r s"
  shows "\<exists>t. release_all release rs s = Some t \<and> free_set t = free_set s \<union> set rs \<and> inv t"
  using assms
proof (induction rs arbitrary: s)
  case Nil
  then show ?case by simp
next
  case (Cons r rs)
  then obtain s' where r: "release r s = Some s'" and fs: "free_set s' = insert r (free_set s)"
    and i: "inv s'" and keep: "\<forall>q. q \<noteq> r \<longrightarrow> owned q s \<longrightarrow> owned q s'"
    using release_some by (metis list.set_intros(1))
  have "\<forall>q \<in> set rs. owned q s'"
    using Cons.prems keep by auto
  with Cons i obtain t where "release_all release rs s' = Some t" "free_set t = free_set s' \<union> set rs" "inv t"
    by (metis distinct.simps(2))
  with r fs show ?case by auto
qed

text \<open>Giving everything back restores the free set: nothing leaks.\<close>

lemma alloc_release_restores:
  assumes "inv s" and "n \<le> card (free_set s)"
  shows "\<exists>rs t u. alloc_many alloc n s = Some (rs, t) \<and> release_all release rs t = Some u
    \<and> free_set u = free_set s \<and> inv u"
proof -
  obtain rs t where m: "alloc_many alloc n s = Some (rs, t)" "distinct rs" "set rs \<subseteq> free_set s"
    "free_set t = free_set s - set rs" "inv t" "\<forall>r \<in> set rs. owned r t"
    using alloc_many_ok [OF assms] by blast
  then obtain u where "release_all release rs t = Some u" "free_set u = free_set t \<union> set rs" "inv u"
    using release_all_ok [of t rs] by blast
  with m show ?thesis by auto
qed

end

end
