(* ===== verification/Pmap_Alloc.thy ===== *)
theory Pmap_Alloc
  imports Pmap Allocator
begin

text \<open>
  Correctness of the physical page allocator: the free list threaded through
  \<open>pages[i].pp_link\<close> is a well-formed list of unreferenced pages, \<open>page_init\<close> establishes
  this, \<open>page_alloc\<close>, \<open>page_free\<close> and \<open>page_decref\<close> keep it, and the allocator fulfils the
  contract of \<^verbatim>\<open>Allocator\<close>.
\<close>

section \<open>The free list and its invariant\<close>

definition plink :: "kstate \<Rightarrow> nat \<Rightarrow> nat option" where
  "plink s i = pp_link (pages s i)"

definition free_pages :: "kstate \<Rightarrow> nat list" where
  "free_pages s = chase (plink s) (unat (npages s)) (page_free_list s)"

text \<open>
  KERNBASE leaves 256 MB for the direct map, so a machine has at most 65536 usable pages.
\<close>

definition pages_inv :: "kstate \<Rightarrow> bool" where
  "pages_inv s \<longleftrightarrow>
     unat (npages s) \<le> 65536
     \<and> linked (plink s) (page_free_list s) (free_pages s)
     \<and> (\<forall>i \<in> set (free_pages s). i < unat (npages s) \<and> pp_ref (pages s i) = 0)
     \<and> (\<forall>i < unat (npages s). i \<notin> set (free_pages s) \<longrightarrow> pp_link (pages s i) = None)"

text \<open>A page in the hands of a kernel function: allocated and not yet referenced.\<close>

definition page_owned :: "nat \<Rightarrow> kstate \<Rightarrow> bool" where
  "page_owned i s \<longleftrightarrow> i < unat (npages s) \<and> i \<notin> set (free_pages s) \<and> pp_ref (pages s i) = 0"

lemma pages_invI:
  assumes "unat (npages s) \<le> 65536"
    and l: "linked (plink s) (page_free_list s) xs"
    and b: "\<forall>i \<in> set xs. i < unat (npages s) \<and> pp_ref (pages s i) = 0"
    and "\<forall>i < unat (npages s). i \<notin> set xs \<longrightarrow> pp_link (pages s i) = None"
  shows "pages_inv s" and "free_pages s = xs"
proof -
  have "distinct xs" using l by (rule linked_distinct)
  then have "length xs \<le> unat (npages s)"
    using b by (intro distinct_length_bound) auto
  with l show "free_pages s = xs"
    unfolding free_pages_def by (rule chase_linked)
  with assms show "pages_inv s"
    by (simp add: pages_inv_def)
qed

lemma pages_invD:
  assumes "pages_inv s"
  shows "unat (npages s) \<le> 65536"
    and "linked (plink s) (page_free_list s) (free_pages s)"
    and "i \<in> set (free_pages s) \<Longrightarrow> i < unat (npages s)"
    and "i \<in> set (free_pages s) \<Longrightarrow> pp_ref (pages s i) = 0"
    and "i < unat (npages s) \<Longrightarrow> i \<notin> set (free_pages s) \<Longrightarrow> pp_link (pages s i) = None"
    and "distinct (free_pages s)"
  using assms linked_distinct by (auto simp: pages_inv_def)

text \<open>The invariant looks at these fields only.\<close>

lemma pages_inv_cong:
  assumes "pages t = pages s" "page_free_list t = page_free_list s" "npages t = npages s"
  shows "pages_inv t = pages_inv s" and "free_pages t = free_pages s"
    and "page_owned i t = page_owned i s"
proof -
  have "plink t = plink s"
    using assms by (simp add: plink_def fun_eq_iff)
  then show fp: "free_pages t = free_pages s"
    using assms by (simp add: free_pages_def)
  show "pages_inv t = pages_inv s"
    using assms \<open>plink t = plink s\<close> fp by (simp add: pages_inv_def)
  show "page_owned i t = page_owned i s"
    using assms fp by (simp add: page_owned_def)
qed

section \<open>Conversions on managed pages\<close>

lemma unat_page2pa: "p < 1048576 \<Longrightarrow> unat (page2pa p) = p * 4096"
  by (simp add: page2pa_def push_bit_eq_mult unat_word_ariths unat_of_nat)

lemma unat_npages_less: "pp < unat (npages s) \<Longrightarrow> unat (npages s) \<le> 65536 \<Longrightarrow> pp < 1048576"
  by simp

lemma PGNUM_page2pa: "p < 1048576 \<Longrightarrow> unat (PGNUM (page2pa p)) = p"
  by (simp add: unat_PGNUM unat_page2pa)

lemma page2pa_kva: "p < 1048576 \<Longrightarrow> page2pa p + KERNBASE = kva_of p 0"
  by (simp add: kva_of_def page2pa_def push_bit_eq_mult mult.commute)

lemma page2kva_ok:
  "p < unat (npages s) \<Longrightarrow> unat (npages s) \<le> 65536 \<Longrightarrow> page2kva p s = Ret (kva_of p 0) s"
  by (simp add: page2kva_def KADDR_def word_le_nat_alt PGNUM_page2pa page2pa_kva)

lemma memset_page_kva_of:
  "p < 1048576 \<Longrightarrow> memset_page (kva_of p 0) 0 s = s\<lparr>pmem := (pmem s)(p := (\<lambda>_. 0))\<rparr>"
  by (simp add: memset_page_def kva_of_parts)

section \<open>page_alloc\<close>

lemma page_alloc_empty:
  "pages_inv s \<Longrightarrow> free_pages s = [] \<Longrightarrow> page_alloc fl s = Ret None s"
  using pages_invD(2) [of s] by (simp add: page_alloc_def)

lemma page_alloc_Cons:
  assumes i: "pages_inv s" and f: "free_pages s = p # ps"
  obtains t where "page_alloc fl s = Ret (Some p) t" and "pages_inv t" and "free_pages t = ps"
    and "t = s\<lparr>page_free_list := pp_link (pages s p),
               pages := (pages s)(p := (pages s p)\<lparr>pp_link := None\<rparr>),
               pmem := (if fl AND ALLOC_ZERO \<noteq> 0 then (pmem s)(p := (\<lambda>_. 0)) else pmem s)\<rparr>"
proof -
  let ?t = "s\<lparr>page_free_list := pp_link (pages s p),
               pages := (pages s)(p := (pages s p)\<lparr>pp_link := None\<rparr>),
               pmem := (if fl AND ALLOC_ZERO \<noteq> 0 then (pmem s)(p := (\<lambda>_. 0)) else pmem s)\<rparr>"
  note D = pages_invD [OF i]
  have l: "page_free_list s = Some p" "linked (plink s) (pp_link (pages s p)) ps"
    using D(2) f by (auto simp: plink_def)
  have p: "p < unat (npages s)" "pp_ref (pages s p) = 0" "p \<notin> set ps"
    using D(3,4) [of p] D(6) f by auto
  have "page_alloc fl s = Ret (Some p) ?t"
    using l p D(1) unat_npages_less [OF p(1) D(1)]
    by (simp add: page_alloc_def page2kva_ok memset_page_kva_of Let_def)
  moreover have "linked (plink ?t) (page_free_list ?t) ps"
  proof -
    have "linked (plink ?t) (pp_link (pages s p)) ps \<longleftrightarrow> linked (plink s) (pp_link (pages s p)) ps"
      using p(3) by (intro linked_cong) (auto simp: plink_def)
    with l show ?thesis by simp
  qed
  then have "pages_inv ?t" "free_pages ?t = ps"
    using pages_invI [of ?t ps] D f p by auto
  ultimately show thesis by (rule that) simp
qed

section \<open>page_free and page_decref\<close>

lemma page_free_ok:
  assumes i: "pages_inv s" and o: "page_owned p s"
  obtains t where "page_free p s = Ret () t" and "pages_inv t" and "free_pages t = p # free_pages s"
    and "t = s\<lparr>pages := (pages s)(p := (pages s p)\<lparr>pp_link := page_free_list s\<rparr>),
               page_free_list := Some p\<rparr>"
proof -
  let ?t = "s\<lparr>pages := (pages s)(p := (pages s p)\<lparr>pp_link := page_free_list s\<rparr>),
               page_free_list := Some p\<rparr>"
  note D = pages_invD [OF i]
  have p: "p < unat (npages s)" "p \<notin> set (free_pages s)" "pp_ref (pages s p) = 0"
    using o by (auto simp: page_owned_def)
  have "page_free p s = Ret () ?t"
    using p D(5) by (simp add: page_free_def)
  moreover have "linked (plink ?t) (page_free_list s) (free_pages s)
      \<longleftrightarrow> linked (plink s) (page_free_list s) (free_pages s)"
    using p(2) by (intro linked_cong) (auto simp: plink_def)
  with D(2) have l: "linked (plink ?t) (page_free_list ?t) (p # free_pages s)"
    by (simp add: plink_def)
  have "pages_inv ?t" "free_pages ?t = p # free_pages s"
    by (rule pages_invI [of ?t "p # free_pages s"], use D p l in auto)+
  ultimately show thesis by (rule that) simp
qed

lemma set_ref_fields [simp]:
  "npages (set_ref p r s) = npages s" "page_free_list (set_ref p r s) = page_free_list s"
  "pmem (set_ref p r s) = pmem s" "envs (set_ref p r s) = envs s" "cpus (set_ref p r s) = cpus s"
  "cpunum (set_ref p r s) = cpunum s" "tlb (set_ref p r s) = tlb s"
  "cr3 (set_ref p r s) = cr3 s" "kern_pgdir (set_ref p r s) = kern_pgdir s"
  "pp_link (pages (set_ref p r s) i) = pp_link (pages s i)"
  "pp_ref (pages (set_ref p r s) i) = (if i = p then r else pp_ref (pages s i))"
  by (auto simp: set_ref_def)

lemma set_ref_inv:
  assumes "pages_inv s" and "p \<notin> set (free_pages s)"
  shows "pages_inv (set_ref p r s)" and "free_pages (set_ref p r s) = free_pages s"
proof -
  have "plink (set_ref p r s) = plink s"
    by (simp add: plink_def fun_eq_iff)
  then show "pages_inv (set_ref p r s)" and "free_pages (set_ref p r s) = free_pages s"
    using assms by (auto simp: pages_inv_def free_pages_def)
qed

text \<open>
  A page with more than one reference only loses one; the last reference frees the page.
\<close>

lemma page_decref_ok:
  assumes i: "pages_inv s" and p: "p < unat (npages s)" "p \<notin> set (free_pages s)"
    and r: "pp_ref (pages s p) \<noteq> 0"
  obtains t where "page_decref p s = Ret () t" and "pages_inv t"
    and "free_pages t = (if pp_ref (pages s p) = 1 then p # free_pages s else free_pages s)"
    and "\<And>q. pp_ref (pages t q) = (if q = p then pp_ref (pages s p) - 1 else pp_ref (pages s q))"
    and "\<exists>f pg. t = s\<lparr>pages := pg, page_free_list := f\<rparr>"
proof -
  let ?s = "set_ref p (pp_ref (pages s p) - 1) s"
  have i': "pages_inv ?s" "free_pages ?s = free_pages s"
    using set_ref_inv [OF i p(2)] by auto
  show thesis
  proof (cases "pp_ref (pages s p) = 1")
    case True
    then have "page_owned p ?s"
      using p i' by (simp add: page_owned_def)
    then obtain t where t: "page_free p ?s = Ret () t" "pages_inv t" "free_pages t = p # free_pages ?s"
      "t = ?s\<lparr>pages := (pages ?s)(p := (pages ?s p)\<lparr>pp_link := page_free_list ?s\<rparr>),
               page_free_list := Some p\<rparr>"
      using page_free_ok [OF i'(1)] by blast
    have "page_decref p s = Ret () t"
      using True t(1) by (simp add: page_decref_def)
    moreover have "pp_ref (pages t q) = (if q = p then pp_ref (pages s p) - 1 else pp_ref (pages s q))" for q
      using t(4) by simp
    moreover have "\<exists>f pg. t = s\<lparr>pages := pg, page_free_list := f\<rparr>"
      using t(4) by (auto simp: set_ref_def)
    ultimately show ?thesis
      using that t(2,3) i' True by simp
  next
    case False
    then have "pp_ref (pages s p) - 1 \<noteq> 0" by simp
    then have "page_decref p s = Ret () ?s"
      by (simp add: page_decref_def)
    moreover have "\<exists>f pg. ?s = s\<lparr>pages := pg, page_free_list := f\<rparr>"
      by (rule exI [of _ "page_free_list s"], rule exI [of _ "pages ?s"]) (simp add: set_ref_def)
    ultimately show ?thesis
      using that i' False by simp
  qed
qed

section \<open>The allocator contract\<close>

text \<open>A kernel result seen as success or failure, forgetting how it failed.\<close>

primrec ok :: "'a kres \<Rightarrow> ('a \<times> kstate) option" where
  "ok (Ret x s) = Some (x, s)"
| "ok (Exit e s) = None"
| "ok (Panic m) = None"

interpretation pages: allocator "\<lambda>s. ok (page_alloc fl s)" "\<lambda>p s. map_option snd (ok (page_free p s))"
  "\<lambda>s. set (free_pages s)" page_owned pages_inv
proof unfold_locales
  fix s assume i: "pages_inv s"
  show "finite (set (free_pages s))" by simp
  {
    assume "set (free_pages s) = {}"
    then show "\<exists>s'. ok (page_alloc fl s) = Some (None, s') \<and> set (free_pages s') = {} \<and> pages_inv s'
        \<and> (\<forall>q. page_owned q s \<longrightarrow> page_owned q s')"
      using page_alloc_empty [OF i] i by simp
  }
  {
    assume "set (free_pages s) \<noteq> {}"
    then obtain p ps where f: "free_pages s = p # ps" by (cases "free_pages s") auto
    obtain t where t: "page_alloc fl s = Ret (Some p) t" "pages_inv t" "free_pages t = ps"
      "t = s\<lparr>page_free_list := pp_link (pages s p),
               pages := (pages s)(p := (pages s p)\<lparr>pp_link := None\<rparr>),
               pmem := (if fl AND ALLOC_ZERO \<noteq> 0 then (pmem s)(p := (\<lambda>_. 0)) else pmem s)\<rparr>"
      using page_alloc_Cons [OF i f] by blast
    note D = pages_invD [OF i]
    have "p \<notin> set ps" using D(6) f by simp
    then have "page_owned p t" and "\<forall>q. page_owned q s \<longrightarrow> page_owned q t"
      using t(3,4) D(3,4) [of p] f by (auto simp: page_owned_def)
    then show "\<exists>r s'. ok (page_alloc fl s) = Some (Some r, s') \<and> r \<in> set (free_pages s)
        \<and> set (free_pages s') = set (free_pages s) - {r} \<and> pages_inv s' \<and> page_owned r s'
        \<and> (\<forall>q. page_owned q s \<longrightarrow> page_owned q s')"
      using t f \<open>p \<notin> set ps\<close> by (intro exI [of _ p] exI [of _ t]) auto
  }
  fix p assume o: "page_owned p s"
  then show "p \<notin> set (free_pages s)" by (simp add: page_owned_def)
  obtain t where t: "page_free p s = Ret () t" "pages_inv t" "free_pages t = p # free_pages s"
    "t = s\<lparr>pages := (pages s)(p := (pages s p)\<lparr>pp_link := page_free_list s\<rparr>),
           page_free_list := Some p\<rparr>"
    using page_free_ok [OF i o] by blast
  have "\<forall>q. q \<noteq> p \<longrightarrow> page_owned q s \<longrightarrow> page_owned q t"
    using t(3,4) by (auto simp: page_owned_def)
  then show "\<exists>s'. map_option snd (ok (page_free p s)) = Some s'
      \<and> set (free_pages s') = insert p (set (free_pages s)) \<and> pages_inv s'
      \<and> (\<forall>q. q \<noteq> p \<longrightarrow> page_owned q s \<longrightarrow> page_owned q s')"
    using t by auto
qed

end
