(* ===== verification/Pmap_Tables.thy ===== *)
theory Pmap_Tables
  imports Pmap_Alloc
begin

text \<open>
  The structure of two-level page tables in physical memory, independent of the code that
  edits it: which page tables and which user mappings a set of page directories has, when
  this structure is well formed, and how it changes under the three edits the kernel makes
  (store a page-table entry, install a page table, change the flags of a directory entry).
\<close>

section \<open>Entries\<close>

definition present :: "u32 \<Rightarrow> bool" where "present e \<longleftrightarrow> e AND PTE_P \<noteq> 0"
definition pg :: "u32 \<Rightarrow> nat" where "pg e = unat (PGNUM e)"

text \<open>Directory entries below \<open>UPDX\<close> map user addresses, those below UTOP.\<close>

definition UPDX :: nat where "UPDX = unat (PDX UTOP)"

lemma UPDX_eq: "UPDX = 955"
  by (simp add: UPDX_def unat_PDX jos_consts)

lemma PDX_below_UTOP: "va < UTOP \<Longrightarrow> unat (PDX va) < UPDX"
  by (simp add: UPDX_eq unat_PDX jos_consts word_less_nat_alt)

definition flags_only :: "u32 \<Rightarrow> bool" where "flags_only perm \<longleftrightarrow> drop_bit 12 perm = 0"

lemma present_or: "present (a OR b) \<longleftrightarrow> present a \<or> present b"
proof -
  have "x AND 1 \<noteq> 0 \<longleftrightarrow> bit x 0" for x :: u32
    by (simp add: and_one_eq odd_iff_mod_2_eq_one bit_0)
  then show ?thesis by (simp add: present_def PTE_P_def bit_or_iff)
qed

lemma present_PTE_P [simp]: "present PTE_P" and not_present_0 [simp]: "\<not> present 0"
  by (simp_all add: present_def PTE_P_def)

lemma pg_0 [simp]: "pg 0 = 0"
  by (simp add: pg_def PGNUM_def)

lemma pg_or: "flags_only f \<Longrightarrow> pg (a OR f) = pg a"
  by (simp add: pg_def PGNUM_def flags_only_def)

lemma flags_only_or: "flags_only a \<Longrightarrow> flags_only b \<Longrightarrow> flags_only (a OR b)"
  by (simp add: flags_only_def)

lemma flags_only_consts [simp]: "flags_only PTE_P" "flags_only PTE_U" "flags_only PTE_W" "flags_only 0"
  by (simp_all add: flags_only_def jos_consts)

lemma pg_page2pa: "p < 1048576 \<Longrightarrow> pg (page2pa p) = p"
  by (simp add: pg_def PGNUM_page2pa)

lemma kva_of_index: "kva_of d 0 + 4 * w = kva_of d (unat w)"
  by (simp add: kva_of_def)

lemma pg_bound: "pg e < 1048576"
  using u32_less [of e] by (simp add: pg_def unat_PGNUM less_mult_imp_div_less)

lemma KADDR_PTE_ADDR:
  assumes "pg e < unat (npages s)"
  shows "KADDR (PTE_ADDR e) s = Ret (kva_of (pg e) 0) s"
proof -
  have "unat (PTE_ADDR e) = pg e * 4096"
    by (simp add: unat_PTE_ADDR pg_def unat_PGNUM)
  then have "PTE_ADDR e = of_nat (pg e * 4096)"
    by (metis of_nat_unat ucast_id)
  then have "PTE_ADDR e + KERNBASE = kva_of (pg e) 0"
    by (simp add: kva_of_def)
  with assms show ?thesis
    by (simp add: KADDR_def PGNUM_PTE_ADDR word_le_nat_alt pg_def)
qed

lemma pa2page_PTE_ADDR:
  "pg e < unat (npages s) \<Longrightarrow> pa2page (PTE_ADDR e) s = Ret (pg e) s"
  by (simp add: pa2page_def PGNUM_PTE_ADDR word_le_nat_alt pg_def)

section \<open>User page tables and user mappings\<close>

type_synonym pmem_t = "nat \<Rightarrow> nat \<Rightarrow> u32"

text \<open>The directory entries of user page tables that are present.\<close>

definition upts :: "pmem_t \<Rightarrow> nat set \<Rightarrow> (nat \<times> nat) set" where
  "upts m D = {(d, i). d \<in> D \<and> i < UPDX \<and> present (m d i)}"

text \<open>The physical pages that hold user page tables.\<close>

definition ptps :: "pmem_t \<Rightarrow> nat set \<Rightarrow> nat set" where
  "ptps m D = (\<lambda>(d, i). pg (m d i)) ` upts m D"

text \<open>The user mappings: directory page, directory index and table index.\<close>

definition umaps :: "pmem_t \<Rightarrow> nat set \<Rightarrow> (nat \<times> nat \<times> nat) set" where
  "umaps m D = {(d, i, j). (d, i) \<in> upts m D \<and> j < 1024 \<and> present (m (pg (m d i)) j)}"

definition utgt :: "pmem_t \<Rightarrow> nat \<times> nat \<times> nat \<Rightarrow> nat" where
  "utgt m x = (case x of (d, i, j) \<Rightarrow> pg (m (pg (m d i)) j))"

text \<open>The number of user mappings of a physical page.\<close>

definition urefs :: "pmem_t \<Rightarrow> nat set \<Rightarrow> nat \<Rightarrow> nat" where
  "urefs m D q = card {x \<in> umaps m D. utgt m x = q}"

text \<open>The page-table entry an address space has for a user address, if it is mapped.\<close>

definition uvm :: "pmem_t \<Rightarrow> nat \<Rightarrow> nat \<Rightarrow> nat \<Rightarrow> u32 option" where
  "uvm m d i j =
     (if present (m d i) \<and> present (m (pg (m d i)) j) then Some (m (pg (m d i)) j) else None)"

text \<open>
  The structure is well formed when no page table is shared, page directories, page tables,
  mapped pages and free pages are four disjoint kinds of pages, and all of them exist.
\<close>

definition tables_wf :: "nat \<Rightarrow> pmem_t \<Rightarrow> nat set \<Rightarrow> nat set \<Rightarrow> bool" where
  "tables_wf n m D F \<longleftrightarrow>
     finite D \<and> D \<subseteq> {..<n} - F
     \<and> inj_on (\<lambda>(d, i). pg (m d i)) (upts m D)
     \<and> ptps m D \<subseteq> {..<n} - F - D
     \<and> utgt m ` umaps m D \<subseteq> {..<n} - F - D - ptps m D"

lemma upts_iff: "(d, i) \<in> upts m D \<longleftrightarrow> d \<in> D \<and> i < UPDX \<and> present (m d i)"
  by (simp add: upts_def)

lemma umaps_iff:
  "(d, i, j) \<in> umaps m D \<longleftrightarrow> (d, i) \<in> upts m D \<and> j < 1024 \<and> present (m (pg (m d i)) j)"
  by (auto simp: umaps_def)

lemma utgt_eq [simp]: "utgt m (d, i, j) = pg (m (pg (m d i)) j)"
  by (simp add: utgt_def)

lemma ptpsI: "(d, i) \<in> upts m D \<Longrightarrow> pg (m d i) \<in> ptps m D"
  by (force simp: ptps_def)

lemma finite_upts: "finite D \<Longrightarrow> finite (upts m D)"
  by (rule finite_subset [of _ "D \<times> {..<UPDX}"]) (auto simp: upts_def)

lemma finite_umaps: "finite D \<Longrightarrow> finite (umaps m D)"
  by (rule finite_subset [of _ "D \<times> {..<UPDX} \<times> {..<1024}"]) (auto simp: umaps_iff upts_iff)

lemma tables_wfD:
  assumes "tables_wf n m D F"
  shows "finite D" and "d \<in> D \<Longrightarrow> d < n" and "d \<in> D \<Longrightarrow> d \<notin> F"
    and "(d, i) \<in> upts m D \<Longrightarrow> (d', i') \<in> upts m D \<Longrightarrow> pg (m d i) = pg (m d' i') \<Longrightarrow> d = d' \<and> i = i'"
    and "p \<in> ptps m D \<Longrightarrow> p < n \<and> p \<notin> F \<and> p \<notin> D"
    and "x \<in> umaps m D \<Longrightarrow> utgt m x < n \<and> utgt m x \<notin> F \<and> utgt m x \<notin> D \<and> utgt m x \<notin> ptps m D"
  using assms inj_onD [of "\<lambda>(d, i). pg (m d i)" "upts m D" "(d, i)" "(d', i')"]
  by (auto simp: tables_wf_def)

section \<open>Storing a page-table entry\<close>

lemma set_pte_structure:
  assumes wf: "tables_wf n m D F" and di: "(d, i) \<in> upts m D"
    and m': "m' = set_word m (pg (m d i)) j v"
  shows "upts m' D = upts m D" and "ptps m' D = ptps m D"
    and "\<And>d' i'. d' \<in> D \<Longrightarrow> m' d' i' = m d' i'"
    and "\<And>d' i' j'. (d', i') \<in> upts m D \<Longrightarrow>
           m' (pg (m d' i')) j' = (if (d', i', j') = (d, i, j) then v else m (pg (m d' i')) j')"
proof -
  have t: "pg (m d i) \<notin> D"
    using tables_wfD(5) [OF wf] ptpsI [OF di] by blast
  show same: "m' d' i' = m d' i'" if "d' \<in> D" for d' i'
    using that t by (auto simp: m' set_word_apply)
  show u: "upts m' D = upts m D"
    using same by (auto simp: upts_def)
  have "(\<lambda>(d, i). pg (m' d i)) ` upts m D = (\<lambda>(d, i). pg (m d i)) ` upts m D"
    using same by (intro image_cong) (auto simp: upts_iff)
  then show "ptps m' D = ptps m D"
    by (simp add: ptps_def u)
  show "m' (pg (m d' i')) j' = (if (d', i', j') = (d, i, j) then v else m (pg (m d' i')) j')"
    if "(d', i') \<in> upts m D" for d' i' j'
    using tables_wfD(4) [OF wf that di] by (auto simp: m' set_word_apply)
qed

lemma set_pte_maps:
  assumes wf: "tables_wf n m D F" and di: "(d, i) \<in> upts m D" and j: "j < 1024"
    and m': "m' = set_word m (pg (m d i)) j v"
  shows "umaps m' D = umaps m D - {(d, i, j)} \<union> (if present v then {(d, i, j)} else {})"
    and "\<And>x. x \<in> umaps m' D \<Longrightarrow> utgt m' x = (if x = (d, i, j) then pg v else utgt m x)"
proof -
  note S = set_pte_structure [OF wf di m']
  have mm: "m' (pg (m' d' i')) j' = (if (d', i', j') = (d, i, j) then v else m (pg (m d' i')) j')"
    if "(d', i') \<in> upts m D" for d' i' j'
    using S(4) [OF that] S(3) [of d' i'] that by (simp add: upts_iff)
  have E: "(d', i', j') \<in> umaps m' D \<longleftrightarrow>
      (d', i') \<in> upts m D \<and> j' < 1024
        \<and> present (if (d', i', j') = (d, i, j) then v else m (pg (m d' i')) j')" for d' i' j'
    using mm by (cases "(d', i') \<in> upts m D") (auto simp: umaps_iff S(1))
  show "umaps m' D = umaps m D - {(d, i, j)} \<union> (if present v then {(d, i, j)} else {})"
  proof (rule set_eqI)
    fix x :: "nat \<times> nat \<times> nat"
    obtain d' i' j' where x: "x = (d', i', j')" by (cases x)
    show "x \<in> umaps m' D \<longleftrightarrow> x \<in> umaps m D - {(d, i, j)} \<union> (if present v then {(d, i, j)} else {})"
      unfolding x E using di j by (auto simp: umaps_iff)
  qed
  show "utgt m' x = (if x = (d, i, j) then pg v else utgt m x)" if "x \<in> umaps m' D" for x
  proof -
    obtain d' i' j' where x: "x = (d', i', j')" by (cases x)
    have "(d', i') \<in> upts m D"
      using that by (simp add: x umaps_iff S(1))
    with mm [OF this] show ?thesis by (simp add: x)
  qed
qed

lemma set_pte_wf:
  assumes wf: "tables_wf n m D F" and di: "(d, i) \<in> upts m D" and j: "j < 1024"
    and m': "m' = set_word m (pg (m d i)) j v"
    and F: "F' \<subseteq> F \<union> A" "A \<inter> (D \<union> ptps m D) = {}"
    and A: "\<And>x. x \<in> umaps m D \<Longrightarrow> x \<noteq> (d, i, j) \<Longrightarrow> utgt m x \<notin> A"
    and v: "present v \<Longrightarrow> pg v < n \<and> pg v \<notin> F \<union> A \<and> pg v \<notin> D \<and> pg v \<notin> ptps m D"
  shows "tables_wf n m' D F'"
proof -
  note S = set_pte_structure [OF wf di m']
  note M = set_pte_maps [OF wf di j m']
  have inj: "inj_on (\<lambda>(d, i). pg (m' d i)) (upts m' D)"
  proof -
    have "inj_on (\<lambda>(d, i). pg (m d i)) (upts m D)"
      using wf by (simp add: tables_wf_def)
    moreover have "inj_on (\<lambda>(d, i). pg (m' d i)) (upts m D)
        \<longleftrightarrow> inj_on (\<lambda>(d, i). pg (m d i)) (upts m D)"
      using S(3) by (intro inj_on_cong) (auto simp: upts_iff)
    ultimately show ?thesis by (simp add: S(1))
  qed
  have "utgt m' x < n \<and> utgt m' x \<notin> F' \<and> utgt m' x \<notin> D \<and> utgt m' x \<notin> ptps m D"
    if x: "x \<in> umaps m' D" for x
  proof (cases "x = (d, i, j)")
    case True
    then have "present v" using x M(1) by (auto split: if_splits)
    then show ?thesis using M(2) [OF x] v F True by auto
  next
    case False
    then have "x \<in> umaps m D" using x M(1) by (auto split: if_splits)
    then show ?thesis
      using M(2) [OF x] False tables_wfD(6) [OF wf, of x] A [of x] F by auto
  qed
  then have "utgt m' ` umaps m' D \<subseteq> {..<n} - F' - D - ptps m' D"
    by (auto simp: S(2))
  moreover have "D \<subseteq> {..<n} - F'" "ptps m' D \<subseteq> {..<n} - F' - D" "finite D"
    using tables_wfD [OF wf] F by (auto simp: S(2))
  ultimately show ?thesis using inj by (simp add: tables_wf_def)
qed

lemma set_pte_refs:
  assumes wf: "tables_wf n m D F" and di: "(d, i) \<in> upts m D" and j: "j < 1024"
    and m': "m' = set_word m (pg (m d i)) j v"
  shows "urefs m' D q + (if (d, i, j) \<in> umaps m D \<and> utgt m (d, i, j) = q then 1 else 0)
       = urefs m D q + (if present v \<and> pg v = q then 1 else 0)"
proof -
  note M = set_pte_maps [OF wf di j m']
  let ?x = "(d, i, j)"
  let ?B = "{x \<in> umaps m D - {?x}. utgt m x = q}"
  have fin: "finite (umaps m D)"
    using finite_umaps tables_wfD(1) [OF wf] by blast
  have "{x \<in> umaps m' D. utgt m' x = q} = ?B \<union> (if present v \<and> pg v = q then {?x} else {})"
    using M by (auto split: if_splits)
  then have new: "urefs m' D q = card ?B + (if present v \<and> pg v = q then 1 else 0)"
    using fin by (simp add: urefs_def card_insert_if)
  have "{x \<in> umaps m D. utgt m x = q} = ?B \<union> (if ?x \<in> umaps m D \<and> utgt m ?x = q then {?x} else {})"
    by auto
  then have "urefs m D q = card ?B + (if ?x \<in> umaps m D \<and> utgt m ?x = q then 1 else 0)"
    using fin unfolding urefs_def by (simp add: card_insert_if del: utgt_eq)
  with new show ?thesis by simp
qed

lemma set_pte_uvm:
  assumes wf: "tables_wf n m D F" and di: "(d, i) \<in> upts m D"
    and m': "m' = set_word m (pg (m d i)) j v"
    and d': "d' \<in> D" "i' < UPDX"
  shows "uvm m' d' i' j' =
    (if (d', i', j') = (d, i, j) then (if present v then Some v else None) else uvm m d' i' j')"
proof -
  note S = set_pte_structure [OF wf di m']
  have e: "m' d' i' = m d' i'" by (rule S(3) [OF d'(1)])
  show ?thesis
  proof (cases "present (m d' i')")
    case True
    then have "(d', i') \<in> upts m D" using d' by (simp add: upts_iff)
    from S(4) [OF this, of j'] show ?thesis
      using True unfolding uvm_def e by (auto split: if_splits)
  next
    case False
    then have "(d', i') \<noteq> (d, i)" using di by (auto simp: upts_iff)
    then show ?thesis using False by (auto simp: uvm_def e)
  qed
qed

section \<open>Memory that holds no table\<close>

text \<open>Pages that are neither directories nor tables do not matter.\<close>

lemma tables_cong:
  assumes "\<And>p i. p \<in> D \<union> ptps m D \<Longrightarrow> m' p i = m p i"
  shows "upts m' D = upts m D" and "ptps m' D = ptps m D" and "umaps m' D = umaps m D"
    and "\<And>x. x \<in> umaps m D \<Longrightarrow> utgt m' x = utgt m x" and "urefs m' D q = urefs m D q"
    and "tables_wf n m' D F = tables_wf n m D F"
    and "d \<in> D \<Longrightarrow> i < UPDX \<Longrightarrow> uvm m' d i j = uvm m d i j"
proof -
  have dir: "m' d i = m d i" if "d \<in> D" for d i using assms that by simp
  show u: "upts m' D = upts m D" using dir by (auto simp: upts_def)
  have tab: "m' (pg (m d i)) j = m (pg (m d i)) j" if "(d, i) \<in> upts m D" for d i j
    using assms ptpsI [OF that] by simp
  have pgs: "pg (m' d i) = pg (m d i)" if "(d, i) \<in> upts m D" for d i
    using that dir by (simp add: upts_iff)
  have im: "(\<lambda>(d, i). pg (m' d i)) ` upts m D = (\<lambda>(d, i). pg (m d i)) ` upts m D"
    by (intro image_cong) (auto simp: pgs)
  then show p: "ptps m' D = ptps m D" by (simp add: ptps_def u)
  show um: "umaps m' D = umaps m D"
    by (auto simp: umaps_iff u pgs tab)
  show t: "utgt m' x = utgt m x" if "x \<in> umaps m D" for x
    using that by (cases x) (auto simp: umaps_iff pgs tab)
  have "{x \<in> umaps m D. utgt m' x = q} = {x \<in> umaps m D. utgt m x = q}"
    using t by auto
  then show "urefs m' D q = urefs m D q" by (simp add: urefs_def um)
  have "inj_on (\<lambda>(d, i). pg (m' d i)) (upts m D) = inj_on (\<lambda>(d, i). pg (m d i)) (upts m D)"
    by (intro inj_on_cong) (auto simp: pgs)
  moreover have "utgt m' ` umaps m D = utgt m ` umaps m D"
    using t by (intro image_cong) auto
  ultimately show "tables_wf n m' D F = tables_wf n m D F"
    by (simp add: tables_wf_def u p um)
  show "uvm m' d i j = uvm m d i j" if "d \<in> D" "i < UPDX" for d i j
    using that dir tab [of d i j] by (auto simp: uvm_def upts_iff)
qed

section \<open>Installing a page table\<close>

lemma install_table:
  assumes wf: "tables_wf n m D F" and d: "d \<in> D" "i < UPDX" "\<not> present (m d i)"
    and p: "p < n" "p \<notin> D" "p \<notin> ptps m D" "p \<notin> utgt m ` umaps m D" "p \<notin> F'" "F' \<subseteq> F"
    and v: "present v" "pg v = p"
    and m': "m' = set_word (m(p := (\<lambda>_. 0))) d i v"
  shows "upts m' D = insert (d, i) (upts m D)" and "ptps m' D = insert p (ptps m D)"
    and "umaps m' D = umaps m D" and "\<And>x. x \<in> umaps m D \<Longrightarrow> utgt m' x = utgt m x"
    and "urefs m' D q = urefs m D q" and "tables_wf n m' D F'"
    and "\<And>d' i' j'. d' \<in> D \<Longrightarrow> i' < UPDX \<Longrightarrow> uvm m' d' i' j' = uvm m d' i' j'"
proof -
  have e: "m' d' i' = (if (d', i') = (d, i) then v else m d' i')" if "d' \<in> D" for d' i'
    using that p(2) by (auto simp: m' set_word_apply)
  show u: "upts m' D = insert (d, i) (upts m D)"
    using e d v by (auto simp: upts_def split: if_splits)
  have notin: "(d, i) \<notin> upts m D" using d by (simp add: upts_iff)
  have pgs: "pg (m' d' i') = pg (m d' i')" if "(d', i') \<in> upts m D" for d' i'
    using that e [of d' i'] notin by (auto simp: upts_iff)
  have pgd: "pg (m' d i) = p" using e [of d i] d v by simp
  have "(\<lambda>(d, i). pg (m' d i)) ` upts m D = (\<lambda>(d, i). pg (m d i)) ` upts m D"
    by (intro image_cong) (auto simp: pgs)
  then show pt: "ptps m' D = insert p (ptps m D)"
    by (simp add: ptps_def u pgd)
  have tab: "m' (pg (m d' i')) j' = m (pg (m d' i')) j'" if "(d', i') \<in> upts m D" for d' i' j'
  proof -
    have "pg (m d' i') \<in> ptps m D" using that by (rule ptpsI)
    then have "pg (m d' i') \<noteq> p" "pg (m d' i') \<noteq> d"
      using p(3) tables_wfD(5) [OF wf] d(1) by auto
    then show ?thesis by (simp add: m' set_word_apply)
  qed
  have "m' p j' = 0" for j'
    using p(2) d(1) by (auto simp: m' set_word_apply)
  then show um: "umaps m' D = umaps m D"
    using notin by (auto simp: umaps_iff u pgs tab pgd)
  show t: "utgt m' x = utgt m x" if "x \<in> umaps m D" for x
    using that by (cases x) (auto simp: umaps_iff pgs tab)
  have "{x \<in> umaps m D. utgt m' x = q} = {x \<in> umaps m D. utgt m x = q}"
    using t by auto
  then show "urefs m' D q = urefs m D q" by (simp add: urefs_def um)
  have "inj_on (\<lambda>(d, i). pg (m' d i)) (upts m D) \<longleftrightarrow> inj_on (\<lambda>(d, i). pg (m d i)) (upts m D)"
    by (intro inj_on_cong) (auto simp: pgs)
  moreover have "p \<notin> (\<lambda>(d, i). pg (m' d i)) ` (upts m D - {(d, i)})"
    using p(3) pgs ptpsI [of _ _ m D] by force
  ultimately have inj: "inj_on (\<lambda>(d, i). pg (m' d i)) (upts m' D)"
    using wf pgd by (simp add: u tables_wf_def)
  have "utgt m' ` umaps m' D = utgt m ` umaps m D"
    unfolding um using t by (intro image_cong) auto
  then show "tables_wf n m' D F'"
    using wf inj p unfolding tables_wf_def pt by auto
  show "uvm m' d' i' j' = uvm m d' i' j'" if "d' \<in> D" "i' < UPDX" for d' i' j'
  proof (cases "(d', i') = (d, i)")
    case True
    then show ?thesis
      using d \<open>m' p j' = 0\<close> pgd by (simp add: uvm_def)
  next
    case False
    then show ?thesis
      using that e [of d' i'] tab [of d' i' j'] by (auto simp: uvm_def upts_iff)
  qed
qed

section \<open>Changing the flags of a directory entry\<close>

lemma set_pde_flags:
  assumes wf: "tables_wf n m D F" and di: "(d, i) \<in> upts m D"
    and v: "present v" "pg v = pg (m d i)" and m': "m' = set_word m d i v"
  shows "upts m' D = upts m D" and "ptps m' D = ptps m D" and "umaps m' D = umaps m D"
    and "\<And>x. x \<in> umaps m D \<Longrightarrow> utgt m' x = utgt m x" and "urefs m' D q = urefs m D q"
    and "tables_wf n m' D F"
    and "\<And>d' i' j'. d' \<in> D \<Longrightarrow> i' < UPDX \<Longrightarrow> uvm m' d' i' j' = uvm m d' i' j'"
proof -
  have e: "present (m' d' i') \<longleftrightarrow> present (m d' i')" "pg (m' d' i') = pg (m d' i')" for d' i'
    using di v by (auto simp: m' set_word_apply upts_iff)
  show u: "upts m' D = upts m D" by (simp add: upts_def e)
  show pt: "ptps m' D = ptps m D" by (simp add: ptps_def u e)
  have tab: "m' (pg (m d' i')) j' = m (pg (m d' i')) j'" if "(d', i') \<in> upts m D" for d' i' j'
  proof -
    have "pg (m d' i') \<noteq> d"
      using ptpsI [OF that] tables_wfD(5) [OF wf] di by (auto simp: upts_iff)
    then show ?thesis by (simp add: m' set_word_apply)
  qed
  show um: "umaps m' D = umaps m D" by (auto simp: umaps_iff u e tab)
  show t: "utgt m' x = utgt m x" if "x \<in> umaps m D" for x
    using that by (cases x) (auto simp: umaps_iff e tab)
  have "{x \<in> umaps m D. utgt m' x = q} = {x \<in> umaps m D. utgt m x = q}"
    using t by auto
  then show "urefs m' D q = urefs m D q" by (simp add: urefs_def um)
  have "utgt m' ` umaps m' D = utgt m ` umaps m D"
    unfolding um using t by (intro image_cong) auto
  then show "tables_wf n m' D F"
    using wf by (simp add: tables_wf_def u pt e)
  show "uvm m' d' i' j' = uvm m d' i' j'" if "d' \<in> D" "i' < UPDX" for d' i' j'
    using that tab [of d' i' j'] by (auto simp: uvm_def e upts_iff)
qed

end
