(* ===== verification/Pmap_Inv.thy ===== *)
theory Pmap_Inv
  imports Pmap_Tables
begin

text \<open>
  The reference-counting invariant of \<^verbatim>\<open>kern/pmap.c\<close> and what \<open>pgdir_walk\<close>, \<open>page_lookup\<close>,
  \<open>page_remove\<close> and \<open>page_insert\<close> do under it: the functional effect on the mapped address
  spaces and the preservation of the invariant, on every branch.
\<close>

section \<open>The invariant\<close>

text \<open>
  \<open>D\<close> is the set of page directories in use, \<open>R\<close> the pages reserved at boot (never on the
  free list and never mapped by users), and \<open>X q\<close> the number of references to page \<open>q\<close> that
  a kernel function holds in addition to the mappings. Every page of the first two kinds has
  reference count 1, and every other page has as many references as it has mappings.
\<close>

definition vm_inv :: "nat set \<Rightarrow> nat set \<Rightarrow> (nat \<Rightarrow> nat) \<Rightarrow> kstate \<Rightarrow> bool" where
  "vm_inv R D X s \<longleftrightarrow>
     pages_inv s
     \<and> tables_wf (unat (npages s)) (pmem s) D (set (free_pages s))
     \<and> R \<inter> (set (free_pages s) \<union> D \<union> ptps (pmem s) D \<union> utgt (pmem s) ` umaps (pmem s) D) = {}
     \<and> (\<forall>q \<in> D \<union> ptps (pmem s) D. pp_ref (pages s q) = 1)
     \<and> (\<forall>q < unat (npages s). q \<notin> R \<union> D \<union> ptps (pmem s) D \<longrightarrow>
           unat (pp_ref (pages s q)) = urefs (pmem s) D q + X q)"

text \<open>The fields of the state that the page-table functions leave alone.\<close>

definition vm_frame :: "kstate \<Rightarrow> kstate \<Rightarrow> bool" where
  "vm_frame s t \<longleftrightarrow>
     (\<exists>p f m c. t = s\<lparr>pages := p, page_free_list := f, pmem := m, tlb := c\<rparr>)"

lemma vm_frameI: "t = s\<lparr>pages := p, page_free_list := f, pmem := m, tlb := c\<rparr> \<Longrightarrow> vm_frame s t"
  unfolding vm_frame_def by blast

lemma vm_frame_refl [simp]: "vm_frame s s"
  by (rule vm_frameI [where p = "pages s" and f = "page_free_list s" and m = "pmem s" and c = "tlb s"])
     simp

lemma vm_frame_trans: "vm_frame s t \<Longrightarrow> vm_frame t u \<Longrightarrow> vm_frame s u"
  by (fastforce simp: vm_frame_def)

lemma vm_frame_fields:
  assumes "vm_frame s t"
  shows "npages t = npages s" "envs t = envs s" "cpus t = cpus s" "cpunum t = cpunum s"
    "curenv t = curenv s" "kern_pgdir t = kern_pgdir s" "cr3 t = cr3 s"
    "env_free_list t = env_free_list s" "mmio_base t = mmio_base s"
    "user_mem_check_addr t = user_mem_check_addr s" "lock_cpu t = lock_cpu s"
    "ticks t = ticks s" "npages_basemem t = npages_basemem s" "nextfree t = nextfree s"
  using assms by (auto simp: vm_frame_def curenv_def)

lemma vm_invD:
  assumes "vm_inv R D X s"
  shows "pages_inv s" and "tables_wf (unat (npages s)) (pmem s) D (set (free_pages s))"
    and "R \<inter> (set (free_pages s) \<union> D \<union> ptps (pmem s) D \<union> utgt (pmem s) ` umaps (pmem s) D) = {}"
    and "q \<in> D \<union> ptps (pmem s) D \<Longrightarrow> pp_ref (pages s q) = 1"
    and "q < unat (npages s) \<Longrightarrow> q \<notin> R \<union> D \<union> ptps (pmem s) D \<Longrightarrow>
           unat (pp_ref (pages s q)) = urefs (pmem s) D q + X q"
    and "unat (npages s) \<le> 65536"
  using assms pages_invD(1) [of s] by (auto simp: vm_inv_def)

text \<open>A mapped page is an ordinary page, and it is referenced.\<close>

lemma mapped_page:
  assumes inv: "vm_inv R D X s" and x: "x \<in> umaps (pmem s) D" and q: "utgt (pmem s) x = q"
  shows "q < unat (npages s)" "q \<notin> set (free_pages s)" "q \<notin> D" "q \<notin> ptps (pmem s) D" "q \<notin> R"
    and "unat (pp_ref (pages s q)) = urefs (pmem s) D q + X q" and "pp_ref (pages s q) \<noteq> 0"
proof -
  note D = vm_invD [OF inv]
  show k: "q < unat (npages s)" "q \<notin> set (free_pages s)" "q \<notin> D" "q \<notin> ptps (pmem s) D" "q \<notin> R"
    using tables_wfD(6) [OF D(2) x] D(3) x q by (auto simp del: utgt_eq)
  show r: "unat (pp_ref (pages s q)) = urefs (pmem s) D q + X q"
    using D(5) [OF k(1)] k by simp
  have "0 < urefs (pmem s) D q"
    unfolding urefs_def using x q finite_umaps [OF tables_wfD(1) [OF D(2)]]
    by (cases x) (auto simp: card_gt_0_iff)
  with r show "pp_ref (pages s q) \<noteq> 0" by auto
qed

section \<open>Walking the tables\<close>

lemma walk_present:
  assumes inv: "vm_inv R D X s" and d: "d \<in> D" and va: "va < UTOP"
    and p: "present (pmem s d (unat (PDX va)))"
  shows "pgdir_walk (kva_of d 0) va c s =
    Ret (Some (kva_of (pg (pmem s d (unat (PDX va)))) (unat (PTX va)))) s"
proof -
  let ?i = "unat (PDX va)"
  note D = vm_invD [OF inv]
  have b: "d < 1048576" using tables_wfD(2) [OF D(2) d] D(6) by simp
  have e: "kload s (kva_of d ?i) = pmem s d ?i"
    using b unat_PDX_bound by (simp add: kload_kva_of)
  have "(d, ?i) \<in> upts (pmem s) D"
    using d va p by (simp add: upts_iff PDX_below_UTOP)
  then have "pg (pmem s d ?i) < unat (npages s)"
    using tables_wfD(5) [OF D(2)] ptpsI by blast
  then show ?thesis
    using p by (simp add: pgdir_walk_def Let_def e KADDR_PTE_ADDR kva_of_index present_def)
qed

lemma walk_absent:
  assumes inv: "vm_inv R D X s" and d: "d \<in> D" and va: "va < UTOP"
    and p: "\<not> present (pmem s d (unat (PDX va)))"
  shows "pgdir_walk (kva_of d 0) va False s = Ret None s"
proof -
  note D = vm_invD [OF inv]
  have b: "d < 1048576" using tables_wfD(2) [OF D(2) d] D(6) by simp
  have "kload s (kva_of d (unat (PDX va))) = pmem s d (unat (PDX va))"
    using b unat_PDX_bound by (simp add: kload_kva_of)
  then show ?thesis
    using p by (simp add: pgdir_walk_def Let_def present_def kva_of_index)
qed

text \<open>
  \<open>pgdir_walk\<close> with \<open>create\<close> set: it fails exactly when a table is missing and no page is
  free, and otherwise makes sure the table exists, without changing any mapping.
\<close>

definition pde_at :: "kstate \<Rightarrow> nat \<Rightarrow> u32 \<Rightarrow> u32" where
  "pde_at s d va = pmem s d (unat (PDX va))"

lemma vm_inv_install:
  assumes inv: "vm_inv R D X s" and d: "d \<in> D" "i < UPDX" "\<not> present (pmem s d i)"
    and f: "free_pages s = p # ps" and v: "present v" "pg v = p"
    and t: "pages_inv t" "free_pages t = ps" "npages t = npages s"
      "pmem t = set_word ((pmem s)(p := (\<lambda>_. 0))) d i v"
    and refs: "\<And>q. pp_ref (pages t q) = (if q = p then 1 else pp_ref (pages s q))"
  shows "vm_inv R D X t" and "ptps (pmem t) D = insert p (ptps (pmem s) D)"
    and "urefs (pmem t) D q = urefs (pmem s) D q"
    and "d' \<in> D \<Longrightarrow> i' < UPDX \<Longrightarrow> uvm (pmem t) d' i' j' = uvm (pmem s) d' i' j'"
proof -
  note D = vm_invD [OF inv]
  have pn: "p < unat (npages s)" "p \<in> set (free_pages s)" "p \<notin> set ps"
    using pages_invD(3) [OF D(1), of p] pages_invD(6) [OF D(1)] f by auto
  have sub: "set ps \<subseteq> set (free_pages s)" using f by auto
  have pD: "p \<notin> D" "p \<notin> ptps (pmem s) D" "p \<notin> utgt (pmem s) ` umaps (pmem s) D"
    using D(2) pn(2) by (auto simp: tables_wf_def)
  note I = install_table [OF D(2) d pn(1) pD pn(3) sub v t(4)]
  show pt: "ptps (pmem t) D = insert p (ptps (pmem s) D)" by (rule I(2))
  show uref: "urefs (pmem t) D q = urefs (pmem s) D q" for q by (rule I(5))
  show "uvm (pmem t) d' i' j' = uvm (pmem s) d' i' j'" if "d' \<in> D" "i' < UPDX"
    using that by (rule I(7))
  have tgts: "utgt (pmem t) ` umaps (pmem t) D = utgt (pmem s) ` umaps (pmem s) D"
    unfolding I(3) using I(4) by (intro image_cong) auto
  show "vm_inv R D X t"
    unfolding vm_inv_def
  proof (intro conjI ballI allI impI)
    show "tables_wf (unat (npages t)) (pmem t) D (set (free_pages t))"
      using I(6) t by simp
    show "R \<inter> (set (free_pages t) \<union> D \<union> ptps (pmem t) D \<union> utgt (pmem t) ` umaps (pmem t) D) = {}"
      using D(3) pt tgts sub t(2) pn(2) by auto
    show "pp_ref (pages t q) = 1" if "q \<in> D \<union> ptps (pmem t) D" for q
      using that refs D(4) [of q] pt by auto
    show "unat (pp_ref (pages t q)) = urefs (pmem t) D q + X q"
      if "q < unat (npages t)" "q \<notin> R \<union> D \<union> ptps (pmem t) D" for q
      using that refs D(5) [of q] pt t uref by auto
  qed (rule t(1))
qed

lemma walk_alloc:
  assumes inv: "vm_inv R D X s" and d: "d \<in> D" and va: "va < UTOP"
    and np: "\<not> present (pde_at s d va)" and f: "free_pages s = p # ps"
  obtains t where "pgdir_walk (kva_of d 0) va True s = Ret (Some (kva_of p (unat (PTX va)))) t"
    and "vm_frame s t" "pages_inv t" "free_pages t = ps" "tlb t = tlb s"
    and "pmem t = set_word ((pmem s)(p := (\<lambda>_. 0))) d (unat (PDX va))
           (page2pa p OR PTE_P OR PTE_U OR PTE_W)"
    and "\<And>q. pp_ref (pages t q) = (if q = p then 1 else pp_ref (pages s q))"
proof -
  let ?i = "unat (PDX va)" and ?j = "unat (PTX va)"
  let ?v = "page2pa p OR PTE_P OR PTE_U OR PTE_W"
  let ?m = "set_word ((pmem s)(p := (\<lambda>_. 0))) d ?i ?v"
  note D = vm_invD [OF inv]
  have b: "d < 1048576" using tables_wfD(2) [OF D(2) d] D(6) by simp
  have i: "?i < UPDX" "?i < 1024" using va unat_PDX_bound by (simp_all add: PDX_below_UTOP)
  have e: "kload u (kva_of d ?i) = pmem u d ?i" for u
    using b i by (simp add: kload_kva_of)
  have pn: "p < unat (npages s)" "p < 1048576" "p \<in> set (free_pages s)" "p \<notin> set ps"
    using pages_invD(3) [OF D(1), of p] pages_invD(6) [OF D(1)] f D(6) by auto
  obtain s1 where s1: "page_alloc 1 s = Ret (Some p) s1" "pages_inv s1" "free_pages s1 = ps"
    "s1 = s\<lparr>page_free_list := pp_link (pages s p),
             pages := (pages s)(p := (pages s p)\<lparr>pp_link := None\<rparr>),
             pmem := (if 1 AND ALLOC_ZERO \<noteq> 0 then (pmem s)(p := (\<lambda>_. 0)) else pmem s)\<rparr>"
    using page_alloc_Cons [OF D(1) f, of 1] by blast
  let ?t = "(set_ref p (pp_ref (pages s1 p) + 1) s1)\<lparr>pmem := ?m\<rparr>"
  have m1: "pmem s1 = (pmem s)(p := (\<lambda>_. 0))" "npages s1 = npages s"
    "pp_ref (pages s1 q) = pp_ref (pages s q)" for q
    by (simp_all add: s1(4) ALLOC_ZERO_def)
  have st: "kstore (kva_of d ?i) ?v
      (set_ref p (pp_ref (pages s1 p) + 1) (s1\<lparr>pmem := (pmem s1)(p := \<lambda>_. 0)\<rparr>)) = ?t"
    using b i m1 by (simp add: kstore_kva_of set_ref_def)
  have "KADDR (PTE_ADDR ?v) ?t = Ret (kva_of p 0) ?t"
    using KADDR_PTE_ADDR [of ?v ?t] pn m1 by (simp add: pg_or flags_only_or pg_page2pa)
  moreover have "kload ?t (kva_of d ?i) = ?v"
    using b i by (simp add: kload_kva_of set_word_apply)
  ultimately have walk: "pgdir_walk (kva_of d 0) va True s = Ret (Some (kva_of p ?j)) ?t"
    using np s1(1) pn D(6) m1 st
    by (simp add: pgdir_walk_def e page2kva_ok memset_page_kva_of kva_of_index Let_def
        pde_at_def present_def)
  have inv1: "pages_inv ?t" "free_pages ?t = ps"
    using set_ref_inv [OF s1(2), of p] pn s1(3)
      pages_inv_cong [of ?t "set_ref p (pp_ref (pages s1 p) + 1) s1"] by simp_all
  have refs: "pp_ref (pages ?t q) = (if q = p then 1 else pp_ref (pages s q))" for q
    using pages_invD(4) [OF D(1) pn(3)] m1 by simp
  have "vm_frame s ?t"
    by (rule vm_frameI [where p = "pages ?t" and f = "page_free_list ?t" and m = ?m and c = "tlb s"])
       (simp add: s1(4) set_ref_def)
  moreover have "tlb ?t = tlb s" by (simp add: s1(4))
  ultimately show thesis using walk inv1 refs that [of ?t] by simp
qed

lemma walk_create:
  assumes inv: "vm_inv R D X s" and d: "d \<in> D" and va: "va < UTOP"
  obtains (present) "present (pde_at s d va)"
      "pgdir_walk (kva_of d 0) va True s = Ret (Some (kva_of (pg (pde_at s d va)) (unat (PTX va)))) s"
  | (exhausted) "\<not> present (pde_at s d va)" "free_pages s = []"
      "pgdir_walk (kva_of d 0) va True s = Ret None s"
  | (created) p ps t where "\<not> present (pde_at s d va)" "free_pages s = p # ps"
      "pgdir_walk (kva_of d 0) va True s = Ret (Some (kva_of (pg (pde_at t d va)) (unat (PTX va)))) t"
      "vm_inv R D X t" "vm_frame s t" "free_pages t = ps" "present (pde_at t d va)" "tlb t = tlb s"
      "ptps (pmem t) D = insert p (ptps (pmem s) D)"
      "\<And>q. urefs (pmem t) D q = urefs (pmem s) D q"
      "\<And>q. q \<noteq> p \<Longrightarrow> pp_ref (pages t q) = pp_ref (pages s q)"
      "\<And>d' i' j'. d' \<in> D \<Longrightarrow> i' < UPDX \<Longrightarrow> uvm (pmem t) d' i' j' = uvm (pmem s) d' i' j'"
      "\<And>d' i'. d' \<in> D \<Longrightarrow> (d', i') \<noteq> (d, unat (PDX va)) \<Longrightarrow> pmem t d' i' = pmem s d' i'"
      "\<And>q. q \<notin> D \<Longrightarrow> q \<notin> ptps (pmem t) D \<Longrightarrow> pmem t q = pmem s q"
proof (cases "present (pde_at s d va)")
  case True
  with walk_present [OF inv d va] show thesis
    by (auto simp: pde_at_def intro: present)
next
  case np: False
  note D = vm_invD [OF inv]
  show thesis
  proof (cases "free_pages s")
    case Nil
    have "d < 1048576" using tables_wfD(2) [OF D(2) d] D(6) by simp
    then have "pgdir_walk (kva_of d 0) va True s = Ret None s"
      using page_alloc_empty [OF D(1) Nil] np unat_PDX_bound
      by (simp add: pgdir_walk_def kload_kva_of kva_of_index pde_at_def present_def)
    with np Nil show thesis by (rule exhausted)
  next
    case (Cons p ps)
    let ?v = "page2pa p OR PTE_P OR PTE_U OR PTE_W"
    obtain t where t: "pgdir_walk (kva_of d 0) va True s = Ret (Some (kva_of p (unat (PTX va)))) t"
      "vm_frame s t" "pages_inv t" "free_pages t = ps" "tlb t = tlb s"
      "pmem t = set_word ((pmem s)(p := (\<lambda>_. 0))) d (unat (PDX va)) ?v"
      "\<And>q. pp_ref (pages t q) = (if q = p then 1 else pp_ref (pages s q))"
      using walk_alloc [OF inv d va np Cons] by blast
    have "p < 1048576" using pages_invD(3) [OF D(1), of p] Cons D(6) by simp
    then have v: "present ?v" "pg ?v = p" "pde_at t d va = ?v"
      by (simp_all add: present_or pg_or flags_only_or pg_page2pa pde_at_def t(6) set_word_apply)
    note I = vm_inv_install [OF inv d PDX_below_UTOP [OF va] np [unfolded pde_at_def] Cons v(1,2)
        t(3,4) vm_frame_fields(1) [OF t(2)] t(6,7)]
    have "p \<notin> D" using tables_wfD(3) [OF D(2)] Cons by fastforce
    then have "pmem t d' i' = pmem s d' i'" if "d' \<in> D" "(d', i') \<noteq> (d, unat (PDX va))" for d' i'
      using that by (auto simp: t(6) set_word_apply)
    moreover have "pmem t q = pmem s q" if "q \<notin> D" "q \<notin> ptps (pmem t) D" for q
      using that d I(2) by (auto simp: t(6) set_word_def)
    ultimately show thesis
      by - (rule created [OF np Cons _ I(1) t(2,4) _ t(5) I(2,3)], use t v I(4) in auto)
  qed
qed

section \<open>page_lookup\<close>

definition uvm_at :: "kstate \<Rightarrow> nat \<Rightarrow> u32 \<Rightarrow> u32 option" where
  "uvm_at s d va = uvm (pmem s) d (unat (PDX va)) (unat (PTX va))"

lemma page_lookup_ok:
  assumes inv: "vm_inv R D X s" and d: "d \<in> D" and va: "va < UTOP"
  shows "page_lookup (kva_of d 0) va s =
    Ret (map_option (\<lambda>e. (pg e, kva_of (pg (pde_at s d va)) (unat (PTX va)))) (uvm_at s d va)) s"
proof (cases "present (pde_at s d va)")
  case False
  then show ?thesis
    using walk_absent [OF inv d va] by (simp add: page_lookup_def uvm_at_def uvm_def pde_at_def)
next
  case True
  let ?i = "unat (PDX va)" and ?j = "unat (PTX va)"
  let ?tp = "pg (pmem s d ?i)"
  note D = vm_invD [OF inv]
  have di: "(d, ?i) \<in> upts (pmem s) D"
    using True d va by (simp add: upts_iff pde_at_def PDX_below_UTOP)
  have "?tp < unat (npages s)" using tables_wfD(5) [OF D(2)] ptpsI [OF di] by blast
  then have e: "kload s (kva_of ?tp ?j) = pmem s ?tp ?j"
    using D(6) unat_PTX_bound by (simp add: kload_kva_of)
  show ?thesis
  proof (cases "present (pmem s ?tp ?j)")
    case p: True
    then have "(d, ?i, ?j) \<in> umaps (pmem s) D"
      using di unat_PTX_bound by (simp add: umaps_iff)
    then have "pg (pmem s ?tp ?j) < unat (npages s)"
      using tables_wfD(6) [OF D(2)] by fastforce
    then show ?thesis
      using p True walk_present [OF inv d va] e
      by (simp add: page_lookup_def uvm_at_def uvm_def pde_at_def pa2page_PTE_ADDR)
        (simp add: present_def)
  next
    case False
    then show ?thesis
      using True walk_present [OF inv d va] e
      by (simp add: page_lookup_def uvm_at_def uvm_def pde_at_def) (simp add: present_def)
  qed
qed

section \<open>page_remove\<close>

lemma tlb_invalidate_tlb_cong:
  "curenv t = curenv s \<Longrightarrow> envs t = envs s \<Longrightarrow> tlb t = tlb s \<Longrightarrow>
    tlb (tlb_invalidate pgdir va t) = tlb (tlb_invalidate pgdir va s)"
  by (simp add: tlb_invalidate_def invlpg_def split: option.splits)

lemma tlb_invalidate_eq: "\<exists>c. tlb_invalidate pgdir va s = s\<lparr>tlb := c\<rparr>"
proof -
  have "\<exists>c. s = s\<lparr>tlb := c\<rparr>" by (rule exI [of _ "tlb s"]) simp
  then show ?thesis
    by (auto simp: tlb_invalidate_def invlpg_def split: option.splits)
qed

lemma vm_inv_tlb [simp]: "vm_inv R D X (s\<lparr>tlb := c\<rparr>) = vm_inv R D X s"
  using pages_inv_cong [of "s\<lparr>tlb := c\<rparr>" s] by (simp add: vm_inv_def)

lemma vm_inv_unmap:
  assumes inv: "vm_inv R D X s" and di: "(d, i) \<in> upts (pmem s) D"
    and j: "j < 1024" "present (pmem s (pg (pmem s d i)) j)"
    and q: "q = pg (pmem s (pg (pmem s d i)) j)"
    and t: "pages_inv t" "npages t = npages s"
      "free_pages t = (if pp_ref (pages s q) = 1 then q # free_pages s else free_pages s)"
      "pmem t = set_word (pmem s) (pg (pmem s d i)) j 0"
    and refs: "\<And>r. pp_ref (pages t r) = (if r = q then pp_ref (pages s q) - 1 else pp_ref (pages s r))"
  shows "vm_inv R D X t" and "ptps (pmem t) D = ptps (pmem s) D"
proof -
  note D = vm_invD [OF inv]
  note S = set_pte_structure [OF D(2) di t(4)]
  note M = set_pte_maps [OF D(2) di j(1) t(4)]
  have x: "(d, i, j) \<in> umaps (pmem s) D" using di j by (simp add: umaps_iff)
  have qx: "utgt (pmem s) (d, i, j) = q" using q by simp
  note qk = mapped_page [OF inv x qx] and r = mapped_page(6) [OF inv x qx]
  have dec: "urefs (pmem t) D r + (if q = r then 1 else 0) = urefs (pmem s) D r" for r
    using set_pte_refs [OF D(2) di j(1) t(4), of r] x qx by simp
  have only: "utgt (pmem s) y \<noteq> q"
    if "pp_ref (pages s q) = 1" "y \<in> umaps (pmem s) D" "y \<noteq> (d, i, j)" for y
  proof
    assume "utgt (pmem s) y = q"
    then have "card {(d, i, j), y} \<le> urefs (pmem s) D q"
      unfolding urefs_def using that x qx finite_umaps [OF tables_wfD(1) [OF D(2)]]
      by (intro card_mono) auto
    then show False using that r by simp
  qed
  show pt: "ptps (pmem t) D = ptps (pmem s) D" by (rule S(2))
  show "vm_inv R D X t"
    unfolding vm_inv_def
  proof (intro conjI ballI allI impI)
    show "tables_wf (unat (npages t)) (pmem t) D (set (free_pages t))"
      unfolding t(2)
      by (rule set_pte_wf [OF D(2) di j(1) t(4), where A = "if pp_ref (pages s q) = 1 then {q} else {}"])
         (use t(3) qk only in auto)
    have "utgt (pmem t) ` umaps (pmem t) D \<subseteq> utgt (pmem s) ` umaps (pmem s) D"
    proof
      fix z assume "z \<in> utgt (pmem t) ` umaps (pmem t) D"
      then obtain y where y: "y \<in> umaps (pmem t) D" "z = utgt (pmem t) y" by blast
      then have "y \<in> umaps (pmem s) D" "y \<noteq> (d, i, j)" using M(1) by auto
      with M(2) [OF y(1)] y(2) show "z \<in> utgt (pmem s) ` umaps (pmem s) D" by auto
    qed
    then show "R \<inter> (set (free_pages t) \<union> D \<union> ptps (pmem t) D \<union> utgt (pmem t) ` umaps (pmem t) D) = {}"
      using D(3) pt t(3) qk by auto
    show "pp_ref (pages t r) = 1" if "r \<in> D \<union> ptps (pmem t) D" for r
      using that refs D(4) [of r] pt qk by auto
    show "unat (pp_ref (pages t r)) = urefs (pmem t) D r + X r"
      if "r < unat (npages t)" "r \<notin> R \<union> D \<union> ptps (pmem t) D" for r
    proof (cases "r = q")
      case True
      have "unat (pp_ref (pages s q) - 1) = unat (pp_ref (pages s q)) - 1"
        by (rule unat_minus_one [OF qk(7)])
      then show ?thesis using True refs [of r] r dec [of q] by simp
    next
      case False
      then show ?thesis using that refs [of r] D(5) [of r] dec [of r] pt t(2) by simp
    qed
  qed (rule t(1))
qed

lemma page_remove_unmapped:
  assumes "vm_inv R D X s" and "d \<in> D" and "va < UTOP" and "uvm_at s d va = None"
  shows "page_remove (kva_of d 0) va s = Ret () s"
  using page_lookup_ok [OF assms(1-3)] assms(4) by (simp add: page_remove_def)

lemma page_remove_mapped:
  assumes inv: "vm_inv R D X s" and d: "d \<in> D" and va: "va < UTOP" and e: "uvm_at s d va = Some e"
  obtains t where "page_remove (kva_of d 0) va s = Ret () t" and "vm_inv R D X t" and "vm_frame s t"
    and "free_pages t = (if pp_ref (pages s (pg e)) = 1 then pg e # free_pages s else free_pages s)"
    and "ptps (pmem t) D = ptps (pmem s) D"
    and "pde_at t d va = pde_at s d va"
    and "tlb t = tlb (tlb_invalidate (kva_of d 0) va s)"
    and "\<And>r. pp_ref (pages t r) = (if r = pg e then pp_ref (pages s r) - 1 else pp_ref (pages s r))"
    and "\<And>d' i' j'. d' \<in> D \<Longrightarrow> i' < UPDX \<Longrightarrow> uvm (pmem t) d' i' j' =
      (if (d', i', j') = (d, unat (PDX va), unat (PTX va)) then None else uvm (pmem s) d' i' j')"
    and "\<And>d' i'. d' \<in> D \<Longrightarrow> pmem t d' i' = pmem s d' i'"
    and "\<And>q. q \<notin> D \<Longrightarrow> q \<notin> ptps (pmem s) D \<Longrightarrow> pmem t q = pmem s q"
proof -
  let ?i = "unat (PDX va)" and ?j = "unat (PTX va)"
  let ?tp = "pg (pmem s d ?i)" and ?q = "pg e"
  note D = vm_invD [OF inv]
  have p: "present (pmem s d ?i)" "present (pmem s ?tp ?j)" "e = pmem s ?tp ?j"
    using e by (auto simp: uvm_at_def uvm_def split: if_splits)
  have di: "(d, ?i) \<in> upts (pmem s) D"
    using p d va by (simp add: upts_iff PDX_below_UTOP)
  have tp: "?tp < 1048576" using tables_wfD(5) [OF D(2)] ptpsI [OF di] D(6) by fastforce
  have x: "(d, ?i, ?j) \<in> umaps (pmem s) D" using di p unat_PTX_bound by (simp add: umaps_iff)
  have "utgt (pmem s) (d, ?i, ?j) = ?q" using p by simp
  note qk = mapped_page [OF inv x this]
  obtain s1 where s1: "page_decref ?q s = Ret () s1" "pages_inv s1"
    "free_pages s1 = (if pp_ref (pages s ?q) = 1 then ?q # free_pages s else free_pages s)"
    "\<And>r. pp_ref (pages s1 r) = (if r = ?q then pp_ref (pages s ?q) - 1 else pp_ref (pages s r))"
    "\<exists>f pg. s1 = s\<lparr>pages := pg, page_free_list := f\<rparr>"
    using page_decref_ok [OF D(1) qk(1,2,7)] by blast
  obtain c where c: "tlb_invalidate (kva_of d 0) va s1 = s1\<lparr>tlb := c\<rparr>"
    using tlb_invalidate_eq by blast
  obtain f pgs where s1eq: "s1 = s\<lparr>pages := pgs, page_free_list := f\<rparr>" using s1(5) by blast
  let ?m = "set_word (pmem s) ?tp ?j 0"
  let ?t = "s1\<lparr>tlb := c, pmem := ?m\<rparr>"
  have ret: "page_remove (kva_of d 0) va s = Ret () ?t"
    using page_lookup_ok [OF inv d va] e s1(1) c tp unat_PTX_bound
    by (simp add: page_remove_def pde_at_def kstore_kva_of s1eq)
  have fr: "vm_frame s ?t"
    by (rule vm_frameI [where p = pgs and f = f and m = ?m and c = c]) (simp add: s1eq)
  have t: "pages_inv ?t" "free_pages ?t = free_pages s1" "npages ?t = npages s"
    using s1(2) pages_inv_cong [of ?t s1] by (simp_all add: s1eq)
  note V = vm_inv_unmap [OF inv di unat_PTX_bound p(2) _ t(1,3), of ?q]
  have "vm_inv R D X ?t" "ptps (pmem ?t) D = ptps (pmem s) D"
    by (rule V; use p t s1 in simp)+
  moreover have "pmem ?t r = pmem s r" if "r \<notin> D" "r \<notin> ptps (pmem s) D" for r
    using that ptpsI [OF di] by (auto simp: set_word_def)
  moreover have "pmem ?t d' i' = pmem s d' i'" if "d' \<in> D" for d' i'
    using set_pte_structure(3) [OF D(2) di refl that] by simp
  moreover from this [OF d] have "pde_at ?t d va = pde_at s d va" by (simp add: pde_at_def)
  moreover have "uvm (pmem ?t) d' i' j' =
      (if (d', i', j') = (d, ?i, ?j) then None else uvm (pmem s) d' i' j')"
    if "d' \<in> D" "i' < UPDX" for d' i' j'
    using set_pte_uvm [OF D(2) di refl that, of ?j 0 j'] by simp
  moreover have "tlb ?t = tlb (tlb_invalidate (kva_of d 0) va s)"
  proof -
    have "tlb ?t = tlb (tlb_invalidate (kva_of d 0) va s1)" by (simp add: c)
    also have "\<dots> = tlb (tlb_invalidate (kva_of d 0) va s)"
      by (rule tlb_invalidate_tlb_cong) (simp_all add: s1eq curenv_def)
    finally show ?thesis .
  qed
  ultimately show thesis using that [of ?t] ret fr t s1 by simp
qed

section \<open>page_insert\<close>

text \<open>A page that may be mapped: it exists, is allocated, and is an ordinary page.\<close>

definition mappable :: "nat set \<Rightarrow> nat set \<Rightarrow> kstate \<Rightarrow> nat \<Rightarrow> bool" where
  "mappable R D s p \<longleftrightarrow>
     p < unat (npages s) \<and> p \<notin> R \<union> D \<union> ptps (pmem s) D \<union> set (free_pages s)"

lemma vm_inv_hold:
  assumes inv: "vm_inv R D X s" and p: "mappable R D s p" and b: "unat (pp_ref (pages s p)) < 65535"
  shows "vm_inv R D (X(p := Suc (X p))) (set_ref p (pp_ref (pages s p) + 1) s)"
proof -
  let ?t = "set_ref p (pp_ref (pages s p) + 1) s"
  note D = vm_invD [OF inv]
  have f: "pages_inv ?t" "free_pages ?t = free_pages s"
    using set_ref_inv [OF D(1)] p by (auto simp: mappable_def)
  have "unat (pp_ref (pages s p) + 1) = Suc (unat (pp_ref (pages s p)))"
    using b by (simp add: unat_word_ariths)
  then show ?thesis
    using D f p by (auto simp: vm_inv_def mappable_def)
qed

lemma vm_inv_map:
  assumes inv: "vm_inv R D X s" and di: "(d, i) \<in> upts (pmem s) D"
    and j: "j < 1024" "\<not> present (pmem s (pg (pmem s d i)) j)"
    and p: "mappable R D s p" "X p = Suc n" and v: "present v" "pg v = p"
    and t: "t = s\<lparr>pmem := set_word (pmem s) (pg (pmem s d i)) j v\<rparr>"
  shows "vm_inv R D (X(p := n)) t" and "ptps (pmem t) D = ptps (pmem s) D"
proof -
  note D = vm_invD [OF inv]
  have m: "pmem t = set_word (pmem s) (pg (pmem s d i)) j v" by (simp add: t)
  note S = set_pte_structure [OF D(2) di m]
  note M = set_pte_maps [OF D(2) di j(1) m]
  have f: "pages_inv t" "free_pages t = free_pages s" "npages t = npages s" "pages t = pages s"
    using D(1) pages_inv_cong [of t s] by (simp_all add: t)
  have inc: "urefs (pmem t) D r = urefs (pmem s) D r + (if r = p then 1 else 0)" for r
    using set_pte_refs [OF D(2) di j(1) m, of r] j v by (auto simp: umaps_iff)
  have tg: "utgt (pmem t) ` umaps (pmem t) D \<subseteq> insert p (utgt (pmem s) ` umaps (pmem s) D)"
  proof
    fix z assume "z \<in> utgt (pmem t) ` umaps (pmem t) D"
    then obtain y where y: "y \<in> umaps (pmem t) D" "z = utgt (pmem t) y" by blast
    then have "y = (d, i, j) \<or> y \<in> umaps (pmem s) D" using M(1) by (auto split: if_splits)
    then show "z \<in> insert p (utgt (pmem s) ` umaps (pmem s) D)"
      using M(2) [OF y(1)] y(2) v by (auto simp del: utgt_eq split: if_splits)
  qed
  show pt: "ptps (pmem t) D = ptps (pmem s) D" by (rule S(2))
  show "vm_inv R D (X(p := n)) t"
    unfolding vm_inv_def
  proof (intro conjI ballI allI impI)
    show "tables_wf (unat (npages t)) (pmem t) D (set (free_pages t))"
      unfolding f(2,3)
      by (rule set_pte_wf [OF D(2) di j(1) m, where A = "{}"]) (use p v in \<open>auto simp: mappable_def\<close>)
    show "R \<inter> (set (free_pages t) \<union> D \<union> ptps (pmem t) D \<union> utgt (pmem t) ` umaps (pmem t) D) = {}"
    proof -
      have "R \<inter> insert p (utgt (pmem s) ` umaps (pmem s) D) = {}"
        using D(3) p(1) by (auto simp del: utgt_eq simp: mappable_def)
      with tg have "R \<inter> utgt (pmem t) ` umaps (pmem t) D = {}" by (auto simp del: utgt_eq)
      with D(3) show ?thesis by (simp add: pt f(2) Int_Un_distrib)
    qed
    show "pp_ref (pages t r) = 1" if "r \<in> D \<union> ptps (pmem t) D" for r
      using that D(4) [of r] pt f by simp
    show "unat (pp_ref (pages t r)) = urefs (pmem t) D r + (X(p := n)) r"
      if "r < unat (npages t)" "r \<notin> R \<union> D \<union> ptps (pmem t) D" for r
      using that D(5) [of r] pt f p inc [of r] by auto
  qed (rule f(1))
qed

lemma vm_inv_flags:
  assumes inv: "vm_inv R D X s" and di: "(d, i) \<in> upts (pmem s) D"
    and v: "present v" "pg v = pg (pmem s d i)" and t: "t = s\<lparr>pmem := set_word (pmem s) d i v\<rparr>"
  shows "vm_inv R D X t"
proof -
  note D = vm_invD [OF inv]
  have m: "pmem t = set_word (pmem s) d i v" by (simp add: t)
  note S = set_pde_flags [OF D(2) di v m]
  have "utgt (pmem t) ` umaps (pmem t) D = utgt (pmem s) ` umaps (pmem s) D"
    unfolding S(3) using S(4) by (intro image_cong) auto
  moreover have "pages_inv t" "free_pages t = free_pages s" "npages t = npages s" "pages t = pages s"
    using D(1) pages_inv_cong [of t s] by (simp_all add: t)
  ultimately show ?thesis
    using D S(2,5,6) by (simp add: vm_inv_def)
qed

text \<open>
  The common tail of \<open>page_insert\<close>, from a state where the table exists: take a reference,
  remove what is mapped at the address, store the entry, widen the directory entry.
\<close>

lemma insert_clear:
  assumes inv: "vm_inv R D X s" and d: "d \<in> D" and va: "va < UTOP"
    and pr: "present (pde_at s d va)"
    and p: "mappable R D s p" "unat (pp_ref (pages s p)) < 65535"
  obtains t where
    "(if kload (set_ref p (pp_ref (pages s p) + 1) s) (kva_of (pg (pde_at s d va)) (unat (PTX va))) AND PTE_P \<noteq> 0
      then page_remove (kva_of d 0) va
             (tlb_invalidate (kva_of d 0) va (set_ref p (pp_ref (pages s p) + 1) s))
      else Ret () (set_ref p (pp_ref (pages s p) + 1) s)) = Ret () t"
    and "vm_inv R D (X(p := Suc (X p))) t" and "vm_frame s t"
    and "mappable R D t p" and "pde_at t d va = pde_at s d va"
    and "tlb t = (if uvm_at s d va = None then tlb s else tlb (tlb_invalidate (kva_of d 0) va s))"
    and "\<And>d' i' j'. d' \<in> D \<Longrightarrow> i' < UPDX \<Longrightarrow> uvm (pmem t) d' i' j' =
      (if (d', i', j') = (d, unat (PDX va), unat (PTX va)) then None else uvm (pmem s) d' i' j')"
    and "\<And>d' i'. d' \<in> D \<Longrightarrow> pmem t d' i' = pmem s d' i'"
    and "\<And>q. q \<notin> D \<Longrightarrow> q \<notin> ptps (pmem s) D \<Longrightarrow> pmem t q = pmem s q"
    and "ptps (pmem t) D = ptps (pmem s) D"
proof -
  let ?i = "unat (PDX va)" and ?j = "unat (PTX va)"
  let ?tp = "pg (pde_at s d va)"
  let ?s = "set_ref p (pp_ref (pages s p) + 1) s"
  let ?X = "X(p := Suc (X p))"
  note D = vm_invD [OF inv]
  have inv1: "vm_inv R D ?X ?s" by (rule vm_inv_hold [OF inv p])
  have fr: "vm_frame s ?s"
    by (rule vm_frameI [where p = "pages ?s" and f = "page_free_list s" and m = "pmem s" and c = "tlb s"])
       (simp add: set_ref_def)
  have pde: "pde_at ?s d va = pde_at s d va" by (simp add: pde_at_def)
  have di: "(d, ?i) \<in> upts (pmem s) D"
    using pr d va by (simp add: upts_iff pde_at_def PDX_below_UTOP)
  have "?tp < 1048576" using tables_wfD(5) [OF D(2)] ptpsI [OF di] D(6) by (fastforce simp: pde_at_def)
  then have kl: "kload ?s (kva_of ?tp ?j) = pmem s ?tp ?j"
    using unat_PTX_bound by (simp add: kload_kva_of)
  have uvm1: "uvm_at ?s d va = (if present (pmem s ?tp ?j) then Some (pmem s ?tp ?j) else None)"
    using pr by (simp add: uvm_at_def uvm_def pde_at_def)
  have fp: "free_pages ?s = free_pages s"
    using set_ref_inv(2) [OF D(1)] p by (simp add: mappable_def)
  show thesis
  proof (cases "present (pmem s ?tp ?j)")
    case False
    then have "pmem s ?tp ?j AND PTE_P = 0" by (simp add: present_def)
    moreover have "mappable R D ?s p" using p fp by (simp add: mappable_def)
    moreover have "uvm (pmem s) d ?i ?j = None" using uvm1 False by (simp add: uvm_at_def)
    ultimately show ?thesis
      by (intro that [of ?s]) (simp_all add: kl inv1 fr pde uvm_at_def)
  next
    case True
    obtain u where u: "tlb_invalidate (kva_of d 0) va ?s = u" "vm_inv R D ?X u" "vm_frame ?s u"
      "pmem u = pmem s" "tlb (tlb_invalidate (kva_of d 0) va u) = tlb (tlb_invalidate (kva_of d 0) va s)"
    proof -
      obtain c where c: "tlb_invalidate (kva_of d 0) va ?s = ?s\<lparr>tlb := c\<rparr>"
        using tlb_invalidate_eq by blast
      moreover have "vm_frame ?s (?s\<lparr>tlb := c\<rparr>)"
        by (rule vm_frameI [where p = "pages ?s" and f = "page_free_list s" and m = "pmem s" and c = c]) simp
      moreover have "tlb (tlb_invalidate (kva_of d 0) va (tlb_invalidate (kva_of d 0) va ?s))
          = tlb (tlb_invalidate (kva_of d 0) va s)"
        by (simp add: tlb_invalidate_def invlpg_def curenv_def split: option.splits)
      ultimately show thesis using inv1 that by simp
    qed
    have us: "uvm_at s d va \<noteq> None" using uvm1 True by (simp add: uvm_at_def)
    define q where "q = pg (pmem s ?tp ?j)"
    have eu: "uvm_at u d va = Some (pmem s ?tp ?j)" using uvm1 True u(4) by (simp add: uvm_at_def)
    obtain t where t: "page_remove (kva_of d 0) va u = Ret () t" "vm_inv R D ?X t" "vm_frame u t"
      "free_pages t = (if pp_ref (pages u q) = 1 then q # free_pages u else free_pages u)"
      "ptps (pmem t) D = ptps (pmem u) D" "pde_at t d va = pde_at u d va"
      "tlb t = tlb (tlb_invalidate (kva_of d 0) va u)"
      "\<And>r. pp_ref (pages t r) = (if r = q then pp_ref (pages u r) - 1 else pp_ref (pages u r))"
      "\<And>d' i' j'. d' \<in> D \<Longrightarrow> i' < UPDX \<Longrightarrow> uvm (pmem t) d' i' j' =
        (if (d', i', j') = (d, ?i, ?j) then None else uvm (pmem u) d' i' j')"
      "\<And>d' i'. d' \<in> D \<Longrightarrow> pmem t d' i' = pmem u d' i'"
      "\<And>q. q \<notin> D \<Longrightarrow> q \<notin> ptps (pmem u) D \<Longrightarrow> pmem t q = pmem u q"
      by (rule page_remove_mapped [OF u(2) d va eu, folded q_def]) (rule that)
    have "vm_frame s t"
      by (rule vm_frame_trans [OF fr vm_frame_trans [OF u(3) t(3)]])
    moreover have "mappable R D t p"
    proof -
      have n: "p < unat (npages t)" "p \<notin> R \<union> D \<union> ptps (pmem t) D"
        using p vm_frame_fields(1) [OF \<open>vm_frame s t\<close>] t(5) u(4) by (auto simp: mappable_def)
      then have "pp_ref (pages t p) \<noteq> 0" using vm_invD(5) [OF t(2) n] by auto
      then have "p \<notin> set (free_pages t)" using pages_invD(4) [OF vm_invD(1) [OF t(2)]] by blast
      with n show ?thesis by (simp add: mappable_def)
    qed
    moreover have "pmem s ?tp ?j AND PTE_P \<noteq> 0" using True by (simp add: present_def)
    moreover have "pde_at t d va = pde_at s d va" using t(6) u(4) by (simp add: pde_at_def)
    ultimately show ?thesis
      by (intro that [of t]) (simp_all add: kl u(1,4,5) t(1,2,5,7,9,10,11) us)
  qed
qed

lemma insert_tail:
  assumes inv: "vm_inv R D X s" and d: "d \<in> D" and va: "va < UTOP"
    and pr: "present (pde_at s d va)"
    and w: "pgdir_walk (kva_of d 0) va True s0 = Ret (Some (kva_of (pg (pde_at s d va)) (unat (PTX va)))) s"
    and p: "mappable R D s p" "unat (pp_ref (pages s p)) < 65535" and perm: "flags_only perm"
  obtains t where "page_insert (kva_of d 0) p va perm s0 = Ret 0 t"
    and "vm_inv R D X t" and "vm_frame s t"
    and "tlb t = (if uvm_at s d va = None then tlb s else tlb (tlb_invalidate (kva_of d 0) va s))"
    and "\<And>d' i' j'. d' \<in> D \<Longrightarrow> i' < UPDX \<Longrightarrow> uvm (pmem t) d' i' j' =
      (if (d', i', j') = (d, unat (PDX va), unat (PTX va))
       then Some (page2pa p OR perm OR PTE_P) else uvm (pmem s) d' i' j')"
    and "\<And>d' i'. d' \<in> D \<Longrightarrow> (d', i') \<noteq> (d, unat (PDX va)) \<Longrightarrow> pmem t d' i' = pmem s d' i'"
    and "\<And>q. q \<notin> D \<Longrightarrow> q \<notin> ptps (pmem t) D \<Longrightarrow> pmem t q = pmem s q"
    and "ptps (pmem t) D = ptps (pmem s) D"
proof -
  let ?i = "unat (PDX va)" and ?j = "unat (PTX va)"
  let ?v = "page2pa p OR perm OR PTE_P"
  obtain s1 where s1:
    "(if kload (set_ref p (pp_ref (pages s p) + 1) s) (kva_of (pg (pde_at s d va)) ?j) AND PTE_P \<noteq> 0
      then page_remove (kva_of d 0) va
             (tlb_invalidate (kva_of d 0) va (set_ref p (pp_ref (pages s p) + 1) s))
      else Ret () (set_ref p (pp_ref (pages s p) + 1) s)) = Ret () s1"
    "vm_inv R D (X(p := Suc (X p))) s1" "vm_frame s s1" "mappable R D s1 p" "pde_at s1 d va = pde_at s d va"
    "tlb s1 = (if uvm_at s d va = None then tlb s else tlb (tlb_invalidate (kva_of d 0) va s))"
    "\<And>d' i' j'. d' \<in> D \<Longrightarrow> i' < UPDX \<Longrightarrow> uvm (pmem s1) d' i' j' =
      (if (d', i', j') = (d, ?i, ?j) then None else uvm (pmem s) d' i' j')"
    "\<And>d' i'. d' \<in> D \<Longrightarrow> pmem s1 d' i' = pmem s d' i'"
    "\<And>q. q \<notin> D \<Longrightarrow> q \<notin> ptps (pmem s) D \<Longrightarrow> pmem s1 q = pmem s q"
    "ptps (pmem s1) D = ptps (pmem s) D"
    by (rule insert_clear [OF inv d va pr p]) (rule that)
  note D1 = vm_invD [OF s1(2)]
  let ?tp = "pg (pmem s1 d ?i)"
  have tp: "?tp = pg (pde_at s d va)" using s1(5) by (simp add: pde_at_def)
  have di: "(d, ?i) \<in> upts (pmem s1) D"
    using pr s1(5) d va by (simp add: upts_iff pde_at_def PDX_below_UTOP)
  have np: "\<not> present (pmem s1 ?tp ?j)"
    using s1(7) [OF d PDX_below_UTOP [OF va], of ?j] di by (auto simp: uvm_def upts_iff split: if_splits)
  have b: "?tp < 1048576" "d < 1048576" "p < 1048576"
    using tables_wfD(5) [OF D1(2)] ptpsI [OF di] tables_wfD(2) [OF D1(2) d] s1(4) D1(6)
    by (fastforce simp: mappable_def)+
  have v: "present ?v" "pg ?v = p"
    using b perm by (simp_all add: present_or pg_or flags_only_or pg_page2pa)
  let ?m2 = "set_word (pmem s1) ?tp ?j ?v"
  let ?s2 = "s1\<lparr>pmem := ?m2\<rparr>"
  have inv2: "vm_inv R D X ?s2"
    using vm_inv_map(1) [OF s1(2) di unat_PTX_bound np s1(4) _ v refl, of "X p"] by simp
  have e2: "?m2 d ?i = pmem s1 d ?i"
    using set_pte_structure(3) [OF D1(2) di refl d] by simp
  let ?w = "?m2 d ?i OR perm OR PTE_P"
  let ?t = "?s2\<lparr>pmem := set_word ?m2 d ?i ?w\<rparr>"
  have di2: "(d, ?i) \<in> upts (pmem ?s2) D" using di e2 by (simp add: upts_iff)
  have w2: "present ?w" "pg ?w = pg (pmem ?s2 d ?i)"
    using perm by (simp_all add: present_or pg_or flags_only_or)
  have invt: "vm_inv R D X ?t" by (rule vm_inv_flags [OF inv2 di2 w2]) simp
  have "page_insert (kva_of d 0) p va perm s0 = Ret 0 ?t"
    using w s1(1) b unat_PTX_bound unat_PDX_bound tp
    by (simp add: page_insert_def Let_def kstore_kva_of kload_kva_of kva_of_index)
  moreover have "vm_frame s1 ?t"
    by (rule vm_frameI [where p = "pages s1" and f = "page_free_list s1" and c = "tlb s1"
          and m = "set_word ?m2 d ?i ?w"]) simp
  with s1(3) have "vm_frame s ?t" by (rule vm_frame_trans)
  moreover have "uvm (pmem ?t) d' i' j' =
      (if (d', i', j') = (d, ?i, ?j) then Some ?v else uvm (pmem s) d' i' j')"
    if "d' \<in> D" "i' < UPDX" for d' i' j'
    using set_pde_flags(7) [OF vm_invD(2) [OF inv2] di2 w2 refl that]
      set_pte_uvm [OF D1(2) di refl that, of ?j ?v j'] s1(7) [OF that, of j'] v by simp
  moreover have "tlb ?t = (if uvm_at s d va = None then tlb s else tlb (tlb_invalidate (kva_of d 0) va s))"
    using s1(6) by simp
  moreover have "pmem ?t d' i' = pmem s d' i'" if "d' \<in> D" "(d', i') \<noteq> (d, ?i)" for d' i'
    using set_pte_structure(3) [OF D1(2) di refl that(1), of ?j ?v i'] s1(8) [OF that(1), of i'] that(2)
    by (auto simp: set_word_apply)
  moreover have pt: "ptps (pmem ?t) D = ptps (pmem s) D"
    using set_pde_flags(2) [OF vm_invD(2) [OF inv2] di2 w2 refl] set_pte_structure(2) [OF D1(2) di refl] s1(10) by simp
  moreover have "pmem ?t q = pmem s q" if "q \<notin> D" "q \<notin> ptps (pmem ?t) D" for q
    using that d ptpsI [OF di] s1(9) [of q] s1(10) unfolding pt by (auto simp: set_word_def)
  ultimately show thesis using that [of ?t] invt by blast
qed

lemma page_insert_cases:
  assumes inv: "vm_inv R D X s" and d: "d \<in> D" and va: "va < UTOP"
    and p: "mappable R D s p" "unat (pp_ref (pages s p)) < 65535" and perm: "flags_only perm"
  obtains (no_mem) "page_insert (kva_of d 0) p va perm s = Ret (- E_NO_MEM) s"
      "\<not> present (pde_at s d va)" "free_pages s = []"
  | (inserted) t where "page_insert (kva_of d 0) p va perm s = Ret 0 t"
      "vm_inv R D X t" "vm_frame s t"
      "tlb t = (if uvm_at s d va = None then tlb s else tlb (tlb_invalidate (kva_of d 0) va s))"
      "\<And>d' i' j'. d' \<in> D \<Longrightarrow> i' < UPDX \<Longrightarrow> uvm (pmem t) d' i' j' =
        (if (d', i', j') = (d, unat (PDX va), unat (PTX va))
         then Some (page2pa p OR perm OR PTE_P) else uvm (pmem s) d' i' j')"
      "\<And>d' i'. d' \<in> D \<Longrightarrow> (d', i') \<noteq> (d, unat (PDX va)) \<Longrightarrow> pmem t d' i' = pmem s d' i'"
      "\<And>q. q \<notin> D \<Longrightarrow> q \<notin> ptps (pmem t) D \<Longrightarrow> pmem t q = pmem s q"
proof (rule walk_create [OF inv d va])
  assume "present (pde_at s d va)"
    "pgdir_walk (kva_of d 0) va True s = Ret (Some (kva_of (pg (pde_at s d va)) (unat (PTX va)))) s"
  then show thesis by - (rule insert_tail [OF inv d va _ _ p perm], assumption+, rule inserted)
next
  assume "\<not> present (pde_at s d va)" "free_pages s = []"
    "pgdir_walk (kva_of d 0) va True s = Ret None s"
  then show thesis using no_mem by (simp add: page_insert_def)
next
  fix n ns t
  assume np: "\<not> present (pde_at s d va)" and fl: "free_pages s = n # ns"
    and t: "pgdir_walk (kva_of d 0) va True s = Ret (Some (kva_of (pg (pde_at t d va)) (unat (PTX va)))) t"
      "vm_inv R D X t" "vm_frame s t" "free_pages t = ns" "present (pde_at t d va)" "tlb t = tlb s"
      "ptps (pmem t) D = insert n (ptps (pmem s) D)"
    and refs: "\<And>q. q \<noteq> n \<Longrightarrow> pp_ref (pages t q) = pp_ref (pages s q)"
    and same: "\<And>d' i' j'. d' \<in> D \<Longrightarrow> i' < UPDX \<Longrightarrow> uvm (pmem t) d' i' j' = uvm (pmem s) d' i' j'"
    and pdes: "\<And>d' i'. d' \<in> D \<Longrightarrow> (d', i') \<noteq> (d, unat (PDX va)) \<Longrightarrow> pmem t d' i' = pmem s d' i'"
    and rest: "\<And>q. q \<notin> D \<Longrightarrow> q \<notin> ptps (pmem t) D \<Longrightarrow> pmem t q = pmem s q"
  have pn: "p \<noteq> n" using p fl by (auto simp: mappable_def)
  then have mp: "mappable R D t p"
    using p fl t vm_frame_fields(1) [OF t(3)] by (auto simp: mappable_def)
  have b: "unat (pp_ref (pages t p)) < 65535" using p refs [OF pn] by simp
  have at: "uvm_at t d va = uvm_at s d va" using same d va by (simp add: uvm_at_def PDX_below_UTOP)
  have tl: "tlb (tlb_invalidate (kva_of d 0) va t) = tlb (tlb_invalidate (kva_of d 0) va s)"
    using vm_frame_fields [OF t(3)] t(6) by (intro tlb_invalidate_tlb_cong) auto
  obtain u where u: "page_insert (kva_of d 0) p va perm s = Ret 0 u" "vm_inv R D X u" "vm_frame t u"
    "tlb u = (if uvm_at t d va = None then tlb t else tlb (tlb_invalidate (kva_of d 0) va t))"
    "\<And>d' i' j'. d' \<in> D \<Longrightarrow> i' < UPDX \<Longrightarrow> uvm (pmem u) d' i' j' =
      (if (d', i', j') = (d, unat (PDX va), unat (PTX va))
       then Some (page2pa p OR perm OR PTE_P) else uvm (pmem t) d' i' j')"
    "\<And>d' i'. d' \<in> D \<Longrightarrow> (d', i') \<noteq> (d, unat (PDX va)) \<Longrightarrow> pmem u d' i' = pmem t d' i'"
    "\<And>q. q \<notin> D \<Longrightarrow> q \<notin> ptps (pmem u) D \<Longrightarrow> pmem u q = pmem t q"
    "ptps (pmem u) D = ptps (pmem t) D"
    by (rule insert_tail [OF t(2) d va t(5,1) mp b perm]) (rule that)
  show thesis
    by (rule inserted [OF u(1,2) vm_frame_trans [OF t(3) u(3)]])
       (use u(4-8) at t(6) tl same pdes rest in simp_all)
qed

end
