(* ===== verification/Pmap_Spec.thy ===== *)
theory Pmap_Spec
  imports Pmap_Inv
begin

text \<open>
  The properties of the physical page allocator and of the page-table functions, stated over
  virtual addresses: what \<open>page_init\<close>, \<open>page_alloc\<close>, \<open>page_insert\<close>, \<open>page_remove\<close>,
  \<open>pgdir_walk\<close>, \<open>user_mem_check\<close> and \<open>tlb_invalidate\<close> promise to the rest of the kernel.
\<close>

section \<open>A small machine\<close>

text \<open>
  Eight pages: page 0 is reserved, page 1 is an empty page directory, pages 2 and 3 are free
  and page 4 is an allocated page that is not yet mapped.
\<close>

definition small_pages :: "nat \<Rightarrow> PageInfo" where
  "small_pages i = \<lparr>pp_link = (if i = 2 then Some 3 else None), pp_ref = (if i \<le> 1 then 1 else 0)\<rparr>"

definition idle_env :: Env where
  "idle_env = \<lparr>env_tf = zero_tf, env_link = None, env_id = 0, env_parent_id = 0,
     env_type = ENV_TYPE_USER, env_status = ENV_FREE, env_runs = 0, env_cpunum = 0, env_pgdir = 0,
     env_pgfault_upcall = 0, env_ipc_recving = False, env_ipc_dstva = 0, env_ipc_value = 0,
     env_ipc_from = 0, env_ipc_perm = 0, env_e1000_waiting_rx = False\<rparr>"

definition idle_console :: console where
  "idle_console = \<lparr>cons_buf = (\<lambda>_. 0), cons_rpos = 0, cons_wpos = 0, serial_exists = True,
     com1_rx = [], com1_tx = [], kbc_data = [], kbd_shift = 0, lpt_tx = [], crt_buf = (\<lambda>_. 0),
     crt_pos = 0, rebooted = False\<rparr>"

definition idle_nic :: e1000 where
  "idle_nic = \<lparr>e1000_regs = (\<lambda>_. 0),
     txq = (\<lambda>_. \<lparr>tx_buffer_addr = 0, tx_length = 0, tx_cso = 0, tx_cmd = 0, tx_status = 1,
                 tx_css = 0, tx_special = 0\<rparr>),
     tx_paks = (\<lambda>_ _. 0),
     rxq = (\<lambda>_. \<lparr>rx_buffer_addr = 0, rx_length = 0, rx_csum = 0, rx_status = 0, rx_errors = 0,
                 rx_special = 0\<rparr>),
     rx_paks = (\<lambda>_ _. 0), mac = (\<lambda>_. 0)\<rparr>"

definition small_machine :: kstate where
  "small_machine = \<lparr>npages = 8, npages_basemem = 8, nextfree = 0, mmio_base = MMIOBASE,
     kern_pgdir = kva_of 1 0, pages = small_pages, page_free_list = Some 2,
     user_mem_check_addr = 0, pmem = (\<lambda>_ _. 0), cr3 = 0x1000, tlb = (\<lambda>_. None),
     envs = (\<lambda>_. idle_env), env_free_list = None,
     cpus = (\<lambda>_. \<lparr>cpu_status = CPU_STARTED, cpu_env = None, ts_esp0 = 0\<rparr>),
     cpunum = 0, lock_cpu = Some 0, ticks = 0, cons = idle_console, nic = idle_nic\<rparr>"

lemma small_machine_free: "pages_inv small_machine" "free_pages small_machine = [2, 3]"
  by (rule pages_invI [of small_machine "[2, 3]"];
      auto simp: small_machine_def small_pages_def plink_def)+

lemma umaps_zero: "umaps (\<lambda>_ _. 0) D = {}" "upts (\<lambda>_ _. 0) D = {}" "ptps (\<lambda>_ _. 0) D = {}"
  by (auto simp: umaps_def upts_def ptps_def)

lemma small_machine_vm: "vm_inv {0} {1} (\<lambda>_. 0) small_machine"
proof -
  have m: "pmem small_machine = (\<lambda>_ _. 0)" "npages small_machine = 8"
    "pages small_machine = small_pages"
    by (simp_all add: small_machine_def)
  have "tables_wf 8 (\<lambda>_ _. 0) {1} {2, 3}"
    by (auto simp: tables_wf_def umaps_zero)
  then show ?thesis
    using small_machine_free
    by (auto simp: vm_inv_def m umaps_zero urefs_def small_pages_def)
qed

section \<open>Mapping and unmapping pages\<close>

text \<open>Index triples and page numbers say the same about a user address.\<close>

lemma same_page:
  "(d', unat (PDX b), unat (PTX b)) = (d, unat (PDX a), unat (PTX a)) \<longleftrightarrow> d' = d \<and> PGNUM b = PGNUM a"
  using PDX_PTX_PGNUM [of b a] by (auto simp: word_unat_eq_iff)

lemma page_remove_cases:
  assumes inv: "vm_inv R D X s" and d: "d \<in> D" and va: "va < UTOP"
  obtains t where "page_remove (kva_of d 0) va s = Ret () t" and "vm_inv R D X t" and "vm_frame s t"
    and "free_pages t = (case uvm_at s d va of None \<Rightarrow> free_pages s
           | Some e \<Rightarrow> if pp_ref (pages s (pg e)) = 1 then pg e # free_pages s else free_pages s)"
    and "tlb t = (if uvm_at s d va = None then tlb s else tlb (tlb_invalidate (kva_of d 0) va s))"
    and "\<And>d' va'. d' \<in> D \<Longrightarrow> va' < UTOP \<Longrightarrow> uvm_at t d' va' =
      (if d' = d \<and> PGNUM va' = PGNUM va then None else uvm_at s d' va')"
proof (cases "uvm_at s d va")
  case None
  have n: "uvm_at s d va' = None" if "PGNUM va' = PGNUM va" for va'
    using None that PDX_PTX_PGNUM [of va' va] by (simp add: uvm_at_def)
  show thesis
    by (rule that [OF page_remove_unmapped [OF inv d va None] inv]) (auto simp: None n)
next
  case (Some e)
  show thesis
  proof (rule page_remove_mapped [OF inv d va Some])
    fix t
    assume t: "page_remove (kva_of d 0) va s = Ret () t" "vm_inv R D X t" "vm_frame s t"
      "free_pages t = (if pp_ref (pages s (pg e)) = 1 then pg e # free_pages s else free_pages s)"
      "tlb t = tlb (tlb_invalidate (kva_of d 0) va s)"
      and m: "\<And>d' i' j'. d' \<in> D \<Longrightarrow> i' < UPDX \<Longrightarrow> uvm (pmem t) d' i' j' =
        (if (d', i', j') = (d, unat (PDX va), unat (PTX va)) then None else uvm (pmem s) d' i' j')"
    have u: "uvm_at t d' va' = (if d' = d \<and> PGNUM va' = PGNUM va then None else uvm_at s d' va')"
      if "d' \<in> D" "va' < UTOP" for d' va'
      unfolding uvm_at_def m [OF that(1) PDX_below_UTOP [OF that(2)]] same_page ..
    show thesis by (rule that [OF t(1-3) _ _ u]) (simp_all add: t(4,5) Some)
  qed
qed

text \<open>The small machine with page 4 mapped at address 0x400000.\<close>

lemma small_machine_mapped:
  obtains s e where "vm_inv {0} {1} (\<lambda>_. 0) s" and "uvm_at s 1 0x400000 = Some e" and "curenv s = None"
    and "e = page2pa 4 OR PTE_U OR PTE_P"
proof -
  have u: "0x400000 < UTOP" by (simp add: jos_consts)
  moreover have "mappable {0} {1} small_machine 4" "unat (pp_ref (pages small_machine 4)) < 65535"
    "flags_only PTE_U"
    using small_machine_free
    by (simp_all add: mappable_def small_machine_def umaps_zero small_pages_def)
  ultimately show thesis
  proof (cases rule: page_insert_cases [OF small_machine_vm insertI1, consumes 4])
    case 1
    then show thesis using small_machine_free by simp
  next
    case (2 t)
    then show thesis
      using that [of t] 2(5) [OF insertI1 PDX_below_UTOP [OF u]] vm_frame_fields(5) [OF 2(3)]
      by (simp add: uvm_at_def) (simp add: curenv_def small_machine_def)
  qed
qed

text \<open>
  (C4) \<open>page_insert\<close>: under the paging invariant it either reports that no page is left for a
  missing page table and changes nothing, or it maps exactly the page of \<open>va\<close> in exactly the
  given page directory to the given page with the given permissions, leaves every other user
  mapping of every address space as it was, and keeps the invariant: the reference count of
  every page stays the number of its mappings, also when \<open>va\<close> was mapped before, to another
  page or to the same one.
\<close>

theorem page_insert_correct:
  assumes "vm_inv R D X s" and "d \<in> D" and "va < UTOP"
    and "mappable R D s p" and "unat (pp_ref (pages s p)) < 65535" and "flags_only perm"
  shows "page_insert (kva_of d 0) p va perm s = Ret (- E_NO_MEM) s
           \<and> \<not> present (pde_at s d va) \<and> free_pages s = []
     \<or> (\<exists>t. page_insert (kva_of d 0) p va perm s = Ret 0 t \<and> vm_inv R D X t
           \<and> (\<forall>d' \<in> D. \<forall>va' < UTOP. uvm_at t d' va' =
                (if d' = d \<and> PGNUM va' = PGNUM va then Some (page2pa p OR perm OR PTE_P)
                 else uvm_at s d' va')))"
  using assms
proof (cases rule: page_insert_cases)
  case (inserted t)
  have "uvm_at t d' va' = (if d' = d \<and> PGNUM va' = PGNUM va then Some (page2pa p OR perm OR PTE_P)
      else uvm_at s d' va')" if "d' \<in> D" "va' < UTOP" for d' va'
    unfolding uvm_at_def inserted(5) [OF that(1) PDX_below_UTOP [OF that(2)]] same_page ..
  with inserted(1,2) show ?thesis by blast
qed simp

theorem page_insert_correct_witness:
  "\<exists>t. page_insert (kva_of 1 0) 4 0x400000 (PTE_U OR PTE_W) small_machine = Ret 0 t
     \<and> vm_inv {0} {1} (\<lambda>_. 0) t \<and> uvm_at t 1 0x400123 = Some (page2pa 4 OR (PTE_U OR PTE_W) OR PTE_P)"
proof -
  have "mappable {0} {1} small_machine 4"
    using small_machine_free by (simp add: mappable_def small_machine_def umaps_zero)
  moreover have "unat (pp_ref (pages small_machine 4)) < 65535"
    by (simp add: small_machine_def small_pages_def)
  moreover have "flags_only (PTE_U OR PTE_W)" by (simp add: flags_only_or)
  moreover have ne: "free_pages small_machine \<noteq> []" by (simp add: small_machine_free)
  moreover have eq: "PGNUM 0x400123 = PGNUM 0x400000" by (simp add: word_unat_eq_iff unat_PGNUM)
  moreover have u: "0x400000 < UTOP" "0x400123 < UTOP" by (simp_all add: jos_consts)
  ultimately obtain t where
    "page_insert (kva_of 1 0) 4 0x400000 (PTE_U OR PTE_W) small_machine = Ret 0 t"
    "vm_inv {0} {1} (\<lambda>_. 0) t"
    "\<forall>d' \<in> {1}. \<forall>va' < UTOP. uvm_at t d' va' =
       (if d' = 1 \<and> PGNUM va' = PGNUM 0x400000 then Some (page2pa 4 OR (PTE_U OR PTE_W) OR PTE_P)
        else uvm_at small_machine d' va')"
    using page_insert_correct [OF small_machine_vm insertI1 u(1)] ne by blast
  moreover from this(3) eq u(2) have "uvm_at t 1 0x400123 = Some (page2pa 4 OR (PTE_U OR PTE_W) OR PTE_P)"
    by simp
  ultimately show ?thesis by blast
qed

text \<open>
  (C5) \<open>page_remove\<close>: under the paging invariant it always returns, removes exactly the mapping
  of the page of \<open>va\<close> (and silently does nothing when there is none), keeps every other user
  mapping of every address space and the invariant, and puts the page back on the free list
  exactly when the removed mapping was the last reference to it.
\<close>

theorem page_remove_correct:
  assumes "vm_inv R D X s" and "d \<in> D" and "va < UTOP"
  shows "\<exists>t. page_remove (kva_of d 0) va s = Ret () t \<and> vm_inv R D X t
     \<and> (\<forall>d' \<in> D. \<forall>va' < UTOP. uvm_at t d' va' =
          (if d' = d \<and> PGNUM va' = PGNUM va then None else uvm_at s d' va'))
     \<and> free_pages t = (case uvm_at s d va of None \<Rightarrow> free_pages s
          | Some e \<Rightarrow> if pp_ref (pages s (pg e)) = 1 then pg e # free_pages s else free_pages s)"
  by (rule page_remove_cases [OF assms]) blast

theorem page_remove_correct_witness:
  "\<exists>s t e. vm_inv {0} {1} (\<lambda>_. 0) s \<and> uvm_at s 1 0x400000 = Some e
     \<and> page_remove (kva_of 1 0) 0x400000 s = Ret () t \<and> uvm_at t 1 0x400000 = None"
proof -
  obtain s e where s: "vm_inv {0} {1} (\<lambda>_. 0) s" "uvm_at s 1 0x400000 = Some e"
    by (rule small_machine_mapped)
  have u: "0x400000 < UTOP" by (simp add: jos_consts)
  obtain t where "page_remove (kva_of 1 0) 0x400000 s = Ret () t"
    "\<forall>d' \<in> {1}. \<forall>va' < UTOP. uvm_at t d' va' =
       (if d' = 1 \<and> PGNUM va' = PGNUM 0x400000 then None else uvm_at s d' va')"
    using page_remove_correct [OF s(1) insertI1 u] by blast
  moreover from this(2) u have "uvm_at t 1 0x400000 = None" by simp
  ultimately show ?thesis using s by blast
qed

section \<open>The translation cache\<close>

text \<open>
  The executing CPU uses page directory \<open>a\<close>: \<open>env_run\<close> loads \<open>%cr3\<close> with the directory of
  the environment it makes current, and before that no user directory is loaded.
\<close>

definition active :: "kstate \<Rightarrow> nat \<Rightarrow> bool" where
  "active s a \<longleftrightarrow> (case curenv s of None \<Rightarrow> True | Some e \<Rightarrow> env_pgdir (envs s e) = kva_of a 0)"

text \<open>Every cached translation of a user page is the one in the page tables.\<close>

definition tlb_coherent :: "kstate \<Rightarrow> nat \<Rightarrow> bool" where
  "tlb_coherent s a \<longleftrightarrow>
     (\<forall>va < UTOP. \<forall>e. tlb s (unat (PGNUM va)) = Some e \<longrightarrow> uvm_at s a va = Some e)"

lemma tlb_invalidate_active:
  "active s a \<Longrightarrow> tlb (tlb_invalidate (kva_of a 0) va s) = (tlb s)(unat (PGNUM va) := None)"
  by (simp add: active_def tlb_invalidate_def invlpg_def split: option.splits)

lemma tlb_invalidate_mono:
  "tlb (tlb_invalidate pgdir va s) n = Some e \<Longrightarrow> tlb s n = Some e"
  by (auto simp: tlb_invalidate_def invlpg_def split: option.splits if_splits)

text \<open>
  An update of the page of \<open>va\<close> in directory \<open>d\<close> keeps the cache coherent when the stale
  translation is dropped.
\<close>

lemma coherent_update:
  assumes co: "tlb_coherent s a" and ac: "active s a" and a: "a \<in> D"
    and tl: "tlb t = (if uvm_at s d va = None then tlb s else tlb (tlb_invalidate (kva_of d 0) va s))"
    and m: "\<And>d' va'. d' \<in> D \<Longrightarrow> va' < UTOP \<Longrightarrow> uvm_at t d' va' =
      (if d' = d \<and> PGNUM va' = PGNUM va then v else uvm_at s d' va')"
  shows "tlb_coherent t a"
  unfolding tlb_coherent_def
proof (intro allI impI)
  fix va' e assume b: "va' < UTOP" and e: "tlb t (unat (PGNUM va')) = Some e"
  then have "tlb s (unat (PGNUM va')) = Some e"
    using tl by (auto dest: tlb_invalidate_mono split: if_splits)
  with co b have old: "uvm_at s a va' = Some e" by (simp add: tlb_coherent_def)
  have "\<not> (a = d \<and> PGNUM va' = PGNUM va)"
  proof
    assume eq: "a = d \<and> PGNUM va' = PGNUM va"
    then have "uvm_at s d va = Some e"
      using old PDX_PTX_PGNUM [of va' va] by (simp add: uvm_at_def)
    with tl eq have "tlb t (unat (PGNUM va')) = None"
      using tlb_invalidate_active [OF ac, of va] by simp
    with e show False by simp
  qed
  with m [OF a b] old show "uvm_at t a va' = Some e" by simp
qed

text \<open>
  (C6) TLB coherence: as long as the current environment's directory is the active one, no
  call of \<open>page_insert\<close> or \<open>page_remove\<close>, on any address space, leaves a stale translation in
  the cache: if every cached user translation agrees with the page tables before the call, it
  does so after it.
\<close>

theorem tlb_coherence:
  assumes "vm_inv R D X s" and "d \<in> D" and "va < UTOP" and "a \<in> D"
    and "active s a" and "tlb_coherent s a"
  shows "(\<forall>t. page_remove (kva_of d 0) va s = Ret () t \<longrightarrow> tlb_coherent t a)
    \<and> (\<forall>p perm r t. mappable R D s p \<and> unat (pp_ref (pages s p)) < 65535 \<and> flags_only perm
         \<and> page_insert (kva_of d 0) p va perm s = Ret r t \<longrightarrow> tlb_coherent t a)"
proof (intro conjI allI impI; (elim conjE)?)
  fix t
  assume t: "page_remove (kva_of d 0) va s = Ret () t"
  show "tlb_coherent t a"
    by (rule page_remove_cases [OF assms(1-3)])
       (rule coherent_update [OF assms(6,5,4)], use t in auto)
next
  fix p perm r t
  assume t: "page_insert (kva_of d 0) p va perm s = Ret r t"
    and p: "mappable R D s p" "unat (pp_ref (pages s p)) < 65535" "flags_only perm"
  show "tlb_coherent t a"
    using assms(1-3) p
  proof (cases rule: page_insert_cases)
    case no_mem
    then show ?thesis using t assms(6) by simp
  next
    case (inserted u)
    have "uvm_at u d' va' = (if d' = d \<and> PGNUM va' = PGNUM va then Some (page2pa p OR perm OR PTE_P)
        else uvm_at s d' va')" if "d' \<in> D" "va' < UTOP" for d' va'
      unfolding uvm_at_def inserted(5) [OF that(1) PDX_below_UTOP [OF that(2)]] same_page ..
    from coherent_update [OF assms(6,5,4) inserted(4) this] show ?thesis
      using t inserted(1) by simp
  qed
qed

theorem tlb_coherence_witness:
  "\<exists>s t e. vm_inv {0} {1} (\<lambda>_. 0) s \<and> uvm_at s 1 0x400000 = Some e \<and> tlb s 0x400 = Some e
     \<and> page_remove (kva_of 1 0) 0x400000 s = Ret () t \<and> tlb_coherent t 1 \<and> tlb t 0x400 = None"
proof -
  obtain s0 e where s0: "vm_inv {0} {1} (\<lambda>_. 0) s0" "uvm_at s0 1 0x400000 = Some e" "curenv s0 = None"
    by (rule small_machine_mapped)
  define s where "s = s0\<lparr>tlb := (\<lambda>_. None)(0x400 := Some e)\<rparr>"
  have u: "0x400000 < UTOP" by (simp add: jos_consts)
  have n: "unat (PGNUM 0x400000) = 0x400" by (simp add: unat_PGNUM)
  have at: "uvm_at s d va = uvm_at s0 d va" for d va by (simp add: s_def uvm_at_def)
  have s: "vm_inv {0} {1} (\<lambda>_. 0) s" "active s 1" "uvm_at s 1 0x400000 = Some e"
    using s0 by (simp_all add: s_def active_def curenv_def uvm_at_def)
  have "uvm_at s 1 va = Some e" if "unat (PGNUM va) = 0x400" for va
  proof -
    have "PGNUM va = PGNUM 0x400000" using that n by (simp add: word_unat_eq_iff)
    then show ?thesis using s(3) PDX_PTX_PGNUM [of va "0x400000"] by (simp add: uvm_at_def)
  qed
  then have co: "tlb_coherent s 1" by (auto simp: tlb_coherent_def s_def at split: if_splits)
  obtain t where t: "page_remove (kva_of 1 0) 0x400000 s = Ret () t"
    "tlb t = (if uvm_at s 1 0x400000 = None then tlb s else tlb (tlb_invalidate (kva_of 1 0) 0x400000 s))"
    by (rule page_remove_cases [OF s(1) insertI1 u]) (rule that)
  have "tlb t 0x400 = None" using t(2) s(3) tlb_invalidate_active [OF s(2), of "0x400000"] n by simp
  then show ?thesis
    using tlb_coherence [OF s(1) insertI1 u insertI1 s(2) co] s t(1)
    by (intro exI [of _ s] exI [of _ t] exI [of _ e]) (simp add: s_def)
qed

section \<open>Initialisation of the allocator\<close>

abbreviation free_at_boot :: "u32 \<Rightarrow> u32 \<Rightarrow> u32 \<Rightarrow> nat \<Rightarrow> nat list" where
  "free_at_boot basemem io used n \<equiv>
     rev (filter (\<lambda>i. \<not> page_in_use basemem io used (of_nat i)) [0..<n])"

lemma page_init_fold:
  assumes "\<And>i. pp_link (pages s i) = None" and "page_free_list s = None"
    and "t = fold (page_init_step io used) [0..<n] s"
  shows "linked (plink t) (page_free_list t) (free_at_boot (npages_basemem s) io used n)
    \<and> (\<forall>i. i \<notin> set (free_at_boot (npages_basemem s) io used n) \<longrightarrow> pp_link (pages t i) = None)
    \<and> (\<forall>i < n. pp_ref (pages t i) =
          (if page_in_use (npages_basemem s) io used (of_nat i) then 1 else 0))
    \<and> npages t = npages s \<and> npages_basemem t = npages_basemem s"
  using assms(3)
proof (induction n arbitrary: t)
  case 0
  with assms(1,2) show ?case by simp
next
  case (Suc n)
  define u where "u = fold (page_init_step io used) [0..<n] s"
  let ?xs = "free_at_boot (npages_basemem s) io used n"
  have u: "linked (plink u) (page_free_list u) ?xs"
    "\<And>i. i \<notin> set ?xs \<Longrightarrow> pp_link (pages u i) = None"
    "\<And>i. i < n \<Longrightarrow> pp_ref (pages u i) =
       (if page_in_use (npages_basemem s) io used (of_nat i) then 1 else 0)"
    using Suc.IH [OF u_def] by simp_all
  have bm: "npages_basemem u = npages_basemem s" "npages u = npages s" using Suc.IH [OF u_def] by simp_all
  have t: "t = page_init_step io used n u" using Suc.prems by (simp add: u_def)
  have fr: "npages t = npages s \<and> npages_basemem t = npages_basemem s"
    by (simp add: t page_init_step_def bm)
  show ?case
  proof (cases "page_in_use (npages_basemem s) io used (of_nat n)")
    case True
    then have te: "t = u\<lparr>pages := (pages u)(n := (pages u n)\<lparr>pp_ref := 1\<rparr>)\<rparr>"
      by (simp add: t page_init_step_def bm)
    then have "plink t = plink u" by (auto simp: plink_def)
    with te u True fr show ?thesis by (auto simp: less_Suc_eq)
  next
    case False
    then have te: "t = u\<lparr>pages := (pages u)(n := (pages u n)\<lparr>pp_ref := 0, pp_link := page_free_list u\<rparr>),
        page_free_list := Some n\<rparr>"
      by (simp add: t page_init_step_def bm)
    have "linked (plink t) (page_free_list u) ?xs \<longleftrightarrow> linked (plink u) (page_free_list u) ?xs"
      by (intro linked_cong) (auto simp: te plink_def)
    with u(1) have "linked (plink t) (Some n) (n # ?xs)" by (simp add: te plink_def)
    with te u(2,3) False fr show ?thesis by (auto simp: less_Suc_eq)
  qed
qed

text \<open>Which pages \<open>page_init\<close> keeps back, over natural numbers.\<close>

lemma page_in_use_nat:
  assumes "i < 65536" and "unat basemem \<le> 160" and "unat used < 1048576"
  shows "page_in_use basemem 96 used (of_nat i) \<longleftrightarrow>
    i = 0 \<or> i = 7 \<or> unat basemem \<le> i \<and> i < unat basemem + 96 + unat used"
proof -
  have i: "unat (of_nat i :: u32) = i" using assms(1) by (simp add: unat_of_nat)
  have b: "unat (basemem + 96) = unat basemem + 96"
    "unat (basemem + 96 + used) = unat basemem + 96 + unat used"
    using assms(2,3) by (simp_all add: unat_word_ariths)
  have "(of_nat i :: u32) = 0 \<longleftrightarrow> i = 0" "(of_nat i :: u32) = 7 \<longleftrightarrow> i = 7"
    using i by (auto simp: word_unat_eq_iff)
  then show ?thesis
    by (auto simp: page_in_use_def word_le_nat_alt word_less_nat_alt i b jos_consts)
qed

text \<open>
  (C9) \<open>page_init\<close>: on a zeroed \<open>pages\<close> array it returns with the allocator's invariant
  established. Every page is either on the free list with reference count 0 or kept back with
  reference count 1, and the free list holds no page that is in use at boot: not page 0, not
  the entry code of the other CPUs, not the hole for I/O, and nothing that the kernel image or
  \<open>boot_alloc\<close> occupies, whatever the base memory (at most 640 kB) is.
\<close>

theorem page_init_correct:
  assumes n: "unat (npages s) \<le> 65536" and z: "\<And>i. pp_link (pages s i) = None"
    and bm: "unat (npages_basemem s) \<le> 160"
    and nf: "KERNBASE + EXTPHYSMEM \<le> nextfree s"
  shows "\<exists>t. page_init kend s = Ret () t \<and> pages_inv t
    \<and> (\<forall>i < unat (npages s). pp_ref (pages t i) = (if i \<in> set (free_pages t) then 0 else 1))
    \<and> (\<forall>i < unat (npages s). i \<in> set (free_pages t) \<longleftrightarrow> i \<noteq> 0 \<and> i \<noteq> unat (MPENTRY_PADDR div PGSIZE)
         \<and> (i < unat (npages_basemem s)
            \<or> unat (npages_basemem s) + 96 + unat ((nextfree s - KERNBASE) div PGSIZE) \<le> i))
    \<and> (\<forall>i \<in> set (free_pages t). i * 4096 < unat IOPHYSMEM \<or> unat (nextfree s - KERNBASE) \<le> i * 4096)"
proof -
  let ?used = "(nextfree s - KERNBASE) div PGSIZE" and ?s = "s\<lparr>page_free_list := None\<rparr>"
  let ?n = "unat (npages s)" and ?b = "npages_basemem s"
  define t where "t = fold (page_init_step 96 ?used) [0..<?n] ?s"
  have nz: "nextfree s \<noteq> 0" using nf by (auto simp: jos_consts)
  have io: "(EXTPHYSMEM - IOPHYSMEM) div PGSIZE = 96" by (simp add: jos_consts)
  have run: "page_init kend s = Ret () t"
    using nz by (simp add: page_init_def boot_alloc_def t_def io Let_def)
  have F: "linked (plink t) (page_free_list t) (free_at_boot ?b 96 ?used ?n)"
    "\<And>i. i \<notin> set (free_at_boot ?b 96 ?used ?n) \<Longrightarrow> pp_link (pages t i) = None"
    "\<And>i. i < ?n \<Longrightarrow> pp_ref (pages t i) = (if page_in_use ?b 96 ?used (of_nat i) then 1 else 0)"
    and te: "npages t = npages s"
    using page_init_fold [of ?s t 96 ?used ?n, OF _ _ t_def] z by auto
  have inv: "pages_inv t" "free_pages t = free_at_boot ?b 96 ?used ?n"
    by (rule pages_invI [of t "free_at_boot ?b 96 ?used ?n"]; use F(1,2,3) n te in auto)+
  have ub: "unat ?used < 1048576" using u32_less [of "nextfree s - KERNBASE"]
    by (simp add: unat_div jos_consts less_mult_imp_div_less)
  have mem: "i \<in> set (free_pages t) \<longleftrightarrow> i \<noteq> 0 \<and> i \<noteq> 7
      \<and> (i < unat ?b \<or> unat ?b + 96 + unat ?used \<le> i)" if "i < ?n" for i
    using page_in_use_nat [OF _ bm ub, of i] that n by (auto simp: inv(2))
  have refs: "pp_ref (pages t i) = (if i \<in> set (free_pages t) then 0 else 1)" if "i < ?n" for i
    using F(3) [OF that] that by (auto simp: inv(2))
  have u1: "unat (nextfree s - KERNBASE) < (unat ?used + 1) * 4096"
    by (simp add: unat_div jos_consts)
  have safe: "i * 4096 < unat IOPHYSMEM \<or> unat (nextfree s - KERNBASE) \<le> i * 4096"
    if "i \<in> set (free_pages t)" for i
  proof -
    have "i < ?n" using pages_invD(3) [OF inv(1) that] te by simp
    with that mem have "i < unat ?b \<or> unat ?b + 96 + unat ?used \<le> i" by blast
    then show ?thesis
    proof
      assume "i < unat ?b"
      with bm have "i * 4096 < 655360" by simp
      then show ?thesis by (simp add: jos_consts)
    next
      assume "unat ?b + 96 + unat ?used \<le> i"
      then have "(unat ?used + 1) * 4096 \<le> i * 4096" by simp
      with u1 show ?thesis by linarith
    qed
  qed
  have "unat (MPENTRY_PADDR div PGSIZE) = 7" by (simp add: jos_consts)
  with run inv(1) refs mem safe show ?thesis by (intro exI [of _ t]) simp
qed

theorem page_init_correct_witness:
  "\<exists>t. page_init 0 (small_machine\<lparr>pages := (\<lambda>_. \<lparr>pp_link = None, pp_ref = 0\<rparr>), nextfree := 0xF0100000\<rparr>)
     = Ret () t \<and> pages_inv t \<and> 3 \<in> set (free_pages t) \<and> 7 \<notin> set (free_pages t)"
proof -
  let ?s = "small_machine\<lparr>pages := (\<lambda>_. \<lparr>pp_link = None, pp_ref = 0\<rparr>), nextfree := 0xF0100000\<rparr>"
  have f: "unat (npages ?s) = 8" "unat (npages_basemem ?s) = 8" "nextfree ?s = 0xF0100000"
    by (simp_all add: small_machine_def)
  have h: "unat (npages ?s) \<le> 65536" "\<And>i. pp_link (pages ?s i) = None"
    "unat (npages_basemem ?s) \<le> 160" "KERNBASE + EXTPHYSMEM \<le> nextfree ?s"
    by (simp_all add: small_machine_def jos_consts)
  have m: "unat (MPENTRY_PADDR div PGSIZE) = 7" by (simp add: jos_consts)
  obtain t where t: "page_init 0 ?s = Ret () t" "pages_inv t"
    "\<forall>i < unat (npages ?s). i \<in> set (free_pages t) \<longleftrightarrow> i \<noteq> 0 \<and> i \<noteq> unat (MPENTRY_PADDR div PGSIZE)
       \<and> (i < unat (npages_basemem ?s)
          \<or> unat (npages_basemem ?s) + 96 + unat ((nextfree ?s - KERNBASE) div PGSIZE) \<le> i)"
    using page_init_correct [of ?s 0, OF h] by blast
  have "3 \<in> set (free_pages t)" "7 \<notin> set (free_pages t)"
    using t(3) by (simp_all only: f m) simp_all
  with t(1,2) show ?thesis by blast
qed

section \<open>Checking user memory\<close>

text \<open>A user address whose page is mapped with all the bits of \<open>perm\<close> (and PTE_P).\<close>

definition accessible :: "kstate \<Rightarrow> nat \<Rightarrow> u32 \<Rightarrow> u32 \<Rightarrow> bool" where
  "accessible s d perm va \<longleftrightarrow>
     (case uvm_at s d va of None \<Rightarrow> False | Some e \<Rightarrow> e OR perm OR PTE_P = e)"

lemma accessible_page: "PGNUM a = PGNUM b \<Longrightarrow> accessible s d perm a = accessible s d perm b"
  using PDX_PTX_PGNUM [of a b] by (simp add: accessible_def uvm_at_def)

lemma accessible_upd [simp]:
  "accessible (s\<lparr>user_mem_check_addr := a\<rparr>) d perm va = accessible s d perm va"
  by (simp add: accessible_def uvm_at_def)

lemma vm_inv_check_addr [simp]: "vm_inv R D X (s\<lparr>user_mem_check_addr := a\<rparr>) = vm_inv R D X s"
  using pages_inv_cong [of "s\<lparr>user_mem_check_addr := a\<rparr>" s] by (simp add: vm_inv_def)

lemma present_mask: "e OR perm OR PTE_P = e \<Longrightarrow> present e"
  using present_or [of "e OR perm" PTE_P] by (simp add: or.assoc)

lemma PGNUM_ROUNDDOWN: "PGNUM (ROUNDDOWN a PGSIZE) = PGNUM a"
  by (simp add: word_unat_eq_iff unat_PGNUM unat_ROUNDDOWN PGSIZE_def minus_mod_eq_div_mult)

text \<open>One iteration looks at the page of its address.\<close>

lemma check_walk:
  assumes inv: "vm_inv R D X s" and d: "d \<in> D" and va: "va < UTOP"
  obtains pte where "pgdir_walk (kva_of d 0) va False s = Ret pte s"
    and "(case pte of None \<Rightarrow> True | Some pte \<Rightarrow> kload s pte OR perm OR PTE_P \<noteq> kload s pte)
      \<longleftrightarrow> \<not> accessible s d perm va"
proof (cases "present (pmem s d (unat (PDX va)))")
  case False
  from that [OF walk_absent [OF inv d va this]] False show thesis
    by (simp add: accessible_def uvm_at_def uvm_def)
next
  case True
  let ?tp = "pg (pmem s d (unat (PDX va)))"
  have "kload s (kva_of ?tp (unat (PTX va))) = pmem s ?tp (unat (PTX va))"
    using unat_PTX_bound pg_bound by (simp add: kload_kva_of)
  moreover have "pmem s ?tp (unat (PTX va)) OR perm OR PTE_P = pmem s ?tp (unat (PTX va))
      \<longleftrightarrow> accessible s d perm va"
    using True present_mask [of "pmem s ?tp (unat (PTX va))" perm]
    by (auto simp: accessible_def uvm_at_def uvm_def)
  ultimately show thesis
    using that [OF walk_present [OF inv d va True]] by simp
qed

lemma check_iter:
  assumes inv: "vm_inv R D X s" and d: "d \<in> D" and lim: "limit \<le> UTOP" "user_mem_check_addr s < limit"
  shows "user_mem_check_loop (kva_of d 0) start limit perm s =
    (if accessible s d perm (user_mem_check_addr s)
     then user_mem_check_loop (kva_of d 0) start limit perm
            (s\<lparr>user_mem_check_addr := user_mem_check_addr s + PGSIZE\<rparr>)
     else Ret (- E_FAULT) (s\<lparr>user_mem_check_addr :=
            (if user_mem_check_addr s \<noteq> start then ROUNDDOWN (user_mem_check_addr s) PGSIZE
             else user_mem_check_addr s)\<rparr>))"
proof -
  let ?addr = "user_mem_check_addr s"
  let ?va = "ROUNDDOWN ?addr PGSIZE"
  have au: "?addr < UTOP" using lim by simp
  then have "?va < UTOP" using ROUNDDOWN_le [of ?addr PGSIZE] by simp
  then obtain pte where pte: "pgdir_walk (kva_of d 0) ?va False s = Ret pte s"
    "(case pte of None \<Rightarrow> True | Some pte \<Rightarrow> kload s pte OR perm OR PTE_P \<noteq> kload s pte)
      \<longleftrightarrow> \<not> accessible s d perm ?va"
    using check_walk [OF inv d] by blast
  have acc: "accessible s d perm ?va = accessible s d perm ?addr"
    by (rule accessible_page [OF PGNUM_ROUNDDOWN])
  have ul: "\<not> ULIM \<le> ?addr" using au by (simp add: jos_consts word_less_nat_alt word_le_nat_alt)
  show ?thesis
    using lim(2) pte acc ul by (subst user_mem_check_loop.simps) (simp add: Let_def)
qed

text \<open>The address the loop reports is the first one that fails.\<close>

lemma check_fault_addr:
  assumes pos: "addr = start \<or> PGNUM start < PGNUM addr"
    and a: "a = (if addr \<noteq> start then ROUNDDOWN addr PGSIZE else addr)"
  shows "start \<le> a" and "a \<le> addr" and "PGNUM a = PGNUM addr"
    and "start \<le> b \<Longrightarrow> b < a \<Longrightarrow> PGNUM b < PGNUM addr"
proof -
  have u: "unat a = (if addr \<noteq> start then unat addr div 4096 * 4096 else unat addr)"
    by (simp add: a unat_ROUNDDOWN_mult PGSIZE_def)
  show "start \<le> a"
    using pos by (auto simp: word_le_nat_alt word_less_nat_alt u unat_PGNUM div_less_iff_less_mult
        intro: less_imp_le)
  show "a \<le> addr" "PGNUM a = PGNUM addr"
    using ROUNDDOWN_le [of addr PGSIZE] PGNUM_ROUNDDOWN [of addr] by (simp_all add: a)
  show "PGNUM b < PGNUM addr" if "start \<le> b" "b < a"
    using that by (auto simp: word_less_nat_alt word_le_nat_alt u unat_PGNUM less_mult_imp_div_less
        split: if_splits)
qed

abbreviation check_outcome :: "nat \<Rightarrow> u32 \<Rightarrow> u32 \<Rightarrow> u32 \<Rightarrow> kstate \<Rightarrow> int kres \<Rightarrow> bool" where
  "check_outcome d start limit perm s r \<equiv>
     (\<exists>t. r = Ret 0 (s\<lparr>user_mem_check_addr := t\<rparr>)
        \<and> (\<forall>b. start \<le> b \<and> b < limit \<longrightarrow> accessible s d perm b))
     \<or> (\<exists>a. r = Ret (- E_FAULT) (s\<lparr>user_mem_check_addr := a\<rparr>)
        \<and> start \<le> a \<and> a < limit \<and> \<not> accessible s d perm a
        \<and> (\<forall>b. start \<le> b \<and> b < a \<longrightarrow> accessible s d perm b))"

lemma check_loop:
  assumes d: "d \<in> D" and lim: "unat limit = L * 4096" "limit \<le> UTOP"
    and "vm_inv R D X s"
    and "user_mem_check_addr s = start \<or> PGNUM start < PGNUM (user_mem_check_addr s)"
    and "\<And>b. start \<le> b \<Longrightarrow> PGNUM b < PGNUM (user_mem_check_addr s) \<Longrightarrow> accessible s d perm b"
    and "L \<le> unat (user_mem_check_addr s) div 4096 + n"
  shows "check_outcome d start limit perm s (user_mem_check_loop (kva_of d 0) start limit perm s)"
  using assms(4-7)
proof (induction n arbitrary: s)
  case (0 s)
  let ?addr = "user_mem_check_addr s"
  have below: "PGNUM b < PGNUM ?addr" if "b < limit" for b
  proof -
    have "unat b div 4096 < L" using that lim(1) by (simp add: word_less_nat_alt less_mult_imp_div_less)
    with 0(4) show ?thesis by (simp add: word_less_nat_alt unat_PGNUM)
  qed
  then have "\<not> ?addr < limit" by blast
  with below 0(3) show ?case
    by (intro disjI1 exI [of _ ?addr]) (simp add: user_mem_check_loop.simps)
next
  case (Suc n s)
  let ?addr = "user_mem_check_addr s"
  let ?a = "if ?addr \<noteq> start then ROUNDDOWN ?addr PGSIZE else ?addr"
  note inv = Suc.prems(1) and pos = Suc.prems(2) and old = Suc.prems(3) and n = Suc.prems(4)
  consider "\<not> ?addr < limit" | "?addr < limit" "\<not> accessible s d perm ?addr"
    | "?addr < limit" "accessible s d perm ?addr" by blast
  then show ?case
  proof cases
    case 1
    have "PGNUM b < PGNUM ?addr" if "b < limit" for b
    proof -
      have "unat b div 4096 < L" using that lim(1) by (simp add: word_less_nat_alt less_mult_imp_div_less)
      moreover have "L \<le> unat ?addr div 4096"
        using 1 lim(1) by (simp add: word_less_nat_alt less_eq_div_iff_mult_less_eq)
      ultimately show ?thesis by (simp add: word_less_nat_alt unat_PGNUM)
    qed
    with 1 old show ?thesis
      by (intro disjI1 exI [of _ ?addr]) (simp add: user_mem_check_loop.simps)
  next
    case 2
    note F = check_fault_addr [OF pos, of ?a, OF refl]
    have "accessible s d perm b" if "start \<le> b" "b < ?a" for b
      using F(4) [OF that] old that by blast
    moreover have "\<not> accessible s d perm ?a" using accessible_page [OF F(3)] 2 by blast
    ultimately show ?thesis
      using check_iter [OF inv d lim(2) 2(1), of start perm] 2 F(1,2)
      by (intro disjI2 exI [of _ ?a]) auto
  next
    case 3
    let ?s = "s\<lparr>user_mem_check_addr := ?addr + PGSIZE\<rparr>"
    have au: "?addr < UTOP" using 3 lim(2) by simp
    then have step: "unat (?addr + PGSIZE) div 4096 = unat ?addr div 4096 + 1"
      by (simp add: unat_word_ariths jos_consts word_less_nat_alt)
    have "accessible s d perm b" if "start \<le> b" "PGNUM b < PGNUM (?addr + PGSIZE)" for b
    proof (cases "PGNUM b < PGNUM ?addr")
      case False
      with that step have "PGNUM b = PGNUM ?addr"
        by (simp add: word_less_nat_alt word_unat_eq_iff unat_PGNUM)
      with 3 accessible_page show ?thesis by blast
    qed (use old that in blast)
    moreover have "PGNUM start < PGNUM (?addr + PGSIZE)"
      using pos step by (auto simp: word_less_nat_alt unat_PGNUM)
    ultimately show ?thesis
      using Suc.IH [of ?s] inv n step 3 check_iter [OF inv d lim(2) 3(1), of start perm] by simp
  qed
qed

text \<open>
  (C10) \<open>user_mem_check\<close>: for a range below UTOP it always returns, and it returns 0 exactly
  when every byte of the range (rounded up to a page boundary) lies on a page that the
  environment has mapped with the requested permissions; otherwise it returns \<open>-E_FAULT\<close> and
  leaves in \<open>user_mem_check_addr\<close> the first address of the range that is not accessible.
\<close>

theorem user_mem_check_correct:
  assumes inv: "vm_inv R D X s" and d: "d \<in> D" and e: "env_pgdir (envs s e) = kva_of d 0"
    and r: "unat va + unat len \<le> unat UTOP"
  shows "check_outcome d va (ROUNDUP (va + len) PGSIZE) perm s (user_mem_check e va len perm s)
    \<and> unat va + unat len \<le> unat (ROUNDUP (va + len) PGSIZE)"
proof -
  let ?s = "s\<lparr>user_mem_check_addr := va\<rparr>" and ?l = "ROUNDUP (va + len) PGSIZE"
  have u: "unat (va + len) = unat va + unat len"
    using r by (intro unat_add_no_wrap) (simp add: jos_consts)
  have l: "unat ?l = (unat va + unat len + 4095) div 4096 * 4096"
    using r by (simp add: unat_ROUNDUP u PGSIZE_def UTOP_def UENVS_def UPAGES_def UVPT_def ULIM_def MMIOLIM_def jos_consts)
  have lu: "?l \<le> UTOP"
    using r by (simp add: word_le_nat_alt l) (simp add: jos_consts)
  have "check_outcome d va ?l perm ?s (user_mem_check_loop (kva_of d 0) va ?l perm ?s)"
  proof (rule check_loop [OF d l lu, of R X])
    show "accessible ?s d perm b" if "va \<le> b" "PGNUM b < PGNUM (user_mem_check_addr ?s)" for b
      using that div_le_mono [of "unat va" "unat b" 4096]
      by (simp add: word_le_nat_alt word_less_nat_alt unat_PGNUM)
    show "(unat va + unat len + 4095) div 4096 \<le> unat (user_mem_check_addr ?s) div 4096
        + (unat va + unat len + 4095) div 4096" by simp
  qed (use inv in simp_all)
  then have "check_outcome d va ?l perm s (user_mem_check_loop (kva_of d 0) va ?l perm ?s)"
    by simp
  moreover have "unat va + unat len \<le> unat ?l" unfolding l by linarith
  ultimately show ?thesis by (simp add: user_mem_check_def e)
qed

theorem user_mem_check_correct_witness:
  "\<exists>s t. vm_inv {0} {1} (\<lambda>_. 0) s \<and> env_pgdir (envs s 0) = kva_of 1 0
    \<and> user_mem_check 0 0x400800 0x800 PTE_U s = Ret 0 t"
proof -
  obtain s0 e where s0: "vm_inv {0} {1} (\<lambda>_. 0) s0" "uvm_at s0 1 0x400000 = Some e"
    "curenv s0 = None" "e = page2pa 4 OR PTE_U OR PTE_P"
    by (rule small_machine_mapped)
  let ?s = "s0\<lparr>envs := (\<lambda>_. idle_env\<lparr>env_pgdir := kva_of 1 0\<rparr>)\<rparr>"
  have v: "vm_inv {0} {1} (\<lambda>_. 0) ?s"
    using s0(1) pages_inv_cong [of ?s s0] by (simp add: vm_inv_def)
  have l: "ROUNDUP (0x400800 + 0x800) PGSIZE = 0x401000"
    by (simp add: ROUNDUP_def ROUNDDOWN_def PGSIZE_def)
  have "e OR PTE_U OR PTE_P = e" unfolding s0(4) by (simp add: or.assoc jos_consts)
  then have "accessible ?s 1 PTE_U 0x400000" using s0(2) by (simp add: accessible_def uvm_at_def)
  moreover have "PGNUM a = PGNUM 0x400000" if "0x400800 \<le> a" "a < 0x401000" for a
    using that by (simp add: word_unat_eq_iff unat_PGNUM word_le_nat_alt word_less_nat_alt)
  ultimately have "accessible ?s 1 PTE_U a" if "0x400800 \<le> a" "a < 0x401000" for a
    using that accessible_page by blast
  moreover have "check_outcome 1 0x400800 0x401000 PTE_U ?s (user_mem_check 0 0x400800 0x800 PTE_U ?s)"
    using user_mem_check_correct [OF v insertI1, of 0 "0x400800" "0x800" PTE_U]
    unfolding l by (simp add: jos_consts)
  ultimately obtain t where "user_mem_check 0 0x400800 0x800 PTE_U ?s = Ret 0 t" by blast
  with v show ?thesis by (intro exI [of _ ?s] exI [of _ t]) simp
qed

text \<open>
  A range that wraps around the address space escapes \<open>user_mem_check\<close>: the end of the
  range is computed modulo \<open>2 ^ 32\<close>, and when the rounded end lies at or below its start no
  page is looked at and access is granted, whatever is mapped and whatever is asked.
\<close>

theorem user_mem_check_wraps:
  assumes "ROUNDUP (va + len) PGSIZE \<le> va"
  shows "user_mem_check e va len perm s = Ret 0 (s\<lparr>user_mem_check_addr := va\<rparr>)"
  using assms by (simp add: user_mem_check_def user_mem_check_loop.simps leD)

theorem user_mem_check_wraps_witness:
  "user_mem_check 0 0xF0100000 0x0FF00000 (PTE_U OR PTE_W) small_machine
     = Ret 0 (small_machine\<lparr>user_mem_check_addr := 0xF0100000\<rparr>) \<and> ULIM < 0xF0100000"
proof -
  have "ROUNDUP (0xF0100000 + 0x0FF00000) PGSIZE \<le> 0xF0100000"
    by (simp add: ROUNDUP_def ROUNDDOWN_def jos_consts)
  from user_mem_check_wraps [OF this] show ?thesis by (simp add: jos_consts)
qed

end
