(* ===== verification/Bytes.thy ===== *)
theory Bytes
  imports Jos_Prelude
begin

text \<open>
  The bytes of a 32-bit word, least significant first, as the processor stores them: reading
  and replacing one byte, and the round trip between a word and its four bytes.
\<close>

section \<open>Bytes of words\<close>

definition get_byte :: "u32 \<Rightarrow> nat \<Rightarrow> u8" where
  "get_byte w k = ucast (drop_bit (8 * k) w)"

definition put_byte :: "u32 \<Rightarrow> nat \<Rightarrow> u8 \<Rightarrow> u32" where
  "put_byte w k b = (w AND NOT (push_bit (8 * k) 0xFF)) OR push_bit (8 * k) (ucast b)"

lemma bit_FF: "bit (0xFF :: int) n \<longleftrightarrow> n < 8"
proof -
  have m: "(0xFF :: int) = mask 8" by (simp add: mask_eq_exp_minus_1)
  show ?thesis unfolding m bit_mask_iff by auto
qed

lemma bit_get_byte: "bit (get_byte w k) n \<longleftrightarrow> n < 8 \<and> bit w (8 * k + n)"
  by (auto simp: get_byte_def bit_simps add.commute)

lemma bit_put_byte:
  "k < 4 \<Longrightarrow> n < 32 \<Longrightarrow> bit (put_byte w k b) n \<longleftrightarrow>
    (if 8 * k \<le> n \<and> n < 8 * k + 8 then bit b (n - 8 * k) else bit w n)"
  by (auto simp: put_byte_def bit_simps bit_FF dest: bit_imp_le_length)

lemma get_put_byte:
  assumes "k < 4" and "j < 4"
  shows "get_byte (put_byte w k b) j = (if j = k then b else get_byte w j)"
proof (rule bit_word_eqI)
  fix n assume "n < LENGTH(8)"
  then show "bit (get_byte (put_byte w k b) j) n \<longleftrightarrow> bit (if j = k then b else get_byte w j) n"
    using assms by (simp add: bit_get_byte bit_put_byte) arith
qed

text \<open>A 32-bit word is stored and loaded with its least significant byte first.\<close>

definition bytes_of :: "u32 \<Rightarrow> u8 list" where
  "bytes_of w = map (get_byte w) [0..<4]"

fun word_of :: "u8 list \<Rightarrow> u32" where
  "word_of [] = 0"
| "word_of (b # bs) = ucast b OR push_bit 8 (word_of bs)"

lemma bit_word_of:
  "n < 32 \<Longrightarrow> bit (word_of bs) n \<longleftrightarrow> n div 8 < length bs \<and> bit (bs ! (n div 8)) (n mod 8)"
proof (induction bs arbitrary: n)
  case (Cons b bs)
  show ?case
  proof (cases "n < 8")
    case True
    with Cons.prems show ?thesis by (simp add: bit_simps)
  next
    case False
    then have "n div 8 = Suc ((n - 8) div 8)" "(n - 8) mod 8 = n mod 8"
      by (simp_all add: le_div_geq mod_if [of n])
    with False Cons show ?thesis by (auto simp: bit_simps dest: bit_imp_le_length)
  qed
qed simp

lemma word_of_bytes_of: "word_of (bytes_of w) = w"
proof (rule bit_word_eqI)
  fix n assume "n < LENGTH(32)"
  then have n: "n < 32" "n div 8 < 4" by (simp_all add: less_mult_imp_div_less)
  then have "bytes_of w ! (n div 8) = get_byte w (n div 8)" by (simp add: bytes_of_def)
  with n show "bit (word_of (bytes_of w)) n \<longleftrightarrow> bit w n"
    by (simp add: bit_word_of bit_get_byte) (simp add: bytes_of_def)
qed

end
