(* ===== verification/Kmem.thy ===== *)
theory Kmem
  imports Pmap Bytes
begin

text \<open>
  Memory as the kernel's code reaches it: bytes of physical memory through the direct map,
  and bytes of the loaded address space through the page tables that \<open>%cr3\<close> names, as the
  processor translates them in kernel mode with the write-protect bit of \<open>%cr0\<close> set (inc/x86.h,
  kern/entry.S). A failed translation is a page fault in kernel mode, which panics.
\<close>

section \<open>The direct map, bytewise\<close>

definition kload_byte :: "kstate \<Rightarrow> u32 \<Rightarrow> u8" where
  "kload_byte s kva = get_byte (kload s kva) (unat kva mod 4)"

definition kload16 :: "kstate \<Rightarrow> u32 \<Rightarrow> u16" where
  "kload16 s kva = ucast (kload_byte s kva) OR push_bit 8 (ucast (kload_byte s (kva + 1)))"

definition kload32 :: "kstate \<Rightarrow> u32 \<Rightarrow> u32" where
  "kload32 s kva =
     ucast (kload_byte s kva) OR push_bit 8 (ucast (kload_byte s (kva + 1)))
     OR push_bit 16 (ucast (kload_byte s (kva + 2))) OR push_bit 24 (ucast (kload_byte s (kva + 3)))"

section \<open>The loaded address space\<close>

text \<open>Loading \<open>%cr3\<close> switches the address space and empties the translation cache.\<close>

definition lcr3 :: "physaddr \<Rightarrow> kstate \<Rightarrow> kstate" where
  "lcr3 pa s = s\<lparr>cr3 := pa, tlb := (\<lambda>_. None)\<rparr>"

definition translate :: "kstate \<Rightarrow> bool \<Rightarrow> u32 \<Rightarrow> (nat \<times> nat) option" where
  "translate s write va =
     (let need = (if write then PTE_P OR PTE_W else PTE_P);
          pde = pmem s (pa_page (cr3 s)) (unat (PDX va)) in
      if pde AND need \<noteq> need then None
      else let pte = pmem s (pa_page pde) (unat (PTX va)) in
           if pte AND need \<noteq> need then None
           else Some (pa_page pte, unat (PGOFF va)))"

definition vload_byte :: "kstate \<Rightarrow> u32 \<Rightarrow> u8 option" where
  "vload_byte s va =
     (case translate s False va of
        None \<Rightarrow> None
      | Some (p, off) \<Rightarrow> Some (get_byte (pmem s p (off div 4)) (off mod 4)))"

definition vstore_byte :: "u32 \<Rightarrow> u8 \<Rightarrow> kstate \<Rightarrow> unit kres" where
  "vstore_byte va b s =
     (case translate s True va of
        None \<Rightarrow> null_deref
      | Some (p, off) \<Rightarrow>
          Ret () (s\<lparr>pmem := set_word (pmem s) p (off div 4)
                     (put_byte (pmem s p (off div 4)) (off mod 4) b)\<rparr>))"

fun vload_bytes :: "u32 \<Rightarrow> nat \<Rightarrow> kstate \<Rightarrow> u8 list kres" where
  "vload_bytes va 0 s = Ret [] s"
| "vload_bytes va (Suc n) s =
     (case vload_byte s va of
        None \<Rightarrow> null_deref
      | Some b \<Rightarrow> kbind (vload_bytes (va + 1) n s) (\<lambda>bs s. Ret (b # bs) s))"

fun vstore_bytes :: "u32 \<Rightarrow> u8 list \<Rightarrow> kstate \<Rightarrow> unit kres" where
  "vstore_bytes va [] s = Ret () s"
| "vstore_bytes va (b # bs) s = kbind (vstore_byte va b s) (\<lambda>_ s. vstore_bytes (va + 1) bs s)"

definition vload32 :: "u32 \<Rightarrow> kstate \<Rightarrow> u32 kres" where
  "vload32 va s = kbind (vload_bytes va 4 s) (\<lambda>bs s. Ret (word_of bs) s)"

definition vstore32 :: "u32 \<Rightarrow> u32 \<Rightarrow> kstate \<Rightarrow> unit kres" where
  "vstore32 va w s = vstore_bytes va (bytes_of w) s"

end
