(* ===== verification/Spinlock.thy ===== *)
theory Spinlock
  imports Kstate
begin

text \<open>
  The big kernel lock, \<^verbatim>\<open>kern/spinlock.c\<close> and \<^verbatim>\<open>kern/spinlock.h\<close>, as the kernel
  functions use it, in one step: \<open>lock_cpu\<close> is the CPU that holds the lock.
\<close>

section \<open>Acquire and release\<close>

definition holding :: "kstate \<Rightarrow> bool" where
  "holding s \<longleftrightarrow> lock_cpu s = Some (cpunum s)"

definition lock_kernel :: "kstate \<Rightarrow> unit kres" where
  "lock_kernel s =
     (if holding s then Panic ''CPU cannot acquire kernel_lock: already holding''
      else if lock_cpu s \<noteq> None then Exit Spin s
      else Ret () (s\<lparr>lock_cpu := Some (cpunum s)\<rparr>))"

definition unlock_kernel :: "kstate \<Rightarrow> unit kres" where
  "unlock_kernel s =
     (if \<not> holding s then Panic ''spin_unlock''
      else Ret () (s\<lparr>lock_cpu := None\<rparr>))"

end
