(* ===== verification/Environments.thy ===== *)
theory Environments
  imports Kmem Spinlock
begin

text \<open>
  Environments (processes), \<^verbatim>\<open>kern/env.c\<close> up to \<open>env_free\<close>: lookup of identifiers, the free
  list, set-up of address spaces, loading of program images, and freeing. Reading through a
  null \<open>curenv\<close> is a kernel page fault.
\<close>

definition upd_env :: "nat \<Rightarrow> (Env \<Rightarrow> Env) \<Rightarrow> kstate \<Rightarrow> kstate" where
  "upd_env e f s = s\<lparr>envs := (envs s)(e := f (envs s e))\<rparr>"

definition ENVGENSHIFT :: nat where [jos_consts]: "ENVGENSHIFT = 12"

section \<open>Identifiers\<close>

text \<open>The result is the return value and what is stored through \<open>env_store\<close>.\<close>

definition envid2env :: "envid_t \<Rightarrow> bool \<Rightarrow> kstate \<Rightarrow> (int \<times> nat option) kres" where
  "envid2env envid checkperm s =
     (if envid = 0 then Ret (0, curenv s) s
      else
        let e = ENVX envid in
        if env_status (envs s e) = ENV_FREE \<or> env_id (envs s e) \<noteq> envid
        then Ret (- E_BAD_ENV, None) s
        else if checkperm \<and> Some e \<noteq> curenv s then
          (case curenv s of
             None \<Rightarrow> null_deref
           | Some c \<Rightarrow>
               if env_parent_id (envs s e) \<noteq> env_id (envs s c)
               then Ret (- E_BAD_ENV, None) s
               else Ret (0, Some e) s)
        else Ret (0, Some e) s)"

definition env_init_step :: "nat \<Rightarrow> kstate \<Rightarrow> kstate" where
  "env_init_step i s =
     (upd_env i (\<lambda>e. e\<lparr>env_status := ENV_FREE, env_id := 0, env_link := env_free_list s\<rparr>) s)
       \<lparr>env_free_list := Some i\<rparr>"

text \<open>\<open>env_init_percpu\<close> only loads the processor's segment registers.\<close>

definition env_init :: "kstate \<Rightarrow> kstate" where
  "env_init s = fold env_init_step (rev [0..<NENV]) (s\<lparr>env_free_list := None\<rparr>)"

section \<open>Allocation\<close>

definition env_setup_vm :: "nat \<Rightarrow> kstate \<Rightarrow> int kres" where
  "env_setup_vm e s =
     kbind (page_alloc ALLOC_ZERO s) (\<lambda>p s.
       case p of
         None \<Rightarrow> Ret (- E_NO_MEM) s
       | Some p \<Rightarrow>
           kbind (page2kva p s) (\<lambda>kva s.
             let s = upd_env e (\<lambda>e. e\<lparr>env_pgdir := kva\<rparr>) s;
                 s = s\<lparr>pmem := (pmem s)(pa_page (kva - KERNBASE) :=
                                   pmem s (pa_page (kern_pgdir s - KERNBASE)))\<rparr>;
                 s = set_ref p (pp_ref (pages s p) + 1) s in
             kbind (PADDR (env_pgdir (envs s e)) s) (\<lambda>pa s.
               Ret 0 (kstore (env_pgdir (envs s e) + 4 * PDX UVPT) (pa OR PTE_P OR PTE_U) s))))"

definition env_generation :: "envid_t \<Rightarrow> u32" where
  "env_generation old =
     (let generation = (old + push_bit ENVGENSHIFT 1) AND NOT (of_nat NENV - 1) in
      if sint generation \<le> 0 then push_bit ENVGENSHIFT 1 else generation)"

definition initial_tf :: Trapframe where
  "initial_tf = zero_tf\<lparr>tf_ds := GD_UD OR 3, tf_es := GD_UD OR 3, tf_ss := GD_UD OR 3,
     tf_esp := USTACKTOP, tf_cs := GD_UT OR 3, tf_eflags := tf_eflags zero_tf OR FL_IF\<rparr>"

definition env_alloc :: "envid_t \<Rightarrow> kstate \<Rightarrow> (int \<times> nat option) kres" where
  "env_alloc parent_id s =
     (case env_free_list s of
        None \<Rightarrow> Ret (- E_NO_FREE_ENV, None) s
      | Some e \<Rightarrow>
          kbind (env_setup_vm e s) (\<lambda>r s.
            if r < 0 then Ret (r, None) s
            else
              let s = upd_env e (\<lambda>v. v\<lparr>
                    env_id := env_generation (env_id v) OR of_nat e,
                    env_parent_id := parent_id,
                    env_type := ENV_TYPE_USER,
                    env_status := ENV_RUNNABLE,
                    env_runs := 0,
                    env_tf := initial_tf,
                    env_pgfault_upcall := 0,
                    env_ipc_recving := False\<rparr>) s;
                  s = s\<lparr>env_free_list := env_link (envs s e)\<rparr> in
              Ret (0, Some e) (upd_env e (\<lambda>v. v\<lparr>env_e1000_waiting_rx := False\<rparr>) s)))"

section \<open>Loading a program\<close>

fun region_alloc_loop :: "nat \<Rightarrow> u32 \<Rightarrow> nat \<Rightarrow> kstate \<Rightarrow> unit kres" where
  "region_alloc_loop e lo 0 s = Ret () s"
| "region_alloc_loop e lo (Suc n) s =
     kbind (page_alloc 0 s) (\<lambda>pp s.
       case pp of
         None \<Rightarrow> Panic ''region_alloc:page alloc failed''
       | Some pp \<Rightarrow>
           kbind (page_insert (env_pgdir (envs s e)) pp lo (PTE_W OR PTE_U) s) (\<lambda>r s.
             if r \<noteq> 0 then Panic ''region_alloc: page insert failed''
             else region_alloc_loop e (lo + PGSIZE) n s))"

text \<open>The loop runs from \<open>lo\<close> (\<open>min\<close> in the code) in steps of a page while it is below \<open>hi\<close> (\<open>max\<close>); both are aligned.\<close>

definition region_alloc :: "nat \<Rightarrow> u32 \<Rightarrow> u32 \<Rightarrow> kstate \<Rightarrow> unit kres" where
  "region_alloc e va len s =
     (let hi = ROUNDUP (va + len) PGSIZE; lo = ROUNDDOWN va PGSIZE in
      if hi > UTOP then Panic ''region_alloc: alloc above UTOP''
      else region_alloc_loop e lo (if lo < hi then unat ((hi - lo) div PGSIZE) else 0) s)"

text \<open>The program header at kernel address \<open>a\<close> (inc/elf.h).\<close>

record Proghdr =
  p_type :: u32
  p_offset :: u32
  p_va :: u32
  p_filesz :: u32
  p_memsz :: u32

definition read_ph :: "kstate \<Rightarrow> u32 \<Rightarrow> Proghdr" where
  "read_ph s a = \<lparr>p_type = kload32 s a, p_offset = kload32 s (a + 4), p_va = kload32 s (a + 8),
     p_filesz = kload32 s (a + 16), p_memsz = kload32 s (a + 20)\<rparr>"

definition ELF_MAGIC :: u32 where [jos_consts]: "ELF_MAGIC = 0x464C457F"
definition ELF_PROG_LOAD :: u32 where [jos_consts]: "ELF_PROG_LOAD = 1"

fun load_segments :: "nat \<Rightarrow> u32 \<Rightarrow> u32 \<Rightarrow> nat \<Rightarrow> kstate \<Rightarrow> unit kres" where
  "load_segments e binary ph 0 s = Ret () s"
| "load_segments e binary ph (Suc n) s =
     (let h = read_ph s ph in
      if p_type h \<noteq> ELF_PROG_LOAD then load_segments e binary (ph + 32) n s
      else if p_filesz h > p_memsz h then Panic ''load_icode:file size is larger than mem size''
      else
        kbind (region_alloc e (p_va h) (p_memsz h) s) (\<lambda>_ s.
        kbind (vstore_bytes (p_va h)
                 (map (\<lambda>i. kload_byte s (binary + p_offset h + of_nat i)) [0..<unat (p_filesz h)]) s) (\<lambda>_ s.
        kbind (vstore_bytes (p_va h + p_filesz h) (replicate (unat (p_memsz h - p_filesz h)) 0) s) (\<lambda>_ s.
        load_segments e binary (ph + 32) n s))))"

definition load_icode :: "nat \<Rightarrow> u32 \<Rightarrow> kstate \<Rightarrow> unit kres" where
  "load_icode e binary s =
     (if kload32 s binary \<noteq> ELF_MAGIC then Panic ''load_icode: illegal elf header''
      else
        let ph = binary + kload32 s (binary + 28);
            phnum = unat (kload16 s (binary + 44));
            eph = ph + 32 * of_nat phnum in
        kbind (PADDR (env_pgdir (envs s e)) s) (\<lambda>pa s.
        kbind (load_segments e binary ph (if ph < eph then phnum else 0) (lcr3 pa s)) (\<lambda>_ s.
        let s = upd_env e (\<lambda>v. v\<lparr>env_tf := (env_tf v)\<lparr>tf_eip := kload32 s (binary + 24)\<rparr>\<rparr>) s in
        region_alloc e (USTACKTOP - PGSIZE) PGSIZE s)))"

text \<open>\<open>env_create\<close> uses the environment only when \<open>env_alloc\<close> succeeded.\<close>

definition env_create :: "u32 \<Rightarrow> EnvType \<Rightarrow> kstate \<Rightarrow> unit kres" where
  "env_create binary type s =
     kbind (env_alloc 0 s) (\<lambda>(ret, e) s.
       if ret = - E_NO_FREE_ENV then Panic ''env_create:failed no free env''
       else if ret = - E_NO_MEM then Panic ''env_create:failed no free mem''
       else
         case e of
           None \<Rightarrow> null_deref
         | Some e \<Rightarrow>
             let s = upd_env e (\<lambda>v. v\<lparr>env_type := type\<rparr>) s;
                 s = (if type = ENV_TYPE_FS
                      then upd_env e (\<lambda>v. v\<lparr>env_tf := (env_tf v)\<lparr>tf_eflags := tf_eflags (env_tf v) OR FL_IOPL_3\<rparr>\<rparr>) s
                      else s) in
             load_icode e binary s)"

section \<open>Freeing\<close>

fun env_free_ptes :: "nat \<Rightarrow> u32 \<Rightarrow> nat \<Rightarrow> nat list \<Rightarrow> kstate \<Rightarrow> unit kres" where
  "env_free_ptes e pt pdeno [] s = Ret () s"
| "env_free_ptes e pt pdeno (pteno # is) s =
     kbind (if kload s (pt + 4 * of_nat pteno) AND PTE_P \<noteq> 0
            then page_remove (env_pgdir (envs s e)) (PGADDR (of_nat pdeno) (of_nat pteno) 0) s
            else Ret () s)
       (\<lambda>_ s. env_free_ptes e pt pdeno is s)"

fun env_free_pdes :: "nat \<Rightarrow> nat list \<Rightarrow> kstate \<Rightarrow> unit kres" where
  "env_free_pdes e [] s = Ret () s"
| "env_free_pdes e (pdeno # is) s =
     kbind
       (let pde = kload s (env_pgdir (envs s e) + 4 * of_nat pdeno) in
        if pde AND PTE_P = 0 then Ret () s
        else
          let pa = PTE_ADDR pde in
          kbind (KADDR pa s) (\<lambda>pt s.
          kbind (env_free_ptes e pt pdeno [0..<1024] s) (\<lambda>_ s.
          let s = kstore (env_pgdir (envs s e) + 4 * of_nat pdeno) 0 s in
          kbind (pa2page pa s) (\<lambda>pp s. page_decref pp s))))
       (\<lambda>_ s. env_free_pdes e is s)"

definition env_free :: "nat \<Rightarrow> kstate \<Rightarrow> unit kres" where
  "env_free e s =
     kbind (if Some e = curenv s
            then kbind (PADDR (kern_pgdir s) s) (\<lambda>pa s. Ret () (lcr3 pa s))
            else Ret () s) (\<lambda>_ s.
     kbind (env_free_pdes e [0..<unat (PDX UTOP)] s) (\<lambda>_ s.
     kbind (PADDR (env_pgdir (envs s e)) s) (\<lambda>pa s.
     let s = upd_env e (\<lambda>v. v\<lparr>env_pgdir := 0\<rparr>) s in
     kbind (pa2page pa s) (\<lambda>pp s.
     kbind (page_decref pp s) (\<lambda>_ s.
     let s = upd_env e (\<lambda>v. v\<lparr>env_status := ENV_FREE, env_link := env_free_list s\<rparr>) s in
     Ret () (s\<lparr>env_free_list := Some e\<rparr>))))))"

end
