(* ===== verification/Sched.thy ===== *)
theory Sched
  imports Environments
begin

text \<open>
  Switching to environments and destroying them: \<open>env_run\<close>, \<open>env_pop_tf\<close> and \<open>env_destroy\<close> of
  \<^verbatim>\<open>kern/env.c\<close>, the round-robin scheduler of \<^verbatim>\<open>kern/sched.c\<close>, and \<open>user_mem_assert\<close> of
  \<^verbatim>\<open>kern/pmap.c\<close>, which destroys an environment that passes a bad pointer.
\<close>

definition set_curenv :: "nat option \<Rightarrow> kstate \<Rightarrow> kstate" where
  "set_curenv e s = s\<lparr>cpus := (cpus s)(cpunum s := (cpus s (cpunum s))\<lparr>cpu_env := e\<rparr>)\<rparr>"

section \<open>Context switch\<close>

definition env_pop_tf :: "kstate \<Rightarrow> 'a kres" where
  "env_pop_tf s =
     (case curenv s of
        None \<Rightarrow> null_deref
      | Some c \<Rightarrow> Exit (UserMode c) (upd_env c (\<lambda>v. v\<lparr>env_cpunum := cpunum s\<rparr>) s))"

definition env_run :: "nat \<Rightarrow> kstate \<Rightarrow> 'a kres" where
  "env_run e s =
     (let s = (case curenv s of
                 None \<Rightarrow> s
               | Some c \<Rightarrow> if env_status (envs s c) = ENV_RUNNING
                            then upd_env c (\<lambda>v. v\<lparr>env_status := ENV_RUNNABLE\<rparr>) s else s);
          s = set_curenv (Some e) s;
          s = upd_env e (\<lambda>v. v\<lparr>env_status := ENV_RUNNING, env_runs := env_runs v + 1\<rparr>) s in
      kbind (PADDR (env_pgdir (envs s e)) s) (\<lambda>pa s.
      kbind (unlock_kernel (lcr3 pa s)) (\<lambda>_ s.
      env_pop_tf s)))"

section \<open>The scheduler\<close>

definition sched_halt :: "kstate \<Rightarrow> 'a kres" where
  "sched_halt s =
     (if \<forall>i \<in> {0..<NENV}. env_status (envs s i) \<notin> {ENV_RUNNABLE, ENV_RUNNING, ENV_DYING}
      then Exit Monitor s
      else
        let s = set_curenv None s in
        kbind (PADDR (kern_pgdir s) s) (\<lambda>pa s.
        let s = lcr3 pa s;
            s = s\<lparr>cpus := (cpus s)(cpunum s := (cpus s (cpunum s))\<lparr>cpu_status := CPU_HALTED\<rparr>)\<rparr> in
        kbind (unlock_kernel s) (\<lambda>_ s. Exit Halt s)))"

text \<open>The first runnable environment among the next \<open>n\<close> after index \<open>i\<close>, in circular order.\<close>

fun sched_pick :: "kstate \<Rightarrow> nat \<Rightarrow> nat \<Rightarrow> nat option" where
  "sched_pick s i 0 = None"
| "sched_pick s i (Suc n) =
     (let i = (i + 1) mod NENV in
      if env_status (envs s i) = ENV_RUNNABLE then Some i else sched_pick s i n)"

definition sched_start :: "kstate \<Rightarrow> nat" where
  "sched_start s = (case curenv s of None \<Rightarrow> 0 | Some c \<Rightarrow> ENVX (env_id (envs s c)))"

definition sched_yield :: "kstate \<Rightarrow> 'a kres" where
  "sched_yield s =
     (case sched_pick s (sched_start s) NENV of
        Some i \<Rightarrow> env_run i s
      | None \<Rightarrow>
          if (case curenv s of None \<Rightarrow> False | Some c \<Rightarrow> env_status (envs s c) = ENV_RUNNING)
          then env_run (the (curenv s)) s
          else
            case find (\<lambda>i. env_e1000_waiting_rx (envs s i)) [0..<NENV] of
              Some i \<Rightarrow> env_run i (upd_env i (\<lambda>v. v\<lparr>env_e1000_waiting_rx := False\<rparr>) s)
            | None \<Rightarrow> sched_halt s)"

section \<open>Destroying environments\<close>

definition env_destroy :: "nat \<Rightarrow> kstate \<Rightarrow> unit kres" where
  "env_destroy e s =
     (if env_status (envs s e) = ENV_RUNNING \<and> curenv s \<noteq> Some e
      then Ret () (upd_env e (\<lambda>v. v\<lparr>env_status := ENV_DYING\<rparr>) s)
      else
        kbind (env_free e s) (\<lambda>_ s.
          if curenv s = Some e then sched_yield (set_curenv None s) else Ret () s))"

definition user_mem_assert :: "nat \<Rightarrow> u32 \<Rightarrow> u32 \<Rightarrow> u32 \<Rightarrow> kstate \<Rightarrow> unit kres" where
  "user_mem_assert env va len perm s =
     kbind (user_mem_check env va len (perm OR PTE_U) s) (\<lambda>r s.
       if r < 0 then env_destroy env s else Ret () s)"

end
