(* ===== verification/E1000_Kern.thy ===== *)
theory E1000_Kern
  imports Sched
begin

text \<open>
  The parts of the network driver that use the kernel (\<^verbatim>\<open>kern/e1000.c\<close>): initialisation, the
  interrupt handler that wakes a waiting environment, and the copies between packet buffers
  and user memory. The addresses of the driver's arrays, which the linker chooses, and the
  card's answers to EEPROM reads are parameters.
\<close>

definition upd_nic :: "(e1000 \<Rightarrow> e1000) \<Rightarrow> kstate \<Rightarrow> kstate" where
  "upd_nic f s = s\<lparr>nic := f (nic s)\<rparr>"

section \<open>Initialisation\<close>

definition E1000_EERD_ADDR :: nat where [jos_consts]: "E1000_EERD_ADDR = 8"
definition E1000_EERD_DATA :: nat where [jos_consts]: "E1000_EERD_DATA = 16"
definition E1000_EERD_READ :: u32 where [jos_consts]: "E1000_EERD_READ = 1"

text \<open>
  \<open>eerd c\<close> is what the EEPROM register shows once the card has set its done bit, after \<open>c\<close> was
  written to it. The loop waits for that bit.
\<close>

definition read_mac_word :: "(u32 \<Rightarrow> u32) \<Rightarrow> nat \<Rightarrow> e1000 \<Rightarrow> e1000" where
  "read_mac_word eerd word_num d =
     (let d = set_reg E1000_EERD (e1000_regs d E1000_EERD OR push_bit E1000_EERD_ADDR (of_nat word_num)) d;
          d = set_reg E1000_EERD (e1000_regs d E1000_EERD OR E1000_EERD_READ) d;
          d = set_reg E1000_EERD (eerd (e1000_regs d E1000_EERD)) d;
          d = d\<lparr>mac := (mac d)(word_num := ucast (drop_bit E1000_EERD_DATA (e1000_regs d E1000_EERD)))\<rparr> in
      set_reg E1000_EERD 0 d)"

definition read_mac_from_eeprom :: "(u32 \<Rightarrow> u32) \<Rightarrow> e1000 \<Rightarrow> e1000" where
  "read_mac_from_eeprom eerd d = fold (read_mac_word eerd) [0..<3] d"

definition or_reg :: "nat \<Rightarrow> u32 \<Rightarrow> e1000 \<Rightarrow> e1000" where
  "or_reg r v d = set_reg r (e1000_regs d r OR v) d"

definition and_reg :: "nat \<Rightarrow> u32 \<Rightarrow> e1000 \<Rightarrow> e1000" where
  "and_reg r v d = set_reg r (e1000_regs d r AND v) d"

definition e1000_init_tx :: "physaddr \<Rightarrow> physaddr \<Rightarrow> e1000 \<Rightarrow> e1000" where
  "e1000_init_tx txq_pa tx_paks_pa d =
     (let d = set_reg E1000_TDBAL txq_pa d;
          d = set_reg E1000_TDBAH 0 d;
          d = set_reg E1000_TDLEN (of_nat (NTXQ * 16)) d;
          d = set_reg E1000_TDH 0 d;
          d = set_reg E1000_TDT 0 d;
          d = or_reg E1000_TCTL 0x00000002 d;
          d = or_reg E1000_TCTL 0x00000008 d;
          d = or_reg E1000_TCTL 0x00000100 d;
          d = or_reg E1000_TCTL 0x00040000 d;
          d = set_reg E1000_TIPG 0xA d;
          d = set_reg E1000_TIPG (push_bit 10 0x8) d;
          d = set_reg E1000_TIPG (push_bit 20 0xC) d in
      d\<lparr>txq := (\<lambda>i. if i < NTXQ
              then \<lparr>tx_buffer_addr = ucast (tx_paks_pa + of_nat (i * PKT_SIZE)), tx_length = 0, tx_cso = 0,
                     tx_cmd = E1000_TXD_CMD_RS AND NOT E1000_TXD_CMD_DEXT,
                     tx_status = E1000_TXD_STAT_DD, tx_css = 0, tx_special = 0\<rparr>
              else txq d i)\<rparr>)"

definition e1000_init_rx :: "(u32 \<Rightarrow> u32) \<Rightarrow> physaddr \<Rightarrow> physaddr \<Rightarrow> e1000 \<Rightarrow> e1000" where
  "e1000_init_rx eerd rxq_pa rx_paks_pa d =
     (let d = read_mac_from_eeprom eerd d;
          d = set_reg E1000_RAL 0 d;
          d = set_reg E1000_RAL (ucast (mac d 0)) d;
          d = or_reg E1000_RAL (push_bit E1000_EERD_DATA (ucast (mac d 1))) d;
          d = set_reg E1000_RAH 0 d;
          d = or_reg E1000_RAH (ucast (mac d 2)) d;
          d = or_reg E1000_RAH 0x80000000 d;
          d = fold (\<lambda>i. set_reg (E1000_MTA + i) 0) [0..<NMTA] d;
          d = or_reg E1000_IMS 0x00000080 d;
          d = set_reg E1000_RDBAL rxq_pa d;
          d = set_reg E1000_RDBAH 0 d;
          d = set_reg E1000_RDLEN (of_nat (NRXQ * 16)) d;
          d = set_reg E1000_RDH 0 d;
          d = set_reg E1000_RDT (of_nat (NRXQ - 1)) d;
          d = d\<lparr>rxq := (\<lambda>i. if i < NRXQ
                then \<lparr>rx_buffer_addr = ucast (rx_paks_pa + of_nat (i * PKT_SIZE)), rx_length = 0,
                       rx_csum = 0, rx_status = 0, rx_errors = 0, rx_special = 0\<rparr>
                else rxq d i)\<rparr>;
          d = or_reg E1000_RCTL 0x00000002 d;
          d = and_reg E1000_RCTL (NOT 0x00000020) d;
          d = and_reg E1000_RCTL 0xFFFFFF3F d;
          d = or_reg E1000_RCTL 0x04000000 d in
      and_reg E1000_RCTL 0xFFFCFFFF d)"

definition e1000_init ::
  "(u32 \<Rightarrow> u32) \<Rightarrow> u32 \<Rightarrow> u32 \<Rightarrow> u32 \<Rightarrow> u32 \<Rightarrow> u32 \<Rightarrow> u32 \<Rightarrow> kstate \<Rightarrow> int kres" where
  "e1000_init eerd txq_va tx_paks_va rxq_va rx_paks_va reg_base0 reg_size0 s =
     kbind (mmio_map_region reg_base0 reg_size0 s) (\<lambda>_ s.
     kbind (PADDR txq_va s) (\<lambda>txq_pa s.
     kbind (PADDR tx_paks_va s) (\<lambda>tx_paks_pa s.
     kbind (PADDR rxq_va s) (\<lambda>rxq_pa s.
     kbind (PADDR rx_paks_va s) (\<lambda>rx_paks_pa s.
     Ret 1 (upd_nic (e1000_init_rx eerd rxq_pa rx_paks_pa \<circ> e1000_init_tx txq_pa tx_paks_pa) s))))))"

section \<open>Interrupts\<close>

definition E1000_RXT0 :: u32 where [jos_consts]: "E1000_RXT0 = 0x80"

text \<open>Acknowledging the interrupt at the local APIC and the 8259A is port output only.\<close>

definition clear_e1000_interrupt :: "kstate \<Rightarrow> kstate" where
  "clear_e1000_interrupt s = upd_nic (or_reg E1000_ICR E1000_RXT0) s"

text \<open>The loop keeps the last waiting environment.\<close>

definition e1000_receiver :: "kstate \<Rightarrow> nat option" where
  "e1000_receiver s =
     fold (\<lambda>i receiver. if env_e1000_waiting_rx (envs s i) then Some i else receiver) [0..<NENV] None"

definition e1000_trap_handler :: "kstate \<Rightarrow> kstate" where
  "e1000_trap_handler s =
     (case e1000_receiver s of
        None \<Rightarrow> clear_e1000_interrupt s
      | Some e \<Rightarrow>
          clear_e1000_interrupt
            (upd_env e (\<lambda>v. v\<lparr>env_status := ENV_RUNNABLE, env_e1000_waiting_rx := False\<rparr>) s))"

section \<open>Packets and user memory\<close>

definition e1000_tx_ready :: "u32 \<Rightarrow> kstate \<Rightarrow> bool" where
  "e1000_tx_ready len s \<longleftrightarrow>
     unat len \<le> PKT_SIZE
     \<and> tx_status (txq (nic s) (unat (e1000_regs (nic s) E1000_TDT))) AND E1000_TXD_STAT_DD \<noteq> 0"

text \<open>\<open>e1000_transmit\<close> reads the packet once it has accepted the length and the descriptor.\<close>

definition e1000_transmit_va :: "u32 \<Rightarrow> u32 \<Rightarrow> kstate \<Rightarrow> int kres" where
  "e1000_transmit_va pck len s =
     (if \<not> e1000_tx_ready len s then Ret (- 1) s
      else kbind (vload_bytes pck (unat len) s) (\<lambda>bs s.
             let (r, d) = e1000_transmit bs (nic s) in Ret r (s\<lparr>nic := d\<rparr>)))"

text \<open>\<open>e1000_receive\<close> stores the length and then the packet, and only then frees the descriptor.\<close>

definition e1000_receive_va :: "u32 \<Rightarrow> u32 \<Rightarrow> kstate \<Rightarrow> int kres" where
  "e1000_receive_va pck len_ptr s =
     (case e1000_receive (nic s) of
        (RxEmpty, d) \<Rightarrow> Ret (- E_E1000_RXBUF_EMPTY) s
      | (RxPanic, d) \<Rightarrow> Panic ''e1000_receive: EOP not set''
      | (RxPacket bs, d) \<Rightarrow>
          kbind (vstore32 len_ptr (of_nat (length bs)) s) (\<lambda>_ s.
          kbind (vstore_bytes pck bs s) (\<lambda>_ s.
          Ret 0 (s\<lparr>nic := d\<rparr>))))"

definition e1000_get_mac :: "u32 \<Rightarrow> kstate \<Rightarrow> unit kres" where
  "e1000_get_mac mac_addr s =
     kbind (vstore32 mac_addr (e1000_regs (nic s) E1000_RAL) s) (\<lambda>_ s.
       vstore_bytes (mac_addr + 4) (take 2 (bytes_of (e1000_regs (nic s) E1000_RAH))) s)"

end
