(* ===== verification/Syscall.thy ===== *)
theory Syscall
  imports E1000_Kern
begin

text \<open>
  The system calls, \<^verbatim>\<open>kern/syscall.c\<close>, and the clock of \<^verbatim>\<open>kern/time.c\<close>. Results are the C return
  values. A local variable that the code reads without having set it (\<open>pte\<close> in
  \<open>sys_ipc_try_send\<close>) is a parameter, \<open>junk\<close>.
\<close>

section \<open>The clock (kern/time.c)\<close>

definition time_init :: "kstate \<Rightarrow> kstate" where
  "time_init s = s\<lparr>ticks := 0\<rparr>"

definition time_tick :: "kstate \<Rightarrow> unit kres" where
  "time_tick s =
     (let s = s\<lparr>ticks := ticks s + 1\<rparr> in
      if ticks s * 10 < ticks s then Panic ''time_tick: time overflowed'' else Ret () s)"

definition time_msec :: "kstate \<Rightarrow> u32" where
  "time_msec s = ticks s * 10"

section \<open>Console calls\<close>

text \<open>The current environment, or a kernel page fault when there is none.\<close>

definition with_curenv :: "(nat \<Rightarrow> kstate \<Rightarrow> 'a kres) \<Rightarrow> kstate \<Rightarrow> 'a kres" where
  "with_curenv f s = (case curenv s of None \<Rightarrow> null_deref | Some c \<Rightarrow> f c s)"

text \<open>
  The \<open>%s\<close> loop of \<open>vprintfmt\<close> with precision \<open>n\<close>: a byte is fetched before the precision is
  tested, and characters are signed.
\<close>

fun cputs_loop :: "u32 \<Rightarrow> nat \<Rightarrow> kstate \<Rightarrow> unit kres" where
  "cputs_loop p 0 s = (case vload_byte s p of None \<Rightarrow> null_deref | Some ch \<Rightarrow> Ret () s)"
| "cputs_loop p (Suc n) s =
     (case vload_byte s p of
        None \<Rightarrow> null_deref
      | Some ch \<Rightarrow>
          if ch = 0 then Ret () s
          else cputs_loop (p + 1) n (s\<lparr>cons := cputchar (scast ch) (cons s)\<rparr>))"

definition put_string :: "string \<Rightarrow> kstate \<Rightarrow> kstate" where
  "put_string cs s =
     s\<lparr>cons := fold (\<lambda>c. cputchar (of_nat (of_char c))) cs (cons s)\<rparr>"

text \<open>
  A negative precision is no limit; a string cannot be longer than the address space. A null
  pointer prints as \<open>(null)\<close>.
\<close>

definition cprintf_prec :: "u32 \<Rightarrow> u32 \<Rightarrow> kstate \<Rightarrow> unit kres" where
  "cprintf_prec len str s =
     (let n = (if sint len < 0 then 2 ^ 32 else unat len) in
      if str = 0 then Ret () (put_string (take n ''(null)'') s) else cputs_loop str n s)"

definition sys_cputs :: "u32 \<Rightarrow> u32 \<Rightarrow> kstate \<Rightarrow> unit kres" where
  "sys_cputs str len s =
     kbind (with_curenv (\<lambda>c. user_mem_assert c str len 0) s) (\<lambda>_ s. cprintf_prec len str s)"

definition sys_cgetc :: "kstate \<Rightarrow> int kres" where
  "sys_cgetc s = (let (c, k) = cons_getc (cons s) in Ret c (s\<lparr>cons := k\<rparr>))"

section \<open>Environments\<close>

definition sys_getenvid :: "kstate \<Rightarrow> envid_t kres" where
  "sys_getenvid s = with_curenv (\<lambda>c s. Ret (env_id (envs s c)) s) s"

text \<open>\<open>envid2env\<close> followed by a use of the environment it stored.\<close>

definition with_env :: "envid_t \<Rightarrow> bool \<Rightarrow> (int \<Rightarrow> kstate \<Rightarrow> 'a kres) \<Rightarrow> (nat \<Rightarrow> kstate \<Rightarrow> 'a kres) \<Rightarrow>
    kstate \<Rightarrow> 'a kres" where
  "with_env envid checkperm bad good s =
     kbind (envid2env envid checkperm s) (\<lambda>(r, e) s.
       if r < 0 then bad r s
       else case e of None \<Rightarrow> null_deref | Some e \<Rightarrow> good e s)"

definition sys_env_destroy :: "envid_t \<Rightarrow> kstate \<Rightarrow> int kres" where
  "sys_env_destroy envid s =
     with_env envid True (\<lambda>r s. Ret r s)
       (\<lambda>e s. kbind (env_destroy e s) (\<lambda>_ s. Ret 0 s)) s"

definition sys_yield :: "kstate \<Rightarrow> 'a kres" where
  "sys_yield s = sched_yield s"

definition sys_exofork :: "kstate \<Rightarrow> int kres" where
  "sys_exofork s =
     kbind (sys_getenvid s) (\<lambda>id s.
     kbind (env_alloc id s) (\<lambda>(ret, e) s.
       if ret < 0 then Ret ret s
       else
         case e of
           None \<Rightarrow> null_deref
         | Some e \<Rightarrow>
             let s = upd_env e (\<lambda>v. v\<lparr>env_status := ENV_NOT_RUNNABLE\<rparr>) s in
             with_curenv (\<lambda>c s.
               let s = upd_env e (\<lambda>v. v\<lparr>env_tf := env_tf (envs s c)\<rparr>) s;
                   s = upd_env e (\<lambda>v. v\<lparr>env_tf := (env_tf v)\<lparr>tf_regs := (tf_regs (env_tf v))\<lparr>reg_eax := 0\<rparr>\<rparr>\<rparr>) s in
               Ret (sint (env_id (envs s e))) s) s))"

definition status_arg :: "u32 \<Rightarrow> env_status_t option" where
  "status_arg status =
     (if status = 2 then Some ENV_RUNNABLE
      else if status = 4 then Some ENV_NOT_RUNNABLE else None)"

definition sys_env_set_status :: "envid_t \<Rightarrow> u32 \<Rightarrow> kstate \<Rightarrow> int kres" where
  "sys_env_set_status envid status s =
     (case status_arg status of
        None \<Rightarrow> Ret (- E_INVAL) s
      | Some st \<Rightarrow>
          with_env envid True (\<lambda>r s. Ret r s)
            (\<lambda>e s. Ret 0 (upd_env e (\<lambda>v. v\<lparr>env_status := st\<rparr>) s)) s)"

text \<open>A trap frame in memory: seventeen words (inc/trap.h).\<close>

definition tf_of_words :: "u32 list \<Rightarrow> Trapframe" where
  "tf_of_words w = \<lparr>tf_regs = \<lparr>reg_edi = w ! 0, reg_esi = w ! 1, reg_ebp = w ! 2, reg_oesp = w ! 3,
        reg_ebx = w ! 4, reg_edx = w ! 5, reg_ecx = w ! 6, reg_eax = w ! 7\<rparr>,
      tf_es = ucast (w ! 8), tf_padding1 = ucast (drop_bit 16 (w ! 8)),
      tf_ds = ucast (w ! 9), tf_padding2 = ucast (drop_bit 16 (w ! 9)),
      tf_trapno = w ! 10, tf_err = w ! 11, tf_eip = w ! 12,
      tf_cs = ucast (w ! 13), tf_padding3 = ucast (drop_bit 16 (w ! 13)),
      tf_eflags = w ! 14, tf_esp = w ! 15,
      tf_ss = ucast (w ! 16), tf_padding4 = ucast (drop_bit 16 (w ! 16))\<rparr>"

fun vload_words :: "u32 \<Rightarrow> nat \<Rightarrow> kstate \<Rightarrow> u32 list kres" where
  "vload_words va 0 s = Ret [] s"
| "vload_words va (Suc n) s =
     kbind (vload32 va s) (\<lambda>w s. kbind (vload_words (va + 4) n s) (\<lambda>ws s. Ret (w # ws) s))"

definition sys_env_set_trapframe :: "envid_t \<Rightarrow> u32 \<Rightarrow> kstate \<Rightarrow> int kres" where
  "sys_env_set_trapframe envid tf s =
     with_env envid True (\<lambda>r s. Ret r s)
       (\<lambda>e s.
          kbind (vload32 (tf + 56) s) (\<lambda>fl s.
          kbind (vstore32 (tf + 56) (fl OR FL_IF) s) (\<lambda>_ s.
          kbind (vload_words tf 17 s) (\<lambda>ws s.
          Ret 0 (upd_env e (\<lambda>v. v\<lparr>env_tf := tf_of_words ws\<rparr>) s))))) s"

definition sys_env_set_pgfault_upcall :: "envid_t \<Rightarrow> u32 \<Rightarrow> kstate \<Rightarrow> int kres" where
  "sys_env_set_pgfault_upcall envid func s =
     with_env envid True (\<lambda>r s. Ret (- E_BAD_ENV) s)
       (\<lambda>e s. Ret 0 (upd_env e (\<lambda>v. v\<lparr>env_pgfault_upcall := func\<rparr>) s)) s"

section \<open>Memory\<close>

definition sys_page_alloc :: "envid_t \<Rightarrow> u32 \<Rightarrow> u32 \<Rightarrow> kstate \<Rightarrow> int kres" where
  "sys_page_alloc envid va perm s =
     (if va \<ge> UTOP \<or> ROUNDUP va PGSIZE \<noteq> va then Ret (- E_INVAL) s
      else if perm AND NOT PTE_SYSCALL \<noteq> 0 then Ret (- E_INVAL) s
      else
        with_env envid True (\<lambda>r s. Ret (- E_BAD_ENV) s)
          (\<lambda>e s.
             kbind (page_alloc 1 s) (\<lambda>pp s.
               case pp of
                 None \<Rightarrow> Ret (- E_NO_MEM) s
               | Some pp \<Rightarrow>
                   kbind (page_insert (env_pgdir (envs s e)) pp va perm s) (\<lambda>ret2 s.
                     if ret2 < 0 then kbind (page_free pp s) (\<lambda>_ s. Ret (- E_NO_MEM) s)
                     else Ret 0 s))) s)"

definition sys_page_map :: "envid_t \<Rightarrow> u32 \<Rightarrow> envid_t \<Rightarrow> u32 \<Rightarrow> u32 \<Rightarrow> kstate \<Rightarrow> int kres" where
  "sys_page_map srcenvid srcva dstenvid dstva perm s =
     (if srcva \<ge> UTOP \<or> ROUNDUP srcva PGSIZE \<noteq> srcva \<or> dstva \<ge> UTOP \<or> ROUNDUP dstva PGSIZE \<noteq> dstva
      then Panic ''sys_page_map: invalid srcva | dstva''
      else if perm AND NOT PTE_SYSCALL \<noteq> 0 then Panic ''sys_page_map: invalid permission''
      else
        kbind (envid2env srcenvid True s) (\<lambda>(r1, srcenv) s.
          if r1 < 0 then Ret (- E_BAD_ENV) s
          else
            with_env dstenvid True (\<lambda>r s. Ret (- E_BAD_ENV) s)
              (\<lambda>dstenv s.
                 case srcenv of
                   None \<Rightarrow> null_deref
                 | Some srcenv \<Rightarrow>
                     kbind (page_lookup (env_pgdir (envs s srcenv)) srcva s) (\<lambda>pp s.
                       case pp of
                         None \<Rightarrow> Panic ''sys_page_map: page_lookup failed''
                       | Some (pp, srcpte) \<Rightarrow>
                           if perm AND PTE_W \<noteq> 0 \<and> kload s srcpte AND PTE_W = 0
                           then Panic ''sys_page_map: page_lookup failed''
                           else
                             kbind (page_insert (env_pgdir (envs s dstenv)) pp dstva perm s) (\<lambda>r s.
                               if r < 0 then Panic ''sys_page_map: page_insert failed''
                               else Ret 0 s))) s))"

definition sys_page_unmap :: "envid_t \<Rightarrow> u32 \<Rightarrow> kstate \<Rightarrow> int kres" where
  "sys_page_unmap envid va s =
     (if va \<ge> UTOP \<or> ROUNDUP va PGSIZE \<noteq> va then Ret (- E_INVAL) s
      else
        with_env envid True (\<lambda>r s. Ret (- E_BAD_ENV) s)
          (\<lambda>e s. kbind (page_remove (env_pgdir (envs s e)) va s) (\<lambda>_ s. Ret 0 s)) s)"

section \<open>Messages\<close>

text \<open>
  The page part of \<open>sys_ipc_try_send\<close>; \<open>None\<close> means that the send goes on. When
  \<open>page_lookup\<close> finds no page it leaves \<open>pte\<close> as it was.
\<close>

definition ipc_send_page :: "u32 \<Rightarrow> nat \<Rightarrow> u32 \<Rightarrow> u32 \<Rightarrow> kstate \<Rightarrow> int option kres" where
  "ipc_send_page junk e srcva perm s =
     with_curenv (\<lambda>c s.
       kbind (page_lookup (env_pgdir (envs s c)) srcva s) (\<lambda>found s.
         let pte = (case found of None \<Rightarrow> junk | Some (pp, pte) \<Rightarrow> pte) in
         if pte = 0 then Ret (Some (- E_INVAL)) s
         else if ROUNDDOWN srcva PGSIZE \<noteq> srcva \<or> perm AND NOT PTE_SYSCALL \<noteq> 0
         then Panic ''sys_ipc_try_send: srcva failed)''
         else
           kbind (if perm AND PTE_W \<noteq> 0
                  then (case found of None \<Rightarrow> vload32 pte s | Some _ \<Rightarrow> Ret (kload s pte) s)
                  else Ret PTE_W s) (\<lambda>w s.
           if w AND PTE_W = 0 then Panic ''sys_ipc_try_send: permission failed''
           else if env_ipc_dstva (envs s e) < UTOP then
             (case found of
                None \<Rightarrow>
                  kbind (pgdir_walk (env_pgdir (envs s e)) (env_ipc_dstva (envs s e)) True s) (\<lambda>q s.
                    case q of
                      None \<Rightarrow> Panic ''sys_ipc_try_send: page_insert failed''
                    | Some _ \<Rightarrow> null_deref)
              | Some (pp, _) \<Rightarrow>
                  kbind (page_insert (env_pgdir (envs s e)) pp (env_ipc_dstva (envs s e)) perm s) (\<lambda>r s.
                    if r < 0 then Panic ''sys_ipc_try_send: page_insert failed''
                    else Ret None (upd_env e (\<lambda>v. v\<lparr>env_ipc_perm := perm\<rparr>) s)))
           else Ret None s))) s"

definition sys_ipc_try_send :: "u32 \<Rightarrow> envid_t \<Rightarrow> u32 \<Rightarrow> u32 \<Rightarrow> u32 \<Rightarrow> kstate \<Rightarrow> int kres" where
  "sys_ipc_try_send junk envid value srcva perm s =
     with_env envid False (\<lambda>r s. Panic ''sys_ipc_try_send: envid2env failed'')
       (\<lambda>e s.
          if \<not> env_ipc_recving (envs s e) then Ret (- E_IPC_NOT_RECV) s
          else
            let s = upd_env e (\<lambda>v. v\<lparr>env_ipc_perm := 0\<rparr>) s in
            kbind (if srcva < UTOP then ipc_send_page junk e srcva perm s else Ret None s) (\<lambda>r s.
              case r of
                Some r \<Rightarrow> Ret r s
              | None \<Rightarrow>
                  with_curenv (\<lambda>c s.
                    Ret 0 (upd_env e (\<lambda>v. v\<lparr>
                      env_ipc_recving := False,
                      env_ipc_from := env_id (envs s c),
                      env_ipc_value := value,
                      env_status := ENV_RUNNABLE,
                      env_tf := (env_tf v)\<lparr>tf_regs := (tf_regs (env_tf v))\<lparr>reg_eax := 0\<rparr>\<rparr>\<rparr>) s)) s)) s"

definition sys_ipc_recv :: "u32 \<Rightarrow> kstate \<Rightarrow> int kres" where
  "sys_ipc_recv dstva s =
     (if dstva < UTOP \<and> ROUNDDOWN dstva PGSIZE \<noteq> dstva then Ret (- E_INVAL) s
      else
        with_curenv (\<lambda>c s.
          sys_yield (upd_env c (\<lambda>v. v\<lparr>env_ipc_recving := True, env_status := ENV_NOT_RUNNABLE,
                                      env_ipc_dstva := dstva\<rparr>) s)) s)"

section \<open>Clock and network\<close>

definition sys_time_msec :: "kstate \<Rightarrow> int kres" where
  "sys_time_msec s = Ret (sint (time_msec s)) s"

text \<open>The loop and the test after it; \<open>num_try\<close> is the argument.\<close>

fun transmit_loop :: "u32 \<Rightarrow> u32 \<Rightarrow> nat \<Rightarrow> kstate \<Rightarrow> int kres" where
  "transmit_loop pck len 0 s =
     kbind (e1000_transmit_va pck len s) (\<lambda>r s. Ret (- E_E1000_TXBUF_FULL) s)"
| "transmit_loop pck len (Suc n) s =
     kbind (e1000_transmit_va pck len s) (\<lambda>r s.
       if r < 0 then kbind (sys_yield s) (\<lambda>_ :: unit. \<lambda>s. transmit_loop pck len n s)
       else Ret 0 s)"

definition sys_e1000_transmit :: "u32 \<Rightarrow> u32 \<Rightarrow> kstate \<Rightarrow> int kres" where
  "sys_e1000_transmit pck len s =
     with_curenv (\<lambda>c s.
       kbind (user_mem_check c pck len PTE_P s) (\<lambda>r s.
         if r < 0 then Ret r s else transmit_loop pck len 20 s)) s"

definition sys_e1000_receive :: "u32 \<Rightarrow> u32 \<Rightarrow> kstate \<Rightarrow> int kres" where
  "sys_e1000_receive pck len_ptr s =
     kbind (with_curenv (\<lambda>c. user_mem_assert c pck (of_nat PKT_SIZE) PTE_W) s) (\<lambda>_ s.
     kbind (e1000_receive_va pck len_ptr s) (\<lambda>r s.
       if r = 0 then Ret 0 s
       else
         with_curenv (\<lambda>c s.
           sys_yield (upd_env c (\<lambda>v. v\<lparr>
             env_status := ENV_NOT_RUNNABLE,
             env_e1000_waiting_rx := True,
             env_tf := (env_tf v)\<lparr>tf_regs := (tf_regs (env_tf v))
               \<lparr>reg_eax := of_int (- E_E1000_RXBUF_EMPTY)\<rparr>\<rparr>\<rparr>) s)) s))"

definition sys_e1000_get_mac :: "u32 \<Rightarrow> kstate \<Rightarrow> int kres" where
  "sys_e1000_get_mac mac_addr s =
     kbind (with_curenv (\<lambda>c. user_mem_assert c mac_addr 12 PTE_W) s) (\<lambda>_ s.
     kbind (e1000_get_mac mac_addr s) (\<lambda>_ s. Ret 0 s))"

section \<open>The dispatcher\<close>

definition SYS_cputs :: u32 where [jos_consts]: "SYS_cputs = 0"
definition SYS_cgetc :: u32 where [jos_consts]: "SYS_cgetc = 1"
definition SYS_getenvid :: u32 where [jos_consts]: "SYS_getenvid = 2"
definition SYS_env_destroy :: u32 where [jos_consts]: "SYS_env_destroy = 3"
definition SYS_page_alloc :: u32 where [jos_consts]: "SYS_page_alloc = 4"
definition SYS_page_map :: u32 where [jos_consts]: "SYS_page_map = 5"
definition SYS_page_unmap :: u32 where [jos_consts]: "SYS_page_unmap = 6"
definition SYS_exofork :: u32 where [jos_consts]: "SYS_exofork = 7"
definition SYS_env_set_status :: u32 where [jos_consts]: "SYS_env_set_status = 8"
definition SYS_env_set_trapframe :: u32 where [jos_consts]: "SYS_env_set_trapframe = 9"
definition SYS_env_set_pgfault_upcall :: u32 where [jos_consts]: "SYS_env_set_pgfault_upcall = 10"
definition SYS_yield :: u32 where [jos_consts]: "SYS_yield = 11"
definition SYS_ipc_try_send :: u32 where [jos_consts]: "SYS_ipc_try_send = 12"
definition SYS_ipc_recv :: u32 where [jos_consts]: "SYS_ipc_recv = 13"
definition SYS_time_msec :: u32 where [jos_consts]: "SYS_time_msec = 14"
definition SYS_e1000_receive :: u32 where [jos_consts]: "SYS_e1000_receive = 15"
definition SYS_e1000_transmit :: u32 where [jos_consts]: "SYS_e1000_transmit = 16"
definition SYS_e1000_get_mac :: u32 where [jos_consts]: "SYS_e1000_get_mac = 17"

definition syscall :: "u32 \<Rightarrow> u32 \<Rightarrow> u32 \<Rightarrow> u32 \<Rightarrow> u32 \<Rightarrow> u32 \<Rightarrow> u32 \<Rightarrow> kstate \<Rightarrow> int kres" where
  "syscall junk syscallno a1 a2 a3 a4 a5 s =
     (if syscallno = SYS_cputs then kbind (sys_cputs a1 a2 s) (\<lambda>_ s. Ret 0 s)
      else if syscallno = SYS_cgetc then sys_cgetc s
      else if syscallno = SYS_getenvid then kbind (sys_getenvid s) (\<lambda>id s. Ret (sint id) s)
      else if syscallno = SYS_env_destroy then sys_env_destroy a1 s
      else if syscallno = SYS_yield then sys_yield s
      else if syscallno = SYS_exofork then sys_exofork s
      else if syscallno = SYS_env_set_status then sys_env_set_status a1 a2 s
      else if syscallno = SYS_page_alloc then sys_page_alloc a1 a2 a3 s
      else if syscallno = SYS_page_map then sys_page_map a1 a2 a3 a4 a5 s
      else if syscallno = SYS_page_unmap then sys_page_unmap a1 a2 s
      else if syscallno = SYS_env_set_pgfault_upcall then sys_env_set_pgfault_upcall a1 a2 s
      else if syscallno = SYS_ipc_try_send then sys_ipc_try_send junk a1 a2 a3 a4 s
      else if syscallno = SYS_ipc_recv then sys_ipc_recv a1 s
      else if syscallno = SYS_env_set_trapframe then sys_env_set_trapframe a1 a2 s
      else if syscallno = SYS_time_msec then sys_time_msec s
      else if syscallno = SYS_e1000_transmit then sys_e1000_transmit a1 a2 s
      else if syscallno = SYS_e1000_receive then sys_e1000_receive a1 a2 s
      else if syscallno = SYS_e1000_get_mac then sys_e1000_get_mac a1 s
      else Ret (- E_INVAL) s)"

end
