(* ===== verification/Trap.thy ===== *)
theory Trap
  imports Syscall
begin

text \<open>
  Traps and interrupts, \<^verbatim>\<open>kern/trap.c\<close>: the interrupt descriptor table, the per-CPU task state,
  the dispatcher, page faults that are reflected to user mode, and the common entry \<open>trap\<close>.
  The addresses of the assembly entry points, the fault address register and the flags at
  entry are parameters. The interactive monitor is where the model ends.
\<close>

section \<open>Trap numbers (inc/trap.h)\<close>

definition T_DEBUG :: u32 where [jos_consts]: "T_DEBUG = 1"
definition T_BRKPT :: u32 where [jos_consts]: "T_BRKPT = 3"
definition T_PGFLT :: u32 where [jos_consts]: "T_PGFLT = 14"
definition T_SYSCALL :: u32 where [jos_consts]: "T_SYSCALL = 48"
definition IRQ_OFFSET :: u32 where [jos_consts]: "IRQ_OFFSET = 32"
definition IRQ_TIMER :: u32 where [jos_consts]: "IRQ_TIMER = 0"
definition IRQ_KBD :: u32 where [jos_consts]: "IRQ_KBD = 1"
definition IRQ_SERIAL :: u32 where [jos_consts]: "IRQ_SERIAL = 4"
definition IRQ_SPURIOUS :: u32 where [jos_consts]: "IRQ_SPURIOUS = 7"
definition IRQ_E1000 :: u32 where [jos_consts]: "IRQ_E1000 = 11"
definition IRQ_IDE :: u32 where [jos_consts]: "IRQ_IDE = 14"
definition IRQ_ERROR :: u32 where [jos_consts]: "IRQ_ERROR = 19"

section \<open>The interrupt descriptor table\<close>

record Gatedesc =
  gd_off_15_0 :: u16
  gd_sel :: u16
  gd_type :: u8
  gd_dpl :: nat
  gd_p :: bool
  gd_off_31_16 :: u16

definition STS_IG32 :: u8 where [jos_consts]: "STS_IG32 = 0xE"
definition STS_TG32 :: u8 where [jos_consts]: "STS_TG32 = 0xF"

definition SETGATE :: "bool \<Rightarrow> u16 \<Rightarrow> u32 \<Rightarrow> nat \<Rightarrow> Gatedesc" where
  "SETGATE istrap sel off dpl =
     \<lparr>gd_off_15_0 = ucast (off AND 0xFFFF), gd_sel = sel,
      gd_type = (if istrap then STS_TG32 else STS_IG32), gd_dpl = dpl, gd_p = True,
      gd_off_31_16 = ucast (drop_bit 16 off)\<rparr>"

definition idt_entries :: "(nat \<times> string \<times> nat) list" where
  "idt_entries =
     [(0, ''t_divide'', 0), (1, ''t_debug'', 0), (2, ''t_nmi'', 0), (3, ''t_brkpt'', 3),
      (4, ''t_oflow'', 0), (5, ''t_bound'', 0), (6, ''t_illop'', 0), (7, ''t_device'', 0),
      (8, ''t_dblflt'', 0), (10, ''t_tss'', 0), (11, ''t_segnp'', 0), (12, ''t_stack'', 0),
      (13, ''t_gpflt'', 0), (14, ''t_pgflt'', 0), (16, ''t_fperr'', 0), (17, ''t_align'', 0),
      (18, ''t_mchk'', 0), (19, ''t_simderr'', 0), (48, ''t_syscall'', 3),
      (32, ''irq_timer'', 0), (33, ''irq_kbd'', 0), (36, ''irq_serial'', 0),
      (39, ''irq_spurious'', 0), (46, ''irq_ide'', 0), (51, ''irq_error'', 0),
      (43, ''irq_e1000'', 0)]"

definition trap_init :: "(string \<Rightarrow> u32) \<Rightarrow> (nat \<Rightarrow> Gatedesc) \<Rightarrow> nat \<Rightarrow> Gatedesc" where
  "trap_init entry idt =
     fold (\<lambda>(n, f, dpl) idt. idt(n := SETGATE False (GD_KT) (entry f) dpl)) idt_entries idt"

text \<open>The task state of a CPU; loading it and the descriptor table are processor instructions.\<close>

definition trap_init_percpu :: "kstate \<Rightarrow> kstate" where
  "trap_init_percpu s =
     s\<lparr>cpus := (cpus s)(cpunum s := (cpus s (cpunum s))
          \<lparr>ts_esp0 := KSTACKTOP - of_nat (cpunum s) * (KSTKSIZE + KSTKGAP)\<rparr>)\<rparr>"

section \<open>Dispatch\<close>

text \<open>
  \<open>tf\<close> points into the current environment for a trap from user mode, and to the kernel stack
  otherwise.
\<close>

datatype tf_ptr = EnvTf nat | StackTf Trapframe

primrec read_tf :: "tf_ptr \<Rightarrow> kstate \<Rightarrow> Trapframe" where
  "read_tf (EnvTf e) s = env_tf (envs s e)"
| "read_tf (StackTf tf) s = tf"

primrec set_eax :: "tf_ptr \<Rightarrow> u32 \<Rightarrow> kstate \<Rightarrow> kstate" where
  "set_eax (EnvTf e) r s =
     upd_env e (\<lambda>v. v\<lparr>env_tf := (env_tf v)\<lparr>tf_regs := (tf_regs (env_tf v))\<lparr>reg_eax := r\<rparr>\<rparr>\<rparr>) s"
| "set_eax (StackTf tf) r s = s"

definition utf_words :: "u32 \<Rightarrow> Trapframe \<Rightarrow> u32 list" where
  "utf_words fault_va tf =
     (let r = tf_regs tf in
      [fault_va, tf_trapno tf,
       reg_edi r, reg_esi r, reg_ebp r, reg_oesp r, reg_ebx r, reg_edx r, reg_ecx r, reg_eax r,
       tf_eip tf, tf_eflags tf, tf_esp tf])"

fun vstore_words :: "u32 \<Rightarrow> u32 list \<Rightarrow> kstate \<Rightarrow> unit kres" where
  "vstore_words va [] s = Ret () s"
| "vstore_words va (w # ws) s = kbind (vstore32 va w s) (\<lambda>_ s. vstore_words (va + 4) ws s)"

definition utf_addr :: "u32 \<Rightarrow> u32" where
  "utf_addr esp =
     (if UXSTACKTOP - PGSIZE \<le> esp \<and> esp \<le> UXSTACKTOP - 1 then esp - 52 - 4 else UXSTACKTOP - 52)"

definition page_fault_handler :: "u32 \<Rightarrow> tf_ptr \<Rightarrow> kstate \<Rightarrow> unit kres" where
  "page_fault_handler fault_va tfp s =
     (let tf = read_tf tfp s in
      if tf_cs tf AND 1 = 0 then Panic ''page_fault_handler:page fault''
      else
        with_curenv (\<lambda>c s.
          if env_pgfault_upcall (envs s c) \<noteq> 0 then
            let utf = utf_addr (tf_esp tf) in
            kbind (user_mem_assert c utf 52 (PTE_U OR PTE_W) s) (\<lambda>_ s.
            kbind (vstore_words utf (utf_words fault_va (read_tf tfp s)) s) (\<lambda>_ s.
            with_curenv (\<lambda>c s.
              let s = upd_env c (\<lambda>v. v\<lparr>env_tf := (env_tf v)
                        \<lparr>tf_eip := env_pgfault_upcall v, tf_esp := utf\<rparr>\<rparr>) s in
              env_run c s) s))
          else env_destroy c s) s)"

definition system_call_handler :: "u32 \<Rightarrow> tf_ptr \<Rightarrow> kstate \<Rightarrow> int kres" where
  "system_call_handler junk tfp s =
     (let r = tf_regs (read_tf tfp s) in
      syscall junk (reg_eax r) (reg_edx r) (reg_ecx r) (reg_ebx r) (reg_edi r) (reg_esi r) s)"

definition breakpoint_handler :: "kstate \<Rightarrow> unit kres" where
  "breakpoint_handler s = Exit Monitor s"

definition trap_dispatch :: "u32 \<Rightarrow> u32 \<Rightarrow> tf_ptr \<Rightarrow> kstate \<Rightarrow> unit kres" where
  "trap_dispatch junk fault_va tfp s =
     (let no = tf_trapno (read_tf tfp s) in
      if no = T_PGFLT then page_fault_handler fault_va tfp s
      else if no = T_BRKPT then breakpoint_handler s
      else if no = T_DEBUG then breakpoint_handler s
      else if no = T_SYSCALL then
        kbind (system_call_handler junk tfp s) (\<lambda>ret s. Ret () (set_eax tfp (of_int ret) s))
      else if no = IRQ_OFFSET + IRQ_TIMER then kbind (time_tick s) (\<lambda>_ s. sched_yield s)
      else if no = IRQ_OFFSET + IRQ_KBD then Ret () (s\<lparr>cons := kbd_intr (cons s)\<rparr>)
      else if no = IRQ_OFFSET + IRQ_SERIAL then Ret () (s\<lparr>cons := serial_intr (cons s)\<rparr>)
      else if no = IRQ_OFFSET + IRQ_E1000 then Ret () (e1000_trap_handler s)
      else if no = IRQ_OFFSET + IRQ_SPURIOUS then Ret () s
      else if tf_cs (read_tf tfp s) = GD_KT then Panic ''unhandled trap in kernel''
      else with_curenv (\<lambda>c s. env_destroy c s) s)"

section \<open>The common entry\<close>

definition trap_from_user :: "Trapframe \<Rightarrow> kstate \<Rightarrow> tf_ptr kres" where
  "trap_from_user tf s =
     (case curenv s of
        None \<Rightarrow> Panic ''assertion failed: curenv''
      | Some c \<Rightarrow>
          kbind (lock_kernel s) (\<lambda>_ s.
            if env_status (envs s c) = ENV_DYING
            then kbind (env_free c s) (\<lambda>_ s. sched_yield (set_curenv None s))
            else Ret (EnvTf c) (upd_env c (\<lambda>v. v\<lparr>env_tf := tf\<rparr>) s)))"

definition trap :: "u32 \<Rightarrow> u32 \<Rightarrow> u32 \<Rightarrow> Trapframe \<Rightarrow> kstate \<Rightarrow> unit kres" where
  "trap junk fault_va eflags tf s =
     (let halted = (cpu_status (cpus s (cpunum s)) = CPU_HALTED);
          s = s\<lparr>cpus := (cpus s)(cpunum s := (cpus s (cpunum s))\<lparr>cpu_status := CPU_STARTED\<rparr>)\<rparr> in
      kbind (if halted then lock_kernel s else Ret () s) (\<lambda>_ s.
      if eflags AND FL_IF \<noteq> 0 then Panic ''assertion failed: !(read_eflags() & FL_IF)''
      else
        kbind (if tf_cs tf AND 3 = 3 then trap_from_user tf s else Ret (StackTf tf) s) (\<lambda>tfp s.
        kbind (trap_dispatch junk fault_va tfp s) (\<lambda>_ s.
          case curenv s of
            Some c \<Rightarrow> if env_status (envs s c) = ENV_RUNNING then env_run c s else sched_yield s
          | None \<Rightarrow> sched_yield s))))"

end
