(* ===== verification/Uvm.thy ===== *)
theory Uvm
  imports Layout Errors Bytes
begin

text \<open>
  Address spaces as user programs see them: for every environment a map from page numbers to
  frames with permissions, the contents and reference counts of the frames, and the three system
  calls that change them. This is the view of the page tables that the library code of
  \<^verbatim>\<open>lib/\<close> relies on; the page tables themselves are the subject of the theories of the kernel.
  Frames for page tables are not counted.
\<close>

section \<open>State\<close>

record uvm =
  upt :: "nat \<Rightarrow> nat \<Rightarrow> (nat \<times> u32) option"
  umem :: "nat \<Rightarrow> nat \<Rightarrow> u8"
  uref :: "nat \<Rightarrow> nat"
  ufree :: "nat list"

text \<open>A call returns a value, or the program (or the kernel under it) panics.\<close>

datatype 'a ures = URet 'a uvm | UPanic string

primrec ubind :: "'a ures \<Rightarrow> ('a \<Rightarrow> uvm \<Rightarrow> 'b ures) \<Rightarrow> 'b ures" where
  "ubind (URet x u) f = f x u"
| "ubind (UPanic m) f = UPanic m"

lemma ubind_URet_iff: "ubind r f = URet y t \<longleftrightarrow> (\<exists>x u. r = URet x u \<and> f x u = URet y t)"
  by (cases r) auto

lemma ubind_assoc: "ubind (ubind r f) g = ubind r (\<lambda>x u. ubind (f x u) g)"
  by (cases r) auto

text \<open>The flags that \<open>uvpd\<close> and \<open>uvpt\<close> show for a page; 0 when it is not mapped.\<close>

definition uvpt :: "nat \<Rightarrow> nat \<Rightarrow> uvm \<Rightarrow> u32" where
  "uvpt e pn u = (case upt u e pn of None \<Rightarrow> 0 | Some (f, perm) \<Rightarrow> perm)"

definition uframe :: "nat \<Rightarrow> nat \<Rightarrow> uvm \<Rightarrow> nat option" where
  "uframe e pn u = map_option fst (upt u e pn)"

definition pn_of :: "u32 \<Rightarrow> nat" where "pn_of va = unat (PGNUM va)"

section \<open>Mapping\<close>

definition drop_frame :: "nat \<Rightarrow> uvm \<Rightarrow> uvm" where
  "drop_frame f u =
     (let u = u\<lparr>uref := (uref u)(f := uref u f - 1)\<rparr> in
      if uref u f = 0 then u\<lparr>ufree := f # ufree u\<rparr> else u)"

definition unmap_page :: "nat \<Rightarrow> nat \<Rightarrow> uvm \<Rightarrow> uvm" where
  "unmap_page e pn u =
     (case upt u e pn of
        None \<Rightarrow> u
      | Some (f, perm) \<Rightarrow> drop_frame f (u\<lparr>upt := (upt u)(e := (upt u e)(pn := None))\<rparr>))"

definition insert_page :: "nat \<Rightarrow> nat \<Rightarrow> nat \<Rightarrow> u32 \<Rightarrow> uvm \<Rightarrow> uvm" where
  "insert_page e pn f perm u =
     (let u = unmap_page e pn (u\<lparr>uref := (uref u)(f := uref u f + 1)\<rparr>) in
      u\<lparr>upt := (upt u)(e := (upt u e)(pn := Some (f, perm OR PTE_P)))\<rparr>)"

lemma upt_drop_frame [simp]: "upt (drop_frame f u) = upt u"
  by (simp add: drop_frame_def Let_def)

lemma umem_drop_frame [simp]: "umem (drop_frame f u) = umem u"
  by (simp add: drop_frame_def Let_def)

lemma upt_unmap_page: "upt (unmap_page e pn u) = (upt u)(e := (upt u e)(pn := None))"
  by (auto simp: unmap_page_def fun_eq_iff split: option.splits)

lemma umem_unmap_page [simp]: "umem (unmap_page e pn u) = umem u"
  by (auto simp: unmap_page_def split: option.splits)

lemma upt_insert_page: "upt (insert_page e pn f perm u) = (upt u)(e := (upt u e)(pn := Some (f, perm OR PTE_P)))"
  by (simp add: insert_page_def Let_def upt_unmap_page)

lemma umem_insert_page [simp]: "umem (insert_page e pn f perm u) = umem u"
  by (simp add: insert_page_def Let_def)

text \<open>Mapping a frame at a free page, and mapping it again where it is already.\<close>

lemma insert_new:
  assumes "upt u e pn = None"
  shows "insert_page e pn f perm u =
    u\<lparr>uref := (uref u)(f := uref u f + 1), upt := (upt u)(e := (upt u e)(pn := Some (f, perm OR PTE_P)))\<rparr>"
  using assms by (simp add: insert_page_def unmap_page_def)

lemma insert_again:
  assumes "upt u e pn = Some (f, p)" "uref u f > 0"
  shows "insert_page e pn f perm u = u\<lparr>upt := (upt u)(e := (upt u e)(pn := Some (f, perm OR PTE_P)))\<rparr>"
  using assms by (simp add: insert_page_def unmap_page_def drop_frame_def Let_def)

section \<open>System calls\<close>

definition bad_va :: "u32 \<Rightarrow> bool" where
  "bad_va va \<longleftrightarrow> va \<ge> UTOP \<or> ROUNDUP va PGSIZE \<noteq> va"

definition usys_page_alloc :: "nat \<Rightarrow> u32 \<Rightarrow> u32 \<Rightarrow> uvm \<Rightarrow> int \<times> uvm" where
  "usys_page_alloc e va perm u =
     (if bad_va va \<or> perm AND NOT PTE_SYSCALL \<noteq> 0 then (- E_INVAL, u)
      else
        case ufree u of
          [] \<Rightarrow> (- E_NO_MEM, u)
        | f # fs \<Rightarrow>
            (0, insert_page e (pn_of va) f perm (u\<lparr>ufree := fs, umem := (umem u)(f := (\<lambda>_. 0))\<rparr>)))"

text \<open>\<open>sys_page_map\<close> panics the kernel where its specification asks for an error code.\<close>

definition usys_page_map :: "nat \<Rightarrow> u32 \<Rightarrow> nat \<Rightarrow> u32 \<Rightarrow> u32 \<Rightarrow> uvm \<Rightarrow> int ures" where
  "usys_page_map e va e' va' perm u =
     (if bad_va va \<or> bad_va va' then UPanic ''sys_page_map: invalid srcva | dstva''
      else if perm AND NOT PTE_SYSCALL \<noteq> 0 then UPanic ''sys_page_map: invalid permission''
      else
        case upt u e (pn_of va) of
          None \<Rightarrow> UPanic ''sys_page_map: page_lookup failed''
        | Some (f, p) \<Rightarrow>
            if perm AND PTE_W \<noteq> 0 \<and> p AND PTE_W = 0 then UPanic ''sys_page_map: page_lookup failed''
            else URet 0 (insert_page e' (pn_of va') f perm u))"

definition usys_page_unmap :: "nat \<Rightarrow> u32 \<Rightarrow> uvm \<Rightarrow> int \<times> uvm" where
  "usys_page_unmap e va u = (if bad_va va then (- E_INVAL, u) else (0, unmap_page e (pn_of va) u))"

section \<open>Page addresses\<close>

definition va_of :: "nat \<Rightarrow> u32" where "va_of pn = of_nat pn * PGSIZE"

lemma unat_va_of: "pn < 0x100000 \<Longrightarrow> unat (va_of pn) = pn * 4096"
  by (simp add: va_of_def PGSIZE_def unat_word_ariths unat_of_nat take_bit_nat_eq_self)

lemma pn_of_va_of: "pn < 0x100000 \<Longrightarrow> pn_of (va_of pn) = pn"
  by (simp add: pn_of_def unat_PGNUM unat_va_of)

lemma ROUNDUP_aligned:
  assumes "unat va mod 4096 = 0" "unat va + 4096 < 4294967296"
  shows "ROUNDUP va PGSIZE = va"
proof -
  obtain k where "unat va = 4096 * k" using assms(1) by (auto elim: dvdE simp: mod_eq_0_iff_dvd)
  then show ?thesis using assms(2) by (simp add: word_unat_eq_iff unat_ROUNDUP PGSIZE_def)
qed

lemma va_of_ok: "pn < 0xEEC00 \<Longrightarrow> \<not> bad_va (va_of pn)"
proof -
  assume pn: "pn < 0xEEC00"
  then have "ROUNDUP (va_of pn) PGSIZE = va_of pn" by (intro ROUNDUP_aligned) (simp_all add: unat_va_of)
  then show ?thesis using pn
    by (simp add: bad_va_def not_le word_less_nat_alt unat_va_of) (simp add: jos_consts)
qed

end
