(* ===== verification/Fork.thy ===== *)
theory Fork
  imports Uvm
begin

text \<open>
  Copy-on-write fork of \<^verbatim>\<open>lib/fork.c\<close>: duplication of the address space page by page, and the page
  fault handler that replaces a shared copy-on-write page by a private copy. The child is the
  environment that \<open>sys_exofork\<close> returned, with an empty address space below UTOP.
\<close>

section \<open>Duplication\<close>





section \<open>The page fault handler\<close>

definition FEC_WR :: u32 where [jos_consts]: "FEC_WR = 2"

definition copy_frame :: "nat \<Rightarrow> nat \<Rightarrow> uvm \<Rightarrow> uvm" where
  "copy_frame dst src u = u\<lparr>umem := (umem u)(dst := umem u src)\<rparr>"

text \<open>\<open>memmove(PFTEMP, src_addr, PGSIZE)\<close> copies a whole page; both pages are mapped by then.\<close>

definition pgfault :: "nat \<Rightarrow> u32 \<Rightarrow> u32 \<Rightarrow> uvm \<Rightarrow> unit ures" where
  "pgfault me addr err u =
     (if err AND FEC_WR = 0 then UPanic ''pgfault: faulting address not a write''
      else if uvpt me (pn_of (ROUNDDOWN addr PGSIZE)) u AND PTE_COW = 0
      then UPanic ''pgfault: fault was not on a copy-on-write page''
      else
        let (r, u) = usys_page_alloc me PFTEMP (PTE_P OR PTE_U OR PTE_W) u in
        if r < 0 then UPanic ''sys_page_alloc''
        else
          let src = ROUNDDOWN addr PGSIZE in
          case (uframe me (pn_of PFTEMP) u, uframe me (pn_of src) u) of
            (Some t, Some f) \<Rightarrow>
              ubind (usys_page_map me PFTEMP me src (PTE_P OR PTE_U OR PTE_W) (copy_frame t f u))
                (\<lambda>_ u. URet () u)
          | _ \<Rightarrow> UPanic ''page fault'')"

section \<open>Permissions\<close>








section \<open>The address spaces after the duplication\<close>

definition uvm_wf :: "uvm \<Rightarrow> bool" where
  "uvm_wf u \<longleftrightarrow>
     (\<forall>e pn f p. upt u e pn = Some (f, p) \<longrightarrow> p AND PTE_P = PTE_P \<and> uref u f > 0 \<and> f \<notin> set (ufree u))"

lemma uvm_wfD:
  "uvm_wf u \<Longrightarrow> upt u e pn = Some (f, p) \<Longrightarrow> p AND PTE_P = PTE_P \<and> uref u f > 0 \<and> f \<notin> set (ufree u)"
  by (simp add: uvm_wf_def)






text \<open>The bytes that an environment sees in a page.\<close>

definition view :: "nat \<Rightarrow> nat \<Rightarrow> uvm \<Rightarrow> (nat \<Rightarrow> u8) option" where
  "view e pn u = map_option (\<lambda>(f, p). umem u f) (upt u e pn)"




text \<open>A parent with one writable page, and four free frames.\<close>

definition one_page :: uvm where
  "one_page =
     \<lparr>upt = (\<lambda>e pn. if e = 0 \<and> pn = 0x800 then Some (0, PTE_P OR PTE_U OR PTE_W) else None),
      umem = (\<lambda>_ _. 7), uref = (\<lambda>f. if f = 0 then 1 else 0), ufree = [1, 2, 3, 4]\<rparr>"



section \<open>The page fault handler\<close>

lemma PFTEMP_ok: "\<not> bad_va PFTEMP" "pn_of PFTEMP = 0x7FF"
proof -
  have e: "PFTEMP = va_of 0x7FF" by (simp add: va_of_def jos_consts)
  show "\<not> bad_va PFTEMP" unfolding e by (rule va_of_ok) simp
  show "pn_of PFTEMP = 0x7FF" unfolding e by (rule pn_of_va_of) simp
qed

lemma page_start:
  assumes "addr < UTOP"
  shows "\<not> bad_va (ROUNDDOWN addr PGSIZE)" "pn_of (ROUNDDOWN addr PGSIZE) = pn_of addr"
proof -
  have "unat addr div 4096 < 0xEEC00" using assms by (simp add: word_less_nat_alt jos_consts)
  moreover from this have "ROUNDDOWN addr PGSIZE = va_of (unat addr div 4096)"
    by (simp add: word_unat_eq_iff unat_ROUNDDOWN_mult unat_va_of PGSIZE_def)
  ultimately have "\<not> bad_va (ROUNDDOWN addr PGSIZE)" and "pn_of (ROUNDDOWN addr PGSIZE) = unat addr div 4096"
    using va_of_ok pn_of_va_of by simp_all
  then show "\<not> bad_va (ROUNDDOWN addr PGSIZE)" "pn_of (ROUNDDOWN addr PGSIZE) = pn_of addr"
    by (simp_all add: pn_of_def unat_PGNUM)
qed

text \<open>
  A write to a copy-on-write page gets a private copy (C28). The handler maps at the faulting page a
  frame that was free, writable and with the same contents; no other environment and no other
  page but PFTEMP sees a change. The page PFTEMP keeps its mapping of the same frame.
\<close>

theorem pgfault_private_copy:
  assumes wf: "uvm_wf u" and page: "upt u me (pn_of addr) = Some (f, p)" and cow: "p AND PTE_COW \<noteq> 0"
    and wr: "err AND FEC_WR \<noteq> 0" and addr: "addr < UTOP" "pn_of addr \<noteq> 0x7FF" and free: "ufree u = g # fs"
  shows "\<exists>t. pgfault me addr err u = URet () t \<and>
    upt t me (pn_of addr) = Some (g, PTE_P OR PTE_U OR PTE_W) \<and> view me (pn_of addr) t = view me (pn_of addr) u \<and>
    (\<forall>e pn. e \<noteq> me \<or> pn \<noteq> pn_of addr \<and> pn \<noteq> 0x7FF \<longrightarrow>
       upt t e pn = upt u e pn \<and> view e pn t = view e pn u \<and> uframe e pn t \<noteq> Some g) \<and>
    upt t me 0x7FF = Some (g, PTE_P OR PTE_U OR PTE_W)"
proof -
  let ?w = "PTE_P OR PTE_U OR PTE_W"
  let ?a = "insert_page me 0x7FF g ?w (u\<lparr>ufree := fs, umem := (umem u)(g := (\<lambda>_. 0))\<rparr>)"
  let ?c = "copy_frame g f ?a"
  define t where "t = insert_page me (pn_of addr) g ?w ?c"
  have w: "?w AND NOT PTE_SYSCALL = 0" "?w OR PTE_P = ?w" "?w AND PTE_W \<noteq> 0" by (simp_all add: jos_consts)
  have fg: "f \<noteq> g" using uvm_wfD [OF wf page] free by auto
  have run: "pgfault me addr err u = URet () t"
    using page cow wr addr free w
    by (simp add: pgfault_def uvpt_def page_start usys_page_alloc_def usys_page_map_def PFTEMP_ok uframe_def
        upt_insert_page copy_frame_def t_def)
  have upt: "upt t = (upt u)(me := (upt u me)(0x7FF := Some (g, ?w), pn_of addr := Some (g, ?w)))"
    using addr(2) w by (simp add: t_def upt_insert_page copy_frame_def fun_eq_iff)
  have mem: "umem t = (umem u)(g := umem u f)" using fg by (simp add: t_def copy_frame_def)
  have other: "upt t e pn = upt u e pn \<and> view e pn t = view e pn u \<and> uframe e pn t \<noteq> Some g"
    if "e \<noteq> me \<or> pn \<noteq> pn_of addr \<and> pn \<noteq> 0x7FF" for e pn
  proof (cases "upt u e pn")
    case None
    then show ?thesis using that by (auto simp: upt view_def uframe_def)
  next
    case (Some hq)
    obtain h q where hq: "hq = (h, q)" by (cases hq)
    have "h \<noteq> g" using uvm_wfD [OF wf, of e pn h q] Some hq free by auto
    moreover have "upt t e pn = Some (h, q)" using that Some hq unfolding upt by (cases "e = me") auto
    ultimately show ?thesis using Some hq mem by (simp add: view_def uframe_def)
  qed
  have "view me (pn_of addr) t = view me (pn_of addr) u"
    using page by (simp add: view_def upt mem)
  then show ?thesis using run other upt addr(2) by (intro exI [of _ t]) simp
qed

text \<open>The page of \<open>one_page\<close> made copy-on-write, with a second environment that shares it.\<close>

definition cow_shared :: uvm where
  "cow_shared = one_page\<lparr>upt := (\<lambda>e pn. if pn = 0x800 then Some (0, PTE_P OR PTE_U OR PTE_COW) else None)\<rparr>"

theorem pgfault_private_copy_witness:
  "\<exists>t. pgfault 0 0x800004 FEC_WR cow_shared = URet () t \<and> upt t 0 0x800 = Some (1, PTE_P OR PTE_U OR PTE_W) \<and>
     upt t 1 0x800 = Some (0, PTE_P OR PTE_U OR PTE_COW) \<and> view 0 0x800 t = Some (\<lambda>_. 7)"
proof -
  have wf: "uvm_wf cow_shared"
    by (simp add: uvm_wf_def cow_shared_def one_page_def)
  have pn: "pn_of 0x800004 = 0x800" by (simp add: pn_of_def unat_PGNUM)
  have at: "upt cow_shared e 0x800 = Some (0, PTE_P OR PTE_U OR PTE_COW)" for e
    by (simp add: cow_shared_def)
  have "\<exists>t. pgfault 0 0x800004 FEC_WR cow_shared = URet () t \<and>
    upt t 0 (pn_of 0x800004) = Some (1, PTE_P OR PTE_U OR PTE_W) \<and>
    view 0 (pn_of 0x800004) t = view 0 (pn_of 0x800004) cow_shared \<and>
    (\<forall>e pn. e \<noteq> 0 \<or> pn \<noteq> pn_of 0x800004 \<and> pn \<noteq> 0x7FF \<longrightarrow>
       upt t e pn = upt cow_shared e pn \<and> view e pn t = view e pn cow_shared \<and> uframe e pn t \<noteq> Some 1) \<and>
    upt t 0 0x7FF = Some (1, PTE_P OR PTE_U OR PTE_W)"
    by (rule pgfault_private_copy [OF wf, where f = 0 and fs = "[2, 3, 4]"])
      (simp_all add: pn at, simp_all add: jos_consts FEC_WR_def cow_shared_def one_page_def)
  moreover have "view 0 0x800 cow_shared = Some (\<lambda>_. 7)" by (simp add: view_def cow_shared_def one_page_def)
  ultimately show ?thesis using at [of 1] by (auto simp: pn)
qed

end
