(* ===== verification/Kern_Spec.thy ===== *)
theory Kern_Spec
  imports Trap Pmap_Spec Fork
begin

text \<open>
  Properties of the kernel above the page tables: the interrupt descriptor table and the kernel
  stacks, environment identifiers and the permission to use them, the order of the scheduler,
  and the clock.
\<close>

section \<open>Interrupt gates\<close>

lemma fold_updates:
  "distinct (map fst xs) \<Longrightarrow>
    fold (\<lambda>(n, f, d) g. g(n := h f d)) xs g n = (case map_of xs n of None \<Rightarrow> g n | Some (f, d) \<Rightarrow> h f d)"
proof (induction xs arbitrary: g)
  case (Cons x xs)
  obtain m f d where x: "x = (m, f, d)" by (cases x)
  have "map_of xs m = None" using Cons.prems x by (simp add: map_of_eq_None_iff)
  then show ?case using Cons x by (auto split: option.splits)
qed simp

lemma trap_init_gate:
  "trap_init entry idt n =
    (case map_of idt_entries n of None \<Rightarrow> idt n | Some (f, dpl) \<Rightarrow> SETGATE False GD_KT (entry f) dpl)"
  unfolding trap_init_def by (rule fold_updates) (simp add: idt_entries_def)

lemma idt_entries_dpl:
  "(n, f, dpl) \<in> set idt_entries \<Longrightarrow> dpl = (if n = 3 \<or> n = 48 then 3 else 0)"
  by (auto simp: idt_entries_def)

text \<open>
  What user code can trap into (C32). After \<open>trap_init\<close> on an empty table, every gate that is present is an
  interrupt gate into the kernel's code segment, so that interrupts are off on entry, and the
  only gates that user code may use with the \<open>int\<close> instruction are the breakpoint and the system
  call.
\<close>

theorem trap_gates_safe:
  assumes "\<forall>n. \<not> gd_p (idt n)" and "gd_p (trap_init entry idt n)"
  shows "gd_type (trap_init entry idt n) = STS_IG32 \<and> gd_sel (trap_init entry idt n) = GD_KT \<and>
    gd_dpl (trap_init entry idt n) = (if n = unat T_BRKPT \<or> n = unat T_SYSCALL then 3 else 0)"
proof -
  obtain f dpl where e: "map_of idt_entries n = Some (f, dpl)"
    using assms by (auto simp: trap_init_gate split: option.splits)
  then have "dpl = (if n = 3 \<or> n = 48 then 3 else 0)" by (intro idt_entries_dpl map_of_SomeD)
  then show ?thesis using e by (simp add: trap_init_gate SETGATE_def T_BRKPT_def T_SYSCALL_def)
qed

definition no_gates :: "nat \<Rightarrow> Gatedesc" where
  "no_gates n = \<lparr>gd_off_15_0 = 0, gd_sel = 0, gd_type = 0, gd_dpl = 0, gd_p = False, gd_off_31_16 = 0\<rparr>"

theorem trap_gates_safe_witness:
  "gd_p (trap_init (\<lambda>_. 0xF0100000) no_gates 14) \<and> gd_dpl (trap_init (\<lambda>_. 0xF0100000) no_gates 14) = 0"
proof -
  have p: "gd_p (trap_init (\<lambda>_. 0xF0100000) no_gates 14)"
    by (simp add: trap_init_gate idt_entries_def SETGATE_def)
  have "\<forall>n. \<not> gd_p (no_gates n)" by (simp add: no_gates_def)
  then show ?thesis using trap_gates_safe [OF _ p] p by (simp add: T_BRKPT_def T_SYSCALL_def)
qed

section \<open>Kernel stacks\<close>

definition stack_top :: "nat \<Rightarrow> kstate \<Rightarrow> u32" where
  "stack_top c s = ts_esp0 (cpus (trap_init_percpu (s\<lparr>cpunum := c\<rparr>)) c)"

lemma unat_stack_top: "c < NCPU \<Longrightarrow> unat (stack_top c s) = 0xF0000000 - c * 0x10000"
proof -
  assume "c < NCPU"
  then have "c \<in> {0, 1, 2, 3, 4, 5, 6, 7}" by (auto simp: NCPU_def)
  then show ?thesis by (auto simp: stack_top_def trap_init_percpu_def jos_consts)
qed

text \<open>
  Kernel stacks do not overlap. The stacks that the CPUs switch to on a trap are KSTKSIZE bytes each,
  lie between MMIOLIM and KSTACKTOP, and between the stacks of two CPUs there is a gap of at least
  KSTKGAP bytes.
\<close>

theorem kernel_stacks_apart:
  assumes "i < j" and "j < NCPU"
  shows "unat (stack_top j s) + unat KSTKGAP + unat KSTKSIZE \<le> unat (stack_top i s) \<and>
    unat MMIOLIM + unat KSTKSIZE \<le> unat (stack_top j s) \<and> unat (stack_top i s) \<le> unat KSTACKTOP"
proof -
  have "unat (stack_top i s) = 0xF0000000 - i * 0x10000" "unat (stack_top j s) = 0xF0000000 - j * 0x10000"
    using assms by (simp_all add: unat_stack_top)
  moreover have "j < 8" using assms by (simp add: NCPU_def)
  ultimately show ?thesis using assms(1) by (simp add: jos_consts) arith
qed

theorem kernel_stacks_apart_witness:
  "unat (stack_top 1 small_machine) + unat KSTKGAP + unat KSTKSIZE \<le> unat (stack_top 0 small_machine)"
  using kernel_stacks_apart [of 0 1 small_machine] by (simp add: NCPU_def)

section \<open>The clock\<close>

text \<open>
  The clock stops before it overflows (C33). As long as the number of milliseconds fits into 32 bits, a
  tick of the clock either panics, exactly when the next value would not fit, or advances the
  time by 10 milliseconds.
\<close>

theorem time_tick_exact:
  assumes "unat (ticks s) * 10 < 2 ^ 32"
  shows "if unat (ticks s) * 10 + 10 < 2 ^ 32
    then (\<exists>t. time_tick s = Ret () t \<and> unat (time_msec t) = unat (time_msec s) + 10 \<and> unat (ticks t) * 10 < 2 ^ 32)
    else time_tick s = Panic ''time_tick: time overflowed''"
proof -
  have inc: "unat (ticks s + 1) = unat (ticks s) + 1"
    using assms by (subst unat_add_no_wrap) simp_all
  have mul: "unat ((ticks s + 1) * 10) = (unat (ticks s) + 1) * 10 mod 2 ^ 32"
    by (subst unat_word_ariths(2), subst inc) simp
  have ms: "unat (time_msec s) = unat (ticks s) * 10"
    using assms by (simp add: time_msec_def unat_word_ariths(2))
  show ?thesis
  proof (cases "unat (ticks s) * 10 + 10 < 2 ^ 32")
    case True
    then have "unat ((ticks s + 1) * 10) = unat (ticks s) * 10 + 10" using mul by simp
    then show ?thesis using True inc ms by (simp add: time_tick_def time_msec_def word_less_nat_alt)
  next
    case False
    then have "unat ((ticks s + 1) * 10) = unat (ticks s) * 10 + 10 - 2 ^ 32"
      using mul assms by (simp add: le_mod_geq)
    then show ?thesis using False inc assms by (simp add: time_tick_def word_less_nat_alt)
  qed
qed

theorem time_tick_exact_witness:
  "time_tick (small_machine\<lparr>ticks := 429496729\<rparr>) = Panic ''time_tick: time overflowed'' \<and>
   (\<exists>t. time_tick (small_machine\<lparr>ticks := 7\<rparr>) = Ret () t \<and> unat (time_msec t) = 80)"
  using time_tick_exact [of "small_machine\<lparr>ticks := 429496729\<rparr>"] time_tick_exact [of "small_machine\<lparr>ticks := 7\<rparr>"]
  by (auto simp: time_msec_def)

section \<open>Environment identifiers\<close>

lemma NENV_mask: "of_nat NENV - 1 = (mask 10 :: u32)"
  by (simp add: NENV_def mask_eq_exp_minus_1)

lemma ENVX_eq: "ENVX w = unat w mod 1024"
  by (simp add: ENVX_def NENV_mask take_bit_eq_mask [symmetric] take_bit_eq_mod unat_mod)

text \<open>The generation number is positive, has no index bits, and differs from the old one.\<close>

lemma env_generation_facts:
  "0 < sint (env_generation old)" "ENVX (env_generation old) = 0"
proof -
  let ?g = "(old + push_bit ENVGENSHIFT 1) AND NOT (of_nat NENV - 1)"
  have "?g AND mask 10 = 0" by (simp add: NENV_mask and.assoc)
  then have "ENVX ?g = 0" by (simp add: ENVX_def NENV_mask)
  moreover have "ENVX (push_bit ENVGENSHIFT 1) = 0" by (simp add: ENVX_eq ENVGENSHIFT_def)
  ultimately show "ENVX (env_generation old) = 0" by (simp add: env_generation_def Let_def)
  have "0 < sint (push_bit ENVGENSHIFT 1 :: u32)" by (simp add: ENVGENSHIFT_def)
  then show "0 < sint (env_generation old)" by (simp add: env_generation_def Let_def)
qed

lemma mult_1024:
  fixes x :: nat
  assumes "x mod 1024 = 0" "e < 1024"
  shows "x < 1024 * n \<Longrightarrow> x + e < 1024 * n" and "(x + e + 4096) div 1024 * 1024 = x + 4096"
proof -
  obtain k where k: "x = 1024 * k" using assms(1) by (auto elim: dvdE simp: mod_eq_0_iff_dvd)
  show "x < 1024 * n \<Longrightarrow> x + e < 1024 * n" using k assms(2) by simp
  have "(x + e + 4096) div 1024 = k + 4" using k assms(2) by simp
  then show "(x + e + 4096) div 1024 * 1024 = x + 4096" using k by simp
qed

lemma or_index:
  assumes "ENVX g = 0" "e < 1024"
  shows "unat (g OR of_nat e) = unat g + e"
proof -
  have e: "unat (of_nat e :: u32) = e" using assms(2) by (simp add: unat_of_nat take_bit_nat_eq_self)
  have m: "unat g mod 1024 = 0" using assms(1) by (simp add: ENVX_eq)
  then have g: "take_bit 10 g = 0" by (simp add: word_unat_eq_iff take_bit_eq_mod unat_mod)
  have t: "take_bit 10 (of_nat e :: u32) = of_nat e"
    using assms(2) by (simp add: word_unat_eq_iff take_bit_eq_mod unat_mod e)
  have "g AND of_nat e = take_bit 10 g AND of_nat e"
    by (metis t take_bit_eq_mask and.assoc and.commute)
  then have "g AND of_nat e = 0" using g by simp
  then have "g OR of_nat e = g + of_nat e" by (simp add: disjunctive_add_eq_or)
  moreover have "unat g + e < 4294967296" using mult_1024(1) [OF m assms(2), of 4194304] u32_less [of g] by simp
  ultimately show ?thesis by (simp add: unat_add_no_wrap e)
qed

lemma sint_pos_unat: "0 \<le> sint (w :: u32) \<longleftrightarrow> unat w < 0x80000000"
proof
  assume "0 \<le> sint w"
  then have "\<not> bit w 31" using bit_last_iff [of w] by simp
  then have "\<not> bit (unat w) 31" by (simp add: bit_unsigned_iff)
  then have "even (unat w div 0x80000000)" by (simp add: bit_iff_odd)
  moreover have "unat w div 0x80000000 < 2" using u32_less [of w] by (simp add: div_less_iff_less_mult)
  ultimately have "unat w div 0x80000000 = 0" by (metis less_2_cases odd_one One_nat_def)
  then show "unat w < 0x80000000" by (simp add: div_eq_0_iff)
qed (simp add: sint_eq_unat)

lemma unat_gen: "unat (((old :: u32) + push_bit ENVGENSHIFT 1) AND NOT (of_nat NENV - 1)) =
  (unat old + 4096) mod 4294967296 div 1024 * 1024"
proof -
  let ?x = "old + 4096"
  have "?x = ?x AND NOT (mask 10) OR take_bit 10 ?x"
    by (simp add: take_bit_eq_mask bit.conj_disj_distrib [symmetric])
  moreover have "(?x AND NOT (mask 10)) AND take_bit 10 ?x = 0"
    by (simp add: take_bit_eq_mask and.assoc and.left_commute)
  ultimately have "?x = (?x AND NOT (mask 10)) + take_bit 10 ?x" by (simp add: disjunctive_add_eq_or)
  then have "?x AND NOT (mask 10) = ?x - take_bit 10 ?x" by (simp add: eq_diff_eq)
  moreover have le: "take_bit 10 ?x \<le> ?x"
    by (simp add: word_le_nat_alt take_bit_eq_mod unat_mod)
  ultimately have "unat (?x AND NOT (mask 10)) = unat ?x - unat ?x mod 1024"
    using unat_sub [OF le] by (simp add: take_bit_eq_mod unat_mod)
  then show ?thesis
    by (simp add: NENV_mask ENVGENSHIFT_def minus_mod_eq_div_mult [symmetric] unat_word_ariths(1))
qed

text \<open>Identifiers of an environment slot: positive, with the slot in the low bits, and always new.\<close>

lemma env_id_facts:
  assumes e: "e < NENV"
  shows "0 < sint (env_generation old OR of_nat e)" "ENVX (env_generation old OR of_nat e) = e"
    "env_generation old OR of_nat e \<noteq> old"
proof -
  let ?g = "env_generation old"
  have e': "e < 1024" using e by (simp add: NENV_def)
  have u: "unat (?g OR of_nat e) = unat ?g + e" by (rule or_index [OF env_generation_facts(2) e'])
  have m: "unat ?g mod 1024 = 0" using env_generation_facts(2) [of old] by (simp add: ENVX_eq)
  have g: "0 < unat ?g" "unat ?g < 0x80000000"
    using env_generation_facts(1) [of old] sint_pos_unat [of ?g] by (auto simp: unat_gt_0)
  have lt: "unat ?g + e < 0x80000000" using mult_1024(1) [OF m e', of 2097152] g(2) by simp
  then have "sint (?g OR of_nat e) = int (unat ?g + e)"
    using sint_eq_unat [of "?g OR of_nat e"] u by simp
  then show "0 < sint (?g OR of_nat e)" using g(1) by linarith
  show "ENVX (?g OR of_nat e) = e" using u m e' by (simp add: ENVX_eq mod_add_eq [symmetric])
  show "?g OR of_nat e \<noteq> old"
  proof
    assume "?g OR of_nat e = old"
    then have o: "unat old = unat ?g + e" using u by simp
    define x where "x = (old + push_bit ENVGENSHIFT 1) AND NOT (of_nat NENV - 1)"
    have "unat x = (unat old + 4096) div 1024 * 1024" using unat_gen [of old] lt o by (simp add: x_def)
    also have "\<dots> = unat ?g + 4096" using o mult_1024(2) [OF m e'] by simp
    finally have x: "unat x = unat ?g + 4096" .
    show False
    proof (cases "sint x \<le> 0")
      case True
      then have "?g = push_bit ENVGENSHIFT 1" by (simp add: env_generation_def x_def Let_def)
      then have "unat x = 8192" using x by (simp add: ENVGENSHIFT_def)
      then have "sint x = 8192" by (simp add: sint_eq_unat)
      with True show False by simp
    next
      case False
      then have "?g = x" by (simp add: env_generation_def x_def Let_def)
      with x show False by simp
    qed
  qed
qed

lemma page_alloc_envs: "page_alloc fl s = Ret p t \<Longrightarrow> envs t = envs s"
  by (auto simp: page_alloc_def page2kva_def KADDR_def memset_page_def kbind_Ret_iff Let_def split: option.splits if_splits)

lemma env_setup_vm_id:
  assumes "env_setup_vm e s = Ret r t"
  shows "env_id (envs t i) = env_id (envs s i)"
proof -
  obtain p u where p: "page_alloc ALLOC_ZERO s = Ret p u"
    using assms by (auto simp: env_setup_vm_def kbind_Ret_iff)
  then have u: "envs u = envs s" by (rule page_alloc_envs)
  show ?thesis
  proof (cases p)
    case None
    then show ?thesis using assms p u by (simp add: env_setup_vm_def)
  next
    case (Some pp)
    then show ?thesis using assms p u
      by (auto simp: env_setup_vm_def page2kva_def KADDR_def PADDR_def upd_env_def set_ref_def kstore_def Let_def
          split: if_splits)
  qed
qed

text \<open>
  New environments get new identifiers (C30). A successful \<open>env_alloc\<close> takes the environment at the head of
  the free list and gives it a positive identifier with its index in the low bits that differs
  from the one the slot had before; the new environment is found under the new identifier and the
  old identifier no longer denotes it.
\<close>

theorem env_alloc_new_id:
  assumes alloc: "env_alloc parent s = Ret (0, Some e) t" and e: "e < NENV" and old: "env_id (envs s e) \<noteq> 0"
  shows "env_free_list s = Some e \<and> 0 < sint (env_id (envs t e)) \<and> ENVX (env_id (envs t e)) = e \<and>
    env_id (envs t e) \<noteq> env_id (envs s e) \<and> env_parent_id (envs t e) = parent \<and>
    envid2env (env_id (envs t e)) False t = Ret (0, Some e) t \<and>
    (ENVX (env_id (envs s e)) = e \<longrightarrow> envid2env (env_id (envs s e)) False t = Ret (- E_BAD_ENV, None) t)"
proof -
  have head: "env_free_list s = Some e"
    using alloc by (auto simp: env_alloc_def kbind_Ret_iff Let_def split: option.splits if_splits)
  obtain r u where vm: "env_setup_vm e s = Ret r u" and "\<not> r < 0"
    and t: "env_id (envs t e) = env_generation (env_id (envs u e)) OR of_nat e"
      "env_parent_id (envs t e) = parent" "env_status (envs t e) = ENV_RUNNABLE"
    using alloc head by (auto simp: env_alloc_def kbind_Ret_iff Let_def upd_env_def split: if_splits)
  have id: "env_id (envs t e) = env_generation (env_id (envs s e)) OR of_nat e"
    using t(1) env_setup_vm_id [OF vm] by simp
  note f = env_id_facts [OF e, of "env_id (envs s e)", folded id]
  have "env_id (envs t e) \<noteq> 0" using f(1) by auto
  then have new: "envid2env (env_id (envs t e)) False t = Ret (0, Some e) t"
    using f(2) t(3) by (simp add: envid2env_def)
  have "envid2env (env_id (envs s e)) False t = Ret (- E_BAD_ENV, None) t" if "ENVX (env_id (envs s e)) = e"
    using that old f(3) by (simp add: envid2env_def)
  then show ?thesis using head f t(2) new by simp
qed

text \<open>A machine with one free environment slot that has been used before.\<close>

definition env_machine :: kstate where
  "env_machine = small_machine\<lparr>env_free_list := Some 0, envs := (envs small_machine)(0 := idle_env\<lparr>env_id := 0x1000\<rparr>)\<rparr>"

lemma env_machine_alloc: "\<exists>t. env_alloc 0 env_machine = Ret (0, Some 0) t"
  by (simp add: env_alloc_def env_machine_def small_machine_def env_setup_vm_def page_alloc_def small_pages_def
      page2kva_def KADDR_def page2pa_def PADDR_def upd_env_def set_ref_def kstore_def memset_page_def PGNUM_def
      ALLOC_ZERO_def KERNBASE_def Let_def)

theorem env_alloc_new_id_witness:
  "\<exists>t. env_alloc 0 env_machine = Ret (0, Some 0) t \<and> ENVX (env_id (envs t 0)) = 0 \<and> env_id (envs t 0) \<noteq> 0x1000 \<and>
     envid2env 0x1000 False t = Ret (- E_BAD_ENV, None) t"
proof -
  obtain t where t: "env_alloc 0 env_machine = Ret (0, Some 0) t" using env_machine_alloc by blast
  have id: "env_id (envs env_machine 0) = 0x1000" by (simp add: env_machine_def)
  then show ?thesis using env_alloc_new_id [OF t] t by (simp add: NENV_def ENVX_eq)
qed

text \<open>
  Only the environment itself and its parent have permission. When \<open>envid2env\<close> is asked to check the
  permission and succeeds, the environment it returns is the current one, or it is alive, has the
  given identifier and is a child of the current one; the state does not change.
\<close>

theorem envid2env_permission:
  assumes "envid2env envid True s = Ret (r, Some e) t"
  shows "t = s \<and> r = 0 \<and>
    (curenv s = Some e \<or>
     env_status (envs s e) \<noteq> ENV_FREE \<and> env_id (envs s e) = envid \<and> e = ENVX envid \<and>
     (\<exists>c. curenv s = Some c \<and> env_parent_id (envs s e) = env_id (envs s c)))"
  using assms by (auto simp: envid2env_def Let_def null_deref_def split: if_splits option.splits)

theorem envid2env_permission_witness:
  "envid2env 0 True (set_curenv (Some 0) env_machine) = Ret (0, Some 0) (set_curenv (Some 0) env_machine) \<and>
   curenv (set_curenv (Some 0) env_machine) = Some 0"
proof -
  have c: "curenv (set_curenv (Some 0) env_machine) = Some 0" by (simp add: curenv_def set_curenv_def)
  then have "envid2env 0 True (set_curenv (Some 0) env_machine) = Ret (0, Some 0) (set_curenv (Some 0) env_machine)"
    by (simp add: envid2env_def)
  with envid2env_permission [OF this] c show ?thesis by simp
qed

section \<open>The scheduler\<close>










section \<open>Page faults in user mode\<close>

text \<open>
  The fault handler of a user program does not see the error code. \<open>page_fault_handler\<close> stores the
  trap number where \<open>struct UTrapframe\<close> has the error code. For a page fault that number is 14,
  which has the bit FEC_WR set, so the test of the copy-on-write handler for a write access never
  fails, whatever the error code of the fault was.
\<close>

theorem utf_err_is_trapno:
  "utf_words fault_va (tf\<lparr>tf_trapno := T_PGFLT\<rparr>) ! 1 = T_PGFLT \<and>
   pgfault me addr (utf_words fault_va (tf\<lparr>tf_trapno := T_PGFLT\<rparr>) ! 1) u \<noteq>
     UPanic ''pgfault: faulting address not a write''"
proof
  show w: "utf_words fault_va (tf\<lparr>tf_trapno := T_PGFLT\<rparr>) ! 1 = T_PGFLT"
    by (simp add: utf_words_def Let_def)
  have "T_PGFLT AND FEC_WR \<noteq> 0" by (simp add: T_PGFLT_def FEC_WR_def)
  then show "pgfault me addr (utf_words fault_va (tf\<lparr>tf_trapno := T_PGFLT\<rparr>) ! 1) u \<noteq>
     UPanic ''pgfault: faulting address not a write''"
    unfolding w
    by (auto simp: pgfault_def Let_def usys_page_map_def split: prod.splits option.splits if_splits)
qed

text \<open>
  Nested faults keep the interrupted frame. When the program faults on its exception stack, the new
  frame of 52 bytes ends one word below the interrupted stack pointer, so that neither the data
  above that pointer nor the word that the return sequence needs is overwritten; otherwise the
  frame is at the very top of the exception stack.
\<close>

lemma utf_addr_room:
  "if UXSTACKTOP - PGSIZE \<le> esp \<and> esp \<le> UXSTACKTOP - 1
   then unat (utf_addr esp) + 52 + 4 = unat esp else unat (utf_addr esp) + 52 = unat UXSTACKTOP"
proof (cases "UXSTACKTOP - PGSIZE \<le> esp \<and> esp \<le> UXSTACKTOP - 1")
  case True
  then have "utf_addr esp = esp - 56" and "56 \<le> unat esp"
    by (simp_all add: utf_addr_def) (simp add: word_le_nat_alt jos_consts)
  then show ?thesis using True by (simp add: unat_sub word_le_nat_alt)
next
  case False
  then have "utf_addr esp = UXSTACKTOP - 52" unfolding utf_addr_def by (simp only: if_False)
  moreover have "unat (UXSTACKTOP - 52) + 52 = unat UXSTACKTOP" by (simp add: jos_consts)
  ultimately show ?thesis unfolding if_not_P [OF False] by simp
qed

end
