(* ===== verification/Env_Inv.thy ===== *)
theory Env_Inv
  imports Pmap_Inv Sched
begin

text \<open>
  The life of an address space: how the structure of \<^verbatim>\<open>Pmap_Tables\<close> changes when a page table
  or a page directory is given up or a directory is added, and what \<open>env_setup_vm\<close> and
  \<open>env_free\<close> of \<^verbatim>\<open>kern/env.c\<close> do under the reference-counting invariant.
\<close>

section \<open>Removing a page table\<close>

lemma kinds_shrink:
  assumes "p \<in> P" and "D \<subseteq> N - F" and "P \<subseteq> N - F - D" and "U \<subseteq> N - F - D - P" and "F' \<subseteq> insert p F"
  shows "D \<subseteq> N - F'" and "P - {p} \<subseteq> N - F' - D" and "U \<subseteq> N - F' - D - (P - {p})"
  using assms by auto

lemma remove_table:
  assumes wf: "tables_wf n m D F" and di: "(d, i) \<in> upts m D"
    and empty: "\<forall>j < 1024. \<not> present (m (pg (m d i)) j)"
    and m': "m' = set_word m d i 0" and F: "F' \<subseteq> insert (pg (m d i)) F"
  shows "upts m' D = upts m D - {(d, i)}" and "ptps m' D = ptps m D - {pg (m d i)}"
    and "umaps m' D = umaps m D" and "\<And>x. x \<in> umaps m D \<Longrightarrow> utgt m' x = utgt m x"
    and "urefs m' D q = urefs m D q" and "tables_wf n m' D F'"
    and "\<And>d' i' j'. d' \<in> D \<Longrightarrow> i' < UPDX \<Longrightarrow> j' < 1024 \<Longrightarrow> uvm m' d' i' j' = uvm m d' i' j'"
proof -
  have e: "m' d' i' = (if (d', i') = (d, i) then 0 else m d' i')" for d' i'
    by (auto simp: m' set_word_apply)
  show u: "upts m' D = upts m D - {(d, i)}" by (auto simp: upts_def e)
  have inj: "inj_on (\<lambda>(d, i). pg (m d i)) (upts m D)" using wf by (simp add: tables_wf_def)
  have im: "(\<lambda>(d, i). pg (m' d i)) ` (upts m D - {(d, i)}) = (\<lambda>(d, i). pg (m d i)) ` (upts m D - {(d, i)})"
    by (intro image_cong) (auto simp: e split: if_splits)
  show pt: "ptps m' D = ptps m D - {pg (m d i)}"
    unfolding ptps_def u im using inj_on_image_set_diff [OF inj, of "upts m D" "{(d, i)}"] di by auto
  have tab: "m' (pg (m d' i')) j' = m (pg (m d' i')) j'" if "(d', i') \<in> upts m D" for d' i' j'
  proof -
    have "pg (m d' i') \<noteq> d" using ptpsI [OF that] tables_wfD(5) [OF wf] di by (auto simp: upts_iff)
    then show ?thesis by (simp add: e)
  qed
  have mm: "m' (pg (m' d' i')) j' = m (pg (m d' i')) j'" if "(d', i') \<in> upts m D" "(d', i') \<noteq> (d, i)" for d' i' j'
    using tab [OF that(1), of j'] e [of d' i'] that(2) by auto
  have E: "(d', i', j') \<in> umaps m' D \<longleftrightarrow> (d', i', j') \<in> umaps m D" for d' i' j'
    using mm [of d' i' j'] empty by (cases "(d', i') = (d, i)") (auto simp: umaps_iff u)
  show um: "umaps m' D = umaps m D"
  proof (rule set_eqI)
    show "x \<in> umaps m' D \<longleftrightarrow> x \<in> umaps m D" for x using E by (cases x) simp
  qed
  show t: "utgt m' x = utgt m x" if "x \<in> umaps m D" for x
  proof -
    obtain a b c where x: "x = (a, b, c)" by (cases x)
    then have "(a, b) \<in> upts m D" "(a, b) \<noteq> (d, i)" using that empty by (auto simp: umaps_iff)
    then show ?thesis using mm x by simp
  qed
  have "{x \<in> umaps m D. utgt m' x = q} = {x \<in> umaps m D. utgt m x = q}" using t by auto
  then show "urefs m' D q = urefs m D q" by (simp add: urefs_def um)
  have "inj_on (\<lambda>(d, i). pg (m' d i)) (upts m' D) \<longleftrightarrow> inj_on (\<lambda>(d, i). pg (m d i)) (upts m' D)"
    by (intro inj_on_cong) (auto simp: u e split: if_splits)
  moreover have "inj_on (\<lambda>(d, i). pg (m d i)) (upts m' D)" using inj by (auto simp: u intro: inj_on_subset)
  ultimately have inj': "inj_on (\<lambda>(d, i). pg (m' d i)) (upts m' D)" by simp
  have tg: "utgt m' ` umaps m' D = utgt m ` umaps m D" unfolding um using t by (intro image_cong) auto
  have "pg (m d i) \<in> ptps m D" by (rule ptpsI [OF di])
  moreover have "finite D" "D \<subseteq> {..<n} - F" "ptps m D \<subseteq> {..<n} - F - D"
    "utgt m ` umaps m D \<subseteq> {..<n} - F - D - ptps m D" using wf by (simp_all add: tables_wf_def)
  ultimately show "tables_wf n m' D F'"
    using inj' kinds_shrink [OF _ _ _ _ F] unfolding tables_wf_def pt tg by simp
  show "uvm m' d' i' j' = uvm m d' i' j'" if "d' \<in> D" "i' < UPDX" "j' < 1024" for d' i' j'
  proof (cases "(d', i') = (d, i)")
    case True
    then show ?thesis using empty that(3) e [of d i] by (simp add: uvm_def)
  next
    case False
    then have "m' d' i' = m d' i'" unfolding e by auto
    then show ?thesis using tab [of d' i' j'] that by (auto simp: uvm_def upts_iff)
  qed
qed

section \<open>Directories without user page tables\<close>

lemma empty_dir:
  assumes "\<forall>i < UPDX. \<not> present (m d i)"
  shows "upts m (insert d D) = upts m D" and "ptps m (insert d D) = ptps m D"
    and "umaps m (insert d D) = umaps m D" and "urefs m (insert d D) q = urefs m D q"
proof -
  show u: "upts m (insert d D) = upts m D" using assms by (auto simp: upts_def)
  show "ptps m (insert d D) = ptps m D" by (simp add: ptps_def u)
  show um: "umaps m (insert d D) = umaps m D" by (simp add: umaps_def u)
  show "urefs m (insert d D) q = urefs m D q" by (simp add: urefs_def um)
qed

lemma add_dir_wf:
  assumes wf: "tables_wf n m D F" and d: "\<forall>i < UPDX. \<not> present (m d i)"
    and new: "d < n" "d \<notin> ptps m D" "d \<notin> utgt m ` umaps m D" "d \<notin> F'" and F: "F' \<subseteq> F"
  shows "tables_wf n m (insert d D) F'"
  unfolding tables_wf_def empty_dir [of m d, OF d]
proof (intro conjI)
  show "finite (insert d D)" "inj_on (\<lambda>(d, i). pg (m d i)) (upts m D)" using wf by (simp_all add: tables_wf_def)
  have "D \<subseteq> {..<n} - F" "ptps m D \<subseteq> {..<n} - F - D" "utgt m ` umaps m D \<subseteq> {..<n} - F - D - ptps m D"
    using wf by (simp_all add: tables_wf_def)
  then show "insert d D \<subseteq> {..<n} - F'" "ptps m D \<subseteq> {..<n} - F' - insert d D"
    "utgt m ` umaps m D \<subseteq> {..<n} - F' - insert d D - ptps m D"
    using new F by auto
qed

lemma drop_dir_wf:
  assumes wf: "tables_wf n m (insert d D) F" and d: "\<forall>i < UPDX. \<not> present (m d i)"
    and new: "d \<notin> D" and F: "F' \<subseteq> insert d F"
  shows "tables_wf n m D F'"
proof -
  note E = empty_dir [of m d, OF d]
  have "insert d D \<subseteq> {..<n} - F" "ptps m D \<subseteq> {..<n} - F - insert d D"
    "utgt m ` umaps m D \<subseteq> {..<n} - F - insert d D - ptps m D" "finite D" "inj_on (\<lambda>(d, i). pg (m d i)) (upts m D)"
    using wf by (simp_all add: tables_wf_def E)
  then show ?thesis unfolding tables_wf_def using new F by auto
qed


lemma tables_agree:
  assumes "\<forall>p \<in> D \<union> ptps m D. m' p = m p"
  shows "upts m' D = upts m D" and "ptps m' D = ptps m D" and "umaps m' D = umaps m D"
    and "\<And>x. x \<in> umaps m D \<Longrightarrow> utgt m' x = utgt m x" and "urefs m' D q = urefs m D q"
    and "tables_wf n m' D F = tables_wf n m D F"
    and "d \<in> D \<Longrightarrow> i < UPDX \<Longrightarrow> uvm m' d i j = uvm m d i j"
  by (rule tables_cong; use assms in simp)+

section \<open>The invariant when tables and directories come and go\<close>

lemma vm_inv_free_table:
  assumes inv: "vm_inv R D X s" and di: "(d, i) \<in> upts (pmem s) D" and p: "p = pg (pmem s d i)" "X p = 0"
    and empty: "\<forall>j < 1024. \<not> present (pmem s p j)"
    and t: "pages_inv t" "free_pages t = p # free_pages s" "npages t = npages s"
      "pmem t = set_word (pmem s) d i 0"
    and refs: "\<And>q. pp_ref (pages t q) = (if q = p then 0 else pp_ref (pages s q))"
  shows "vm_inv R D X t"
    and "\<And>d' i' j'. d' \<in> D \<Longrightarrow> i' < UPDX \<Longrightarrow> j' < 1024 \<Longrightarrow> uvm (pmem t) d' i' j' = uvm (pmem s) d' i' j'"
proof -
  note D = vm_invD [OF inv]
  have F: "set (free_pages t) \<subseteq> insert (pg (pmem s d i)) (set (free_pages s))" using t(2) p(1) by auto
  note T = remove_table [OF D(2) di empty [unfolded p(1)] t(4) F, folded p(1)]
  have pp: "p \<in> ptps (pmem s) D" unfolding p(1) by (rule ptpsI [OF di])
  have tg: "utgt (pmem t) ` umaps (pmem t) D = utgt (pmem s) ` umaps (pmem s) D"
    unfolding T(3) using T(4) by (intro image_cong) auto
  have "{x \<in> umaps (pmem s) D. utgt (pmem s) x = p} = {}"
    using tables_wfD(6) [OF D(2)] pp by blast
  then have up: "urefs (pmem s) D p = 0" unfolding urefs_def by (metis card.empty)
  show "uvm (pmem t) d' i' j' = uvm (pmem s) d' i' j'" if "d' \<in> D" "i' < UPDX" "j' < 1024" for d' i' j'
    using that by (rule T(7))
  show "vm_inv R D X t" unfolding vm_inv_def
  proof (intro conjI ballI allI impI)
    show "pages_inv t" by (rule t(1))
    show "tables_wf (unat (npages t)) (pmem t) D (set (free_pages t))" using T(6) t(3) by simp
    show "R \<inter> (set (free_pages t) \<union> D \<union> ptps (pmem t) D \<union> utgt (pmem t) ` umaps (pmem t) D) = {}"
      using D(3) pp t(2) unfolding tg T(2) by auto
    show "pp_ref (pages t q) = 1" if "q \<in> D \<union> ptps (pmem t) D" for q
      using that D(4) [of q] refs tables_wfD(5) [OF D(2) pp] unfolding T(2) by auto
    show "unat (pp_ref (pages t q)) = urefs (pmem t) D q + X q"
      if "q < unat (npages t)" "q \<notin> R \<union> D \<union> ptps (pmem t) D" for q
      using that D(5) [of q] refs [of q] up p(2) t(3) unfolding T(2,5) by (cases "q = p") auto
  qed
qed

lemma vm_inv_free_dir:
  assumes inv: "vm_inv R (insert d D) X s" and d: "d \<notin> D" "X d = 0" "\<forall>i < UPDX. \<not> present (pmem s d i)"
    and t: "pages_inv t" "free_pages t = d # free_pages s" "npages t = npages s" "pmem t = pmem s"
    and refs: "\<And>q. pp_ref (pages t q) = (if q = d then 0 else pp_ref (pages s q))"
  shows "vm_inv R D X t"
proof -
  note D = vm_invD [OF inv] and E = empty_dir [of "pmem s" d, OF d(3)]
  have "d \<notin> utgt (pmem s) ` umaps (pmem s) D" "d \<notin> ptps (pmem s) D"
    using D(2) unfolding tables_wf_def E by auto
  then have "{x \<in> umaps (pmem s) D. utgt (pmem s) x = d} = {}" by blast
  then have ud: "urefs (pmem s) D d = 0" unfolding urefs_def by (metis card.empty)
  show ?thesis unfolding vm_inv_def
  proof (intro conjI ballI allI impI)
    show "pages_inv t" by (rule t(1))
    show "tables_wf (unat (npages t)) (pmem t) D (set (free_pages t))"
      unfolding t(3,4) by (rule drop_dir_wf [OF D(2) d(3,1)]) (use t(2) in auto)
    show "R \<inter> (set (free_pages t) \<union> D \<union> ptps (pmem t) D \<union> utgt (pmem t) ` umaps (pmem t) D) = {}"
      using D(3) t(2) unfolding t(4) E by auto
    show "pp_ref (pages t q) = 1" if "q \<in> D \<union> ptps (pmem t) D" for q
      using that D(4) [of q] refs d(1) \<open>d \<notin> ptps (pmem s) D\<close> unfolding t(4) E by auto
    show "unat (pp_ref (pages t q)) = urefs (pmem t) D q + X q"
      if "q < unat (npages t)" "q \<notin> R \<union> D \<union> ptps (pmem t) D" for q
      using that D(5) [of q] refs [of q] ud d(2) unfolding t(3,4) E by (cases "q = d") auto
  qed
qed

lemma vm_inv_new_dir:
  assumes inv: "vm_inv R D X s" and f: "free_pages s = d # ps" and np: "\<forall>i < UPDX. \<not> present (m i)"
    and t: "pages_inv t" "free_pages t = ps" "npages t = npages s" "pmem t = (pmem s)(d := m)"
    and refs: "\<And>q. pp_ref (pages t q) = (if q = d then 1 else pp_ref (pages s q))"
  shows "vm_inv R (insert d D) X t"
    and "\<And>d' i' j'. d' \<in> D \<Longrightarrow> i' < UPDX \<Longrightarrow> uvm (pmem t) d' i' j' = uvm (pmem s) d' i' j'"
proof -
  note D = vm_invD [OF inv]
  have d: "d < unat (npages s)" "d \<in> set (free_pages s)" "d \<notin> set ps"
    using pages_invD(3,6) [OF D(1)] f by auto
  then have dn: "d \<notin> D" "d \<notin> ptps (pmem s) D" "d \<notin> utgt (pmem s) ` umaps (pmem s) D"
    using D(2) by (auto simp: tables_wf_def)
  have "\<forall>p \<in> D \<union> ptps (pmem s) D. pmem t p = pmem s p" using dn by (auto simp: t(4))
  note C = tables_agree [OF this]
  have np': "\<forall>i < UPDX. \<not> present (pmem t d i)" using np by (simp add: t(4))
  note E = empty_dir [of "pmem t" d, OF np']
  have tg: "utgt (pmem t) ` umaps (pmem s) D = utgt (pmem s) ` umaps (pmem s) D"
    using C(4) by (intro image_cong) auto
  show "uvm (pmem t) d' i' j' = uvm (pmem s) d' i' j'" if "d' \<in> D" "i' < UPDX" for d' i' j'
    using that by (rule C(7))
  have wf: "tables_wf (unat (npages s)) (pmem t) D (set (free_pages s))" using D(2) C(6) by simp
  show "vm_inv R (insert d D) X t" unfolding vm_inv_def E C(2,3,5) tg
  proof (intro conjI ballI allI impI)
    show "pages_inv t" by (rule t(1))
    show "tables_wf (unat (npages t)) (pmem t) (insert d D) (set (free_pages t))"
      unfolding t(2,3) by (rule add_dir_wf [OF wf np' d(1)]) (use d dn f C tg in auto)
    show "R \<inter> (set (free_pages t) \<union> insert d D \<union> ptps (pmem s) D \<union> utgt (pmem s) ` umaps (pmem s) D) = {}"
      using D(3) t(2) f by auto
    show "pp_ref (pages t q) = 1" if "q \<in> insert d D \<union> ptps (pmem s) D" for q
      using that D(4) [of q] refs by auto
    show "unat (pp_ref (pages t q)) = urefs (pmem s) D q + X q"
      if "q < unat (npages t)" "q \<notin> R \<union> insert d D \<union> ptps (pmem s) D" for q
      using that D(5) [of q] refs [of q] t(3) by auto
  qed
qed


section \<open>env_free\<close>

lemma PGADDR_parts:
  assumes "i < UPDX" "j < 1024"
  shows "unat (PDX (PGADDR (of_nat i) (of_nat j) 0)) = i" "unat (PTX (PGADDR (of_nat i) (of_nat j) 0)) = j"
    "PGADDR (of_nat i) (of_nat j) 0 < UTOP"
proof -
  have "\<not> (bit (push_bit 22 (of_nat i :: u32)) n \<and> bit (push_bit 12 (of_nat j :: u32)) n)" for n
  proof
    assume b: "bit (push_bit 22 (of_nat i :: u32)) n \<and> bit (push_bit 12 (of_nat j :: u32)) n"
    then have "22 \<le> n" "bit j (n - 12)" by (auto simp: bit_simps)
    moreover have "(2::nat) ^ 10 \<le> 2 ^ (n - 12)" using \<open>22 \<le> n\<close> by (intro power_increasing) auto
    then have "j < 2 ^ (n - 12)" using assms(2) by simp
    ultimately show False by (simp add: bit_iff_odd)
  qed
  then have "PGADDR (of_nat i) (of_nat j) 0 = push_bit 22 (of_nat i) + push_bit 12 (of_nat j)"
    unfolding PGADDR_def by (subst disjunctive_add) auto
  also have "\<dots> = of_nat (i * 4194304 + j * 4096)" by (simp add: push_bit_eq_mult)
  finally have "unat (PGADDR (of_nat i) (of_nat j) 0) = i * 4194304 + j * 4096"
    using assms by (simp add: unat_of_small UPDX_eq del: of_nat_add of_nat_mult)
  then show "unat (PDX (PGADDR (of_nat i) (of_nat j) 0)) = i" "unat (PTX (PGADDR (of_nat i) (of_nat j) 0)) = j"
    "PGADDR (of_nat i) (of_nat j) 0 < UTOP"
    using assms by (simp_all add: unat_PDX unat_PTX word_less_nat_alt UPDX_eq jos_consts)
qed

lemma env_free_ptes_ok:
  assumes "vm_inv R D X s" and "d \<in> D" and "env_pgdir (envs s e) = kva_of d 0" and "i < UPDX"
    and "present (pmem s d i)" and "\<forall>j \<in> set js. j < 1024"
  shows "\<exists>t. env_free_ptes e (kva_of (pg (pmem s d i)) 0) i js s = Ret () t \<and> vm_inv R D X t \<and> vm_frame s t \<and>
    (\<forall>d' \<in> D. pmem t d' = pmem s d') \<and>
    (\<forall>d' \<in> D. \<forall>i' < UPDX. \<forall>j'. uvm (pmem t) d' i' j' =
      (if d' = d \<and> i' = i \<and> j' \<in> set js then None else uvm (pmem s) d' i' j'))"
  using assms
proof (induction js arbitrary: s)
  case (Cons j js)
  let ?tp = "pg (pmem s d i)" and ?va = "PGADDR (of_nat i) (of_nat j) 0"
  note D = vm_invD [OF Cons.prems(1)]
  have j: "j < 1024" using Cons.prems(6) by simp
  note va = PGADDR_parts [OF Cons.prems(4) j]
  have "?tp \<in> ptps (pmem s) D" using ptpsI [of d i] Cons.prems by (simp add: upts_iff)
  then have tp: "?tp < 1048576" using tables_wfD(5) [OF D(2)] D(6) by fastforce
  have at: "kload s (kva_of ?tp 0 + 4 * of_nat j) = pmem s ?tp j"
    using j tp by (simp add: kva_of_index kload_kva_of unat_of_small)
  have uv: "uvm_at s d ?va = (if present (pmem s ?tp j) then Some (pmem s ?tp j) else None)"
    using Cons.prems(5) by (simp add: uvm_at_def uvm_def va)
  show ?case
  proof (cases "present (pmem s ?tp j)")
    case False
    then have "env_free_ptes e (kva_of ?tp 0) i (j # js) s = env_free_ptes e (kva_of ?tp 0) i js s"
      using at by (simp add: present_def)
    moreover have "uvm (pmem s) d i j = None" using uv False by (simp add: uvm_at_def va)
    ultimately show ?thesis using Cons.IH [OF Cons.prems(1-5)] Cons.prems(6) by fastforce
  next
    case True
    then have us: "uvm_at s d ?va = Some (pmem s ?tp j)" using uv by simp
    obtain u where u: "page_remove (kva_of d 0) ?va s = Ret () u" "vm_inv R D X u" "vm_frame s u"
      "\<And>d' i' j'. d' \<in> D \<Longrightarrow> i' < UPDX \<Longrightarrow> uvm (pmem u) d' i' j' =
        (if (d', i', j') = (d, i, j) then None else uvm (pmem s) d' i' j')"
      "\<And>d' i'. d' \<in> D \<Longrightarrow> pmem u d' i' = pmem s d' i'"
      by (rule page_remove_mapped [OF Cons.prems(1,2) va(3) us, unfolded va(1,2)]) (rule that)
    have ud: "pmem u d' = pmem s d'" if "d' \<in> D" for d' using u(5) [OF that] by auto
    obtain t where t: "env_free_ptes e (kva_of ?tp 0) i js u = Ret () t" "vm_inv R D X t" "vm_frame u t"
      "\<forall>d' \<in> D. pmem t d' = pmem u d'"
      "\<forall>d' \<in> D. \<forall>i' < UPDX. \<forall>j'. uvm (pmem t) d' i' j' =
        (if d' = d \<and> i' = i \<and> j' \<in> set js then None else uvm (pmem u) d' i' j')"
      using Cons.IH [OF u(2) Cons.prems(2) _ Cons.prems(4)] Cons.prems ud vm_frame_fields [OF u(3)] by auto
    have "env_free_ptes e (kva_of ?tp 0) i (j # js) s = Ret () t"
      using at True u(1) t(1) Cons.prems(3) by (simp add: present_def)
    then show ?thesis
      using t(2,4,5) ud u(4) vm_frame_trans [OF u(3) t(3)] by (intro exI [of _ t]) auto
  qed
qed simp

text \<open>One directory entry: its page table is emptied, detached and freed.\<close>

lemma env_free_pde_ok:
  assumes inv: "vm_inv R D (\<lambda>_. 0) s" and d: "d \<in> D" "env_pgdir (envs s e) = kva_of d 0" and i: "i < UPDX"
    and p: "present (pmem s d i)"
  obtains t where "env_free_pdes e [i] s = Ret () t" and "vm_inv R D (\<lambda>_. 0) t" and "vm_frame s t"
    and "pmem t d i = 0" and "\<forall>d' \<in> D. \<forall>i'. (d', i') \<noteq> (d, i) \<longrightarrow> pmem t d' i' = pmem s d' i'"
    and "\<forall>d' \<in> D - {d}. \<forall>i' < UPDX. \<forall>j' < 1024. uvm (pmem t) d' i' j' = uvm (pmem s) d' i' j'"
proof -
  let ?tp = "pg (pmem s d i)"
  note D = vm_invD [OF inv]
  have b: "d < 1048576" "i < 1024" using tables_wfD(2) [OF D(2) d(1)] D(6) i by (simp_all add: UPDX_eq)
  have tp: "?tp < unat (npages s)" using ptpsI [of d i] tables_wfD(5) [OF D(2)] d i p by (simp add: upts_iff)
  obtain u where u: "env_free_ptes e (kva_of ?tp 0) i [0..<1024] s = Ret () u" "vm_inv R D (\<lambda>_. 0) u" "vm_frame s u"
    "\<forall>d' \<in> D. pmem u d' = pmem s d'"
    "\<forall>d' \<in> D. \<forall>i' < UPDX. \<forall>j'. uvm (pmem u) d' i' j' =
      (if d' = d \<and> i' = i \<and> j' \<in> set [0..<1024] then None else uvm (pmem s) d' i' j')"
    using env_free_ptes_ok [OF inv d i p, of "[0..<1024]"] by auto
  note U = vm_invD [OF u(2)] and fu = vm_frame_fields [OF u(3)]
  have di: "(d, i) \<in> upts (pmem u) D" using d i p u(4) by (simp add: upts_iff)
  have ptu: "?tp \<in> ptps (pmem u) D" using ptpsI [OF di] u(4) d(1) by simp
  have empty: "\<forall>j < 1024. \<not> present (pmem u ?tp j)"
  proof (intro allI impI)
    fix j :: nat assume "j < 1024"
    then have "uvm (pmem u) d i j = None" using u(5) d(1) i by auto
    then show "\<not> present (pmem u ?tp j)" using p u(4) d(1) by (auto simp: uvm_def split: if_splits)
  qed
  let ?v = "u\<lparr>pmem := set_word (pmem u) d i 0\<rparr>"
  have v: "pages_inv ?v" "free_pages ?v = free_pages u" using U(1) pages_inv_cong [of ?v u] by simp_all
  have tpu: "?tp < unat (npages ?v)" "?tp \<notin> set (free_pages ?v)" "pp_ref (pages ?v ?tp) \<noteq> 0"
    using tables_wfD(5) [OF U(2) ptu] U(4) [of ?tp] ptu v by auto
  obtain t where t: "page_decref ?tp ?v = Ret () t" "pages_inv t"
    "free_pages t = (if pp_ref (pages ?v ?tp) = 1 then ?tp # free_pages ?v else free_pages ?v)"
    "\<And>q. pp_ref (pages t q) = (if q = ?tp then pp_ref (pages ?v ?tp) - 1 else pp_ref (pages ?v q))"
    "\<exists>f pg. t = ?v\<lparr>pages := pg, page_free_list := f\<rparr>"
    by (rule page_decref_ok [OF v(1) tpu]) (rule that)
  then obtain f pgs where te: "t = u\<lparr>pmem := set_word (pmem u) d i 0, pages := pgs, page_free_list := f\<rparr>" by auto
  have one: "pp_ref (pages u ?tp) = 1" using U(4) ptu by blast
  have at: "kload s (kva_of d 0 + 4 * of_nat i) = pmem s d i" "kstore (kva_of d 0 + 4 * of_nat i) 0 u = ?v"
    using b by (simp_all add: kva_of_index kload_kva_of kstore_kva_of unat_of_small)
  have "env_free_pdes e [i] s = Ret () t"
    using p t(1) u(1) at tp fu(1,2) d(2)
    by (simp add: Let_def KADDR_PTE_ADDR pa2page_PTE_ADDR present_def)
  moreover have "vm_frame u t"
    by (rule vm_frameI [where p = pgs and f = f and m = "set_word (pmem u) d i 0" and c = "tlb u"]) (simp add: te)
  then have "vm_frame s t" using u(3) vm_frame_trans by blast
  moreover have m: "pmem t = set_word (pmem u) d i 0" "npages t = npages u" by (simp_all add: te)
  have pu: "?tp = pg (pmem u d i)" using u(4) d(1) by simp
  have "vm_inv R D (\<lambda>_. 0) t" "\<And>d' i' j'. d' \<in> D \<Longrightarrow> i' < UPDX \<Longrightarrow> j' < 1024 \<Longrightarrow> uvm (pmem t) d' i' j' = uvm (pmem u) d' i' j'"
    by (rule vm_inv_free_table [OF u(2) di pu _ empty t(2) _ m(2,1)]; use t(3,4) one v(2) in auto)+
  ultimately show thesis using that [of t] u(4,5) m(1) by (auto simp: set_word_apply)
qed

lemma env_free_pdes_ok:
  assumes "vm_inv R D (\<lambda>_. 0) s" and "d \<in> D" and "env_pgdir (envs s e) = kva_of d 0" and "\<forall>i \<in> set is. i < UPDX"
  shows "\<exists>t. env_free_pdes e is s = Ret () t \<and> vm_inv R D (\<lambda>_. 0) t \<and> vm_frame s t \<and>
    (\<forall>i \<in> set is. \<not> present (pmem t d i)) \<and>
    (\<forall>d' \<in> D. \<forall>i'. \<not> (d' = d \<and> i' \<in> set is) \<longrightarrow> pmem t d' i' = pmem s d' i') \<and>
    (\<forall>d' \<in> D - {d}. \<forall>i' < UPDX. \<forall>j' < 1024. uvm (pmem t) d' i' j' = uvm (pmem s) d' i' j')"
  using assms
proof (induction "is" arbitrary: s)
  case (Cons i "is")
  note D = vm_invD [OF Cons.prems(1)]
  have i: "i < UPDX" using Cons.prems(4) by simp
  have b: "d < 1048576" "i < 1024" using tables_wfD(2) [OF D(2) Cons.prems(2)] D(6) i by (simp_all add: UPDX_eq)
  obtain u where u: "env_free_pdes e [i] s = Ret () u" "vm_inv R D (\<lambda>_. 0) u" "vm_frame s u"
    "\<not> present (pmem u d i)" "\<forall>d' \<in> D. \<forall>i'. (d', i') \<noteq> (d, i) \<longrightarrow> pmem u d' i' = pmem s d' i'"
    "\<forall>d' \<in> D - {d}. \<forall>i' < UPDX. \<forall>j' < 1024. uvm (pmem u) d' i' j' = uvm (pmem s) d' i' j'"
  proof (cases "present (pmem s d i)")
    case True
    show thesis by (rule env_free_pde_ok [OF Cons.prems(1-3) i True]) (rule that, auto)
  next
    case False
    then have "env_free_pdes e [i] s = Ret () s"
      using Cons.prems(3) b by (simp add: kva_of_index kload_kva_of unat_of_small present_def)
    then show thesis using that [of s] Cons.prems(1) False by simp
  qed
  have eu: "env_pgdir (envs u e) = kva_of d 0" using Cons.prems(3) vm_frame_fields [OF u(3)] by simp
  obtain t where t: "env_free_pdes e is u = Ret () t" "vm_inv R D (\<lambda>_. 0) t" "vm_frame u t"
    "\<forall>i \<in> set is. \<not> present (pmem t d i)"
    "\<forall>d' \<in> D. \<forall>i'. \<not> (d' = d \<and> i' \<in> set is) \<longrightarrow> pmem t d' i' = pmem u d' i'"
    "\<forall>d' \<in> D - {d}. \<forall>i' < UPDX. \<forall>j' < 1024. uvm (pmem t) d' i' j' = uvm (pmem u) d' i' j'"
    using Cons.IH [OF u(2) Cons.prems(2) eu] Cons.prems(4) by auto
  have "env_free_pdes e (i # is) s = Ret () t"
    using u(1) t(1) by (auto simp: kbind_Ret_iff)
  moreover have "\<not> present (pmem t d i)" using u(4) t(4,5) Cons.prems(2) by (cases "i \<in> set is") auto
  ultimately show ?case using t u vm_frame_trans [OF u(3) t(3)] by (intro exI [of _ t]) auto
qed simp

lemma PADDR_kva_of: "p < 65536 \<Longrightarrow> PADDR (kva_of p 0) s = Ret (of_nat (p * 4096)) s"
proof -
  assume p: "p < 65536"
  then have u: "unat (of_nat (p * 4096) :: u32) = p * 4096" by (simp add: unat_of_small del: of_nat_mult)
  then have "\<not> kva_of p 0 < KERNBASE"
    using p by (simp add: kva_of_def word_less_nat_alt unat_word_ariths KERNBASE_def del: of_nat_mult)
  then show ?thesis by (simp add: PADDR_def kva_of_def)
qed

lemma pa2page_of: "p < unat (npages s) \<Longrightarrow> p < 65536 \<Longrightarrow> pa2page (of_nat (p * 4096)) s = Ret p s"
  by (simp add: pa2page_def word_le_nat_alt unat_PGNUM unat_of_small del: of_nat_mult)

text \<open>The fields that only \<open>env_alloc\<close>, \<open>env_free\<close> and the scheduler change.\<close>

definition env_frame :: "kstate \<Rightarrow> kstate \<Rightarrow> bool" where
  "env_frame s t \<longleftrightarrow> npages t = npages s \<and> kern_pgdir t = kern_pgdir s \<and> cpus t = cpus s \<and> cpunum t = cpunum s
     \<and> lock_cpu t = lock_cpu s"

lemma vm_inv_cong:
  assumes "npages t = npages s" "pages t = pages s" "page_free_list t = page_free_list s" "pmem t = pmem s"
  shows "vm_inv R D X t = vm_inv R D X s"
  using pages_inv_cong [of t s] assms by (simp add: vm_inv_def)

lemma env_free_ok:
  assumes inv: "vm_inv R (insert d D) (\<lambda>_. 0) s" and d: "d \<notin> D" "env_pgdir (envs s e) = kva_of d 0"
    and k: "kern_pgdir s = kva_of kd 0" "kd < 65536"
  obtains t where "env_free e s = Ret () t" and "vm_inv R D (\<lambda>_. 0) t" and "env_frame s t"
    and "envs t = (envs s)(e := (envs s e)\<lparr>env_pgdir := 0, env_status := ENV_FREE, env_link := env_free_list s\<rparr>)"
    and "env_free_list t = Some e" and "d \<in> set (free_pages t)" and "\<forall>d' \<in> D. pmem t d' = pmem s d'"
    and "\<forall>d' \<in> D. \<forall>i < UPDX. \<forall>j < 1024. uvm (pmem t) d' i j = uvm (pmem s) d' i j"
proof -
  obtain a b where s1: "(if Some e = curenv s then kbind (PADDR (kern_pgdir s) s) (\<lambda>pa s. Ret () (lcr3 pa s))
      else Ret () s) = Ret () (s\<lparr>cr3 := a, tlb := b\<rparr>)"
  proof (cases "Some e = curenv s")
    case False
    then show thesis by - (rule that [where a = "cr3 s" and b = "tlb s"], simp)
  qed (simp add: k PADDR_kva_of lcr3_def that)
  let ?s = "s\<lparr>cr3 := a, tlb := b\<rparr>"
  have inv1: "vm_inv R (insert d D) (\<lambda>_. 0) ?s" using inv vm_inv_cong [of ?s s] by simp
  have "\<forall>i \<in> set [0..<unat (PDX UTOP)]. i < UPDX" by (simp add: UPDX_def)
  then obtain u where u: "env_free_pdes e [0..<unat (PDX UTOP)] ?s = Ret () u" "vm_inv R (insert d D) (\<lambda>_. 0) u" "vm_frame ?s u"
    "\<forall>i \<in> set [0..<unat (PDX UTOP)]. \<not> present (pmem u d i)"
    "\<forall>d' \<in> insert d D. \<forall>i'. \<not> (d' = d \<and> i' \<in> set [0..<unat (PDX UTOP)]) \<longrightarrow> pmem u d' i' = pmem ?s d' i'"
    "\<forall>d' \<in> insert d D - {d}. \<forall>i' < UPDX. \<forall>j' < 1024. uvm (pmem u) d' i' j' = uvm (pmem ?s) d' i' j'"
    using env_free_pdes_ok [OF inv1 insertI1, of e "[0..<unat (PDX UTOP)]"] d(2) by auto
  have np: "\<forall>i < UPDX. \<not> present (pmem u d i)" using u(4) by (simp add: UPDX_def)
  have same: "\<forall>d' \<in> D. pmem u d' = pmem s d'" using u(5) d(1) by (auto simp: fun_eq_iff)
  note U = vm_invD [OF u(2)] and F = vm_frame_fields [OF u(3)]
  have db: "d < unat (npages u)" "d < 65536" "d \<notin> set (free_pages u)"
    using tables_wfD(2,3) [OF U(2), of d] U(6) by auto
  let ?v = "upd_env e (\<lambda>v. v\<lparr>env_pgdir := 0\<rparr>) u"
  have v: "pages_inv ?v" "free_pages ?v = free_pages u" "pages ?v = pages u" "npages ?v = npages u" "pmem ?v = pmem u"
    using U(1) pages_inv_cong [of ?v u] by (simp_all add: upd_env_def)
  have dv: "d < unat (npages ?v)" "d \<notin> set (free_pages ?v)" "pp_ref (pages ?v d) \<noteq> 0"
    using db v U(4) [of d] by simp_all
  obtain w where w: "page_decref d ?v = Ret () w" "pages_inv w"
    "free_pages w = (if pp_ref (pages ?v d) = 1 then d # free_pages ?v else free_pages ?v)"
    "\<And>q. pp_ref (pages w q) = (if q = d then pp_ref (pages ?v d) - 1 else pp_ref (pages ?v q))"
    "\<exists>f pg. w = ?v\<lparr>pages := pg, page_free_list := f\<rparr>"
    by (rule page_decref_ok [OF v(1) dv]) (rule that)
  then obtain f pgs where we: "w = ?v\<lparr>pages := pgs, page_free_list := f\<rparr>" by blast
  have one: "pp_ref (pages u d) = 1" using U(4) by simp
  have invw: "vm_inv R D (\<lambda>_. 0) w"
    by (rule vm_inv_free_dir [OF u(2) d(1) _ np w(2)]) (use w(3,4) one v in \<open>auto simp: we\<close>)
  let ?t = "(upd_env e (\<lambda>v. v\<lparr>env_status := ENV_FREE, env_link := env_free_list w\<rparr>) w)\<lparr>env_free_list := Some e\<rparr>"
  have "env_free e s = Ret () ?t"
    using s1 u(1) w(1) db F(2) d(2) v(4) by (simp add: env_free_def PADDR_kva_of pa2page_of Let_def del: of_nat_mult)
  moreover have "vm_inv R D (\<lambda>_. 0) ?t" using invw vm_inv_cong [of ?t w] by (simp add: upd_env_def)
  moreover have "env_frame s ?t" using F by (simp add: env_frame_def upd_env_def we)
  moreover have "d \<in> set (free_pages ?t)"
    using w(3) one v pages_inv_cong(2) [of ?t w] by (simp add: upd_env_def)
  ultimately show thesis using that [of ?t] F same u(6) d(1) by (simp add: upd_env_def we)
qed

section \<open>env_setup_vm\<close>

lemma env_setup_vm_ok:
  assumes inv: "vm_inv R D (\<lambda>_. 0) s" and k: "kern_pgdir s = kva_of kd 0" "kd \<in> D" "\<forall>i < UPDX. \<not> present (pmem s kd i)"
  obtains (no_mem) "free_pages s = []" "env_setup_vm e s = Ret (- E_NO_MEM) s"
  | (created) d t where "env_setup_vm e s = Ret 0 t" "d \<in> set (free_pages s)" "d \<notin> D" "vm_inv R (insert d D) (\<lambda>_. 0) t"
      "env_frame s t" "envs t = (envs s)(e := (envs s e)\<lparr>env_pgdir := kva_of d 0\<rparr>)" "env_free_list t = env_free_list s"
      "\<forall>d' \<in> D. pmem t d' = pmem s d'" "\<forall>i < UPDX. \<not> present (pmem t d i)"
      "\<forall>d' \<in> D. \<forall>i < UPDX. \<forall>j. uvm (pmem t) d' i j = uvm (pmem s) d' i j"
proof (cases "free_pages s")
  case Nil
  with page_alloc_empty [OF vm_invD(1) [OF inv] Nil] show thesis by (intro no_mem) (simp_all add: env_setup_vm_def)
next
  case (Cons d ps)
  note D = vm_invD [OF inv]
  have d: "d < unat (npages s)" "d \<in> set (free_pages s)" "d \<notin> set ps" "d < 65536"
    using pages_invD(3,6) [OF D(1)] Cons D(6) by fastforce+
  then have dn: "d \<notin> D" using D(2) by (auto simp: tables_wf_def)
  have kd: "kd < 1048576" "kd \<noteq> d" using tables_wfD(2) [OF D(2) k(2)] D(6) dn k(2) by auto
  obtain s1 where s1: "page_alloc ALLOC_ZERO s = Ret (Some d) s1" "pages_inv s1" "free_pages s1 = ps"
    "s1 = s\<lparr>page_free_list := pp_link (pages s d), pages := (pages s)(d := (pages s d)\<lparr>pp_link := None\<rparr>),
             pmem := (if ALLOC_ZERO AND ALLOC_ZERO \<noteq> 0 then (pmem s)(d := (\<lambda>_. 0)) else pmem s)\<rparr>"
    using page_alloc_Cons [OF D(1) Cons, of ALLOC_ZERO] by blast
  define v where "v = (of_nat (d * 4096) :: u32) OR PTE_P OR PTE_U"
  define m where "m = (pmem s kd)(957 := v)"
  let ?u = "set_ref d (pp_ref (pages s1 d) + 1) (upd_env e (\<lambda>e. e\<lparr>env_pgdir := kva_of d 0\<rparr>) s1)"
  let ?t = "?u\<lparr>pmem := (pmem s)(d := m)\<rparr>"
  have m1: "pmem s1 = (pmem s)(d := (\<lambda>_. 0))" "npages s1 = npages s" "kern_pgdir s1 = kern_pgdir s"
    "pp_ref (pages s1 q) = pp_ref (pages s q)" "envs s1 = envs s" for q
    by (simp_all add: s1(4) ALLOC_ZERO_def)
  have "PDX UVPT = 957" by (simp add: word_unat_eq_iff unat_PDX jos_consts)
  then have st: "kstore (kva_of d 0 + 4 * PDX UVPT) v w = w\<lparr>pmem := set_word (pmem w) d 957 v\<rparr>" for w
    using d(4) by (simp add: kva_of_index [of d 957, simplified] kstore_kva_of)
  have "env_setup_vm e s = Ret 0 ?t"
    using s1(1) d kd D(6) m1 k(1)
    by (simp add: env_setup_vm_def page2kva_ok PADDR_kva_of kva_of_parts st v_def [symmetric] upd_env_def set_ref_def
        set_word_def m_def Let_def del: of_nat_mult)
  moreover have inv1: "pages_inv ?t" "free_pages ?t = ps"
  proof -
    let ?w = "upd_env e (\<lambda>e. e\<lparr>env_pgdir := kva_of d 0\<rparr>) s1"
    have "pages_inv ?w" "free_pages ?w = ps" using pages_inv_cong [of ?w s1] s1(2,3) by (simp_all add: upd_env_def)
    then have "pages_inv ?u" "free_pages ?u = ps" using set_ref_inv [of ?w d] d(3) by simp_all
    then show "pages_inv ?t" "free_pages ?t = ps" using pages_inv_cong [of ?t ?u] by simp_all
  qed
  have refs: "pp_ref (pages ?t q) = (if q = d then 1 else pp_ref (pages s q))" for q
    using pages_invD(4) [OF D(1) d(2)] m1 by (simp add: upd_env_def)
  have np: "\<forall>i < UPDX. \<not> present (m i)" using k(3) by (simp add: m_def UPDX_eq)
  have "npages ?t = npages s" "pmem ?t = (pmem s)(d := m)" using m1 by (simp_all add: upd_env_def)
  note V = vm_inv_new_dir [OF inv Cons np inv1 this refs]
  moreover have "env_frame s ?t" by (simp add: env_frame_def upd_env_def set_ref_def s1(4))
  moreover have "\<forall>i < UPDX. \<not> present (pmem ?t d i)" "\<forall>d' \<in> D. pmem ?t d' = pmem s d'" using np dn by auto
  moreover have "envs ?t = (envs s)(e := (envs s e)\<lparr>env_pgdir := kva_of d 0\<rparr>)" "env_free_list ?t = env_free_list s"
    by (simp_all add: upd_env_def s1(4) set_ref_def)
  ultimately show thesis using d(2) dn by (intro created [of ?t d]) auto
qed

end
