(* ===== verification/Kern_Inv.thy ===== *)
theory Kern_Inv
  imports Env_Inv Kern_Spec
begin

text \<open>
  The kernel as a whole: an invariant that ties the environment table of \<^verbatim>\<open>kern/env.c\<close> to the
  page tables and reference counts of \<^verbatim>\<open>kern/pmap.c\<close>, the relation that every system call keeps
  (\<open>step_ok\<close>), and what scheduling, creating and destroying environments and the page functions
  do under the invariant.
\<close>

section \<open>The invariant of the kernel\<close>

definition live :: "kstate \<Rightarrow> nat \<Rightarrow> bool" where
  "live s e \<longleftrightarrow> e < NENV \<and> env_status (envs s e) \<noteq> ENV_FREE"

text \<open>The pages of the page directories: the kernel's and those of the environments.\<close>

definition kdir :: "kstate \<Rightarrow> nat" where "kdir s = pa_page (kern_pgdir s - KERNBASE)"
definition edir :: "kstate \<Rightarrow> nat \<Rightarrow> nat" where "edir s e = pa_page (env_pgdir (envs s e) - KERNBASE)"

definition dirs :: "kstate \<Rightarrow> nat set" where "dirs s = insert (kdir s) (edir s ` {e. live s e})"

definition elink :: "kstate \<Rightarrow> nat \<Rightarrow> nat option" where "elink s e = env_link (envs s e)"

text \<open>
  The directories in use are exactly the kernel's and one for each live environment, all
  different; the reference counts are right for them; the free list holds exactly the
  environments that are not live; the current environment and those that wait for a packet are live.
\<close>

definition env_ok :: "kstate \<Rightarrow> bool" where
  "env_ok s \<longleftrightarrow>
     (\<forall>e. live s e \<longrightarrow> env_pgdir (envs s e) = kva_of (edir s e) 0 \<and> edir s e \<noteq> kdir s)
     \<and> inj_on (edir s) {e. live s e}
     \<and> (\<exists>es. linked (elink s) (env_free_list s) es \<and> set es = {e. e < NENV \<and> \<not> live s e})
     \<and> (\<forall>c. curenv s = Some c \<longrightarrow> live s c)
     \<and> (\<forall>e < NENV. env_e1000_waiting_rx (envs s e) \<longrightarrow> live s e)"

definition kern_ok :: "nat set \<Rightarrow> kstate \<Rightarrow> bool" where
  "kern_ok R s \<longleftrightarrow> vm_inv R (dirs s) (\<lambda>_. 0) s \<and> env_ok s
     \<and> kern_pgdir s = kva_of (kdir s) 0 \<and> (\<forall>i < UPDX. \<not> present (pmem s (kdir s) i))"

lemma kern_okD:
  assumes "kern_ok R s"
  shows "vm_inv R (dirs s) (\<lambda>_. 0) s" and "env_ok s" and "kern_pgdir s = kva_of (kdir s) 0"
    and "\<forall>i < UPDX. \<not> present (pmem s (kdir s) i)" and "kdir s \<in> dirs s" and "kdir s < 65536"
    and "live s e \<Longrightarrow> env_pgdir (envs s e) = kva_of (edir s e) 0" and "live s e \<Longrightarrow> edir s e \<in> dirs s"
    and "curenv s = Some c \<Longrightarrow> live s c"
    and "e < NENV \<Longrightarrow> env_e1000_waiting_rx (envs s e) \<Longrightarrow> live s e"
proof -
  show v: "vm_inv R (dirs s) (\<lambda>_. 0) s" and "env_ok s" and "kern_pgdir s = kva_of (kdir s) 0"
    and "\<forall>i < UPDX. \<not> present (pmem s (kdir s) i)" and k: "kdir s \<in> dirs s"
    and "live s e \<Longrightarrow> env_pgdir (envs s e) = kva_of (edir s e) 0" and "live s e \<Longrightarrow> edir s e \<in> dirs s"
    and "curenv s = Some c \<Longrightarrow> live s c" and "e < NENV \<Longrightarrow> env_e1000_waiting_rx (envs s e) \<Longrightarrow> live s e"
    using assms by (auto simp: kern_ok_def env_ok_def dirs_def)
  show "kdir s < 65536" using tables_wfD(2) [OF vm_invD(2) [OF v] k] vm_invD(6) [OF v] by simp
qed

text \<open>Steps that change no memory and neither directories nor the set of live environments.\<close>

definition env_same :: "kstate \<Rightarrow> kstate \<Rightarrow> bool" where
  "env_same s t \<longleftrightarrow> kern_pgdir t = kern_pgdir s \<and> env_free_list t = env_free_list s
     \<and> (\<forall>e. env_pgdir (envs t e) = env_pgdir (envs s e) \<and> env_link (envs t e) = env_link (envs s e)
          \<and> (env_status (envs t e) = ENV_FREE \<longleftrightarrow> env_status (envs s e) = ENV_FREE))"

lemma env_same_eqs:
  assumes "env_same s t"
  shows "live t = live s" "kdir t = kdir s" "edir t = edir s" "dirs t = dirs s" "elink t = elink s"
proof -
  show l: "live t = live s" and k: "kdir t = kdir s" and e: "edir t = edir s" and "elink t = elink s"
    using assms by (auto simp: env_same_def live_def kdir_def edir_def elink_def fun_eq_iff)
  show "dirs t = dirs s" by (simp add: dirs_def l k e)
qed

lemma kern_ok_same:
  assumes ok: "kern_ok R s" and e: "env_same s t"
    and m: "npages t = npages s" "pages t = pages s" "page_free_list t = page_free_list s" "pmem t = pmem s"
    and cur: "\<forall>c. curenv t = Some c \<longrightarrow> live s c"
    and rx: "\<forall>e < NENV. env_e1000_waiting_rx (envs t e) \<longrightarrow> live s e"
  shows "kern_ok R t"
proof -
  have "env_pgdir (envs t e) = env_pgdir (envs s e)" for e using e by (simp add: env_same_def)
  then show ?thesis
    using ok e cur rx m vm_inv_cong [OF m] unfolding kern_ok_def env_ok_def env_same_eqs [OF e]
    by (auto simp: env_same_def)
qed

text \<open>Steps of the page-table functions.\<close>

lemma kern_ok_vm:
  assumes ok: "kern_ok R s" and f: "vm_frame s t" and v: "vm_inv R (dirs s) (\<lambda>_. 0) t"
    and k: "\<forall>i < UPDX. pmem t (kdir s) i = pmem s (kdir s) i"
  shows "kern_ok R t"
proof -
  note F = vm_frame_fields [OF f]
  have e: "env_same s t" using F by (simp add: env_same_def)
  show ?thesis
    using ok v k F unfolding kern_ok_def env_ok_def env_same_eqs [OF e] by auto
qed

text \<open>\<open>calm R z t\<close>: from \<open>z\<close> to \<open>t\<close> neither memory nor the live environments have changed.\<close>

definition calm :: "nat set \<Rightarrow> kstate \<Rightarrow> kstate \<Rightarrow> bool" where
  "calm R z t \<longleftrightarrow> kern_ok R t \<and> env_same z t \<and> pmem t = pmem z"

lemma calm_refl: "kern_ok R s \<Longrightarrow> calm R s s"
  by (simp add: calm_def env_same_def)

lemma calm_same:
  assumes c: "calm R z s" and e: "env_same s t"
    and m: "npages t = npages s" "pages t = pages s" "page_free_list t = page_free_list s" "pmem t = pmem s"
    and cur: "\<forall>c. curenv t = Some c \<longrightarrow> live s c" and rx: "\<forall>e < NENV. env_e1000_waiting_rx (envs t e) \<longrightarrow> live s e"
  shows "calm R z t"
  using kern_ok_same [OF _ e m cur rx] c e m(4) by (auto simp: calm_def env_same_def)

lemma calm_ok: "calm R z s \<Longrightarrow> kern_ok R s"
  by (simp add: calm_def)

lemma calm_upd_env:
  assumes c: "calm R z s" and e: "live s e" and "env_pgdir (f (envs s e)) = env_pgdir (envs s e)"
    and "env_link (f (envs s e)) = env_link (envs s e)" and "env_status (f (envs s e)) \<noteq> ENV_FREE"
  shows "calm R z (upd_env e f s)" and "live (upd_env e f s) = live s"
proof -
  have s: "env_same s (upd_env e f s)" using assms by (auto simp: env_same_def upd_env_def live_def)
  then show "live (upd_env e f s) = live s" by (rule env_same_eqs)
  show "calm R z (upd_env e f s)"
    by (rule calm_same [OF c s]) (use kern_okD(9,10) [OF calm_ok [OF c]] e in \<open>auto simp: upd_env_def curenv_def\<close>)
qed

lemma upd_env_fields [simp]:
  "cpus (upd_env e f s) = cpus s" "cpunum (upd_env e f s) = cpunum s" "curenv (upd_env e f s) = curenv s"
  "kern_pgdir (upd_env e f s) = kern_pgdir s" "envs (upd_env e f s) = (envs s)(e := f (envs s e))"
  "pages (upd_env e f s) = pages s" "pmem (upd_env e f s) = pmem s" "npages (upd_env e f s) = npages s"
  by (simp_all add: upd_env_def curenv_def)

lemma calm_misc:
  assumes c: "calm R z s"
  shows "calm R z (s\<lparr>cons := k\<rparr>)" and "calm R z (lcr3 pa s)" and "calm R z (s\<lparr>lock_cpu := l\<rparr>)"
    and "calm R z (s\<lparr>user_mem_check_addr := a\<rparr>)" and "calm R z (set_curenv None s)"
    and "live s e \<Longrightarrow> calm R z (set_curenv (Some e) s)"
    and "calm R z (s\<lparr>cpus := (cpus s)(cpunum s := (cpus s (cpunum s))\<lparr>cpu_status := st\<rparr>)\<rparr>)"
    and "calm R z (s\<lparr>nic := n\<rparr>)"
  by (rule calm_same [OF c]; use kern_okD(9,10) [OF calm_ok [OF c]] in
      \<open>auto simp: env_same_def curenv_def lcr3_def set_curenv_def live_def\<close>)+

lemma calm_unlock: "calm R z s \<Longrightarrow> kres_all (calm R z) (unlock_kernel s)"
  by (simp add: unlock_kernel_def calm_misc)

lemma calm_PADDR: "calm R z s \<Longrightarrow> kres_all (calm R z) (PADDR a s)"
  by (simp add: PADDR_def)

section \<open>The scheduler\<close>

lemma env_run_calm:
  assumes c: "calm R z s" and e: "live s e"
  shows "kres_all (calm R z) (env_run e s :: 'a kres)"
proof -
  define s1 where "s1 = (case curenv s of None \<Rightarrow> s
      | Some c \<Rightarrow> if env_status (envs s c) = ENV_RUNNING then upd_env c (\<lambda>v. v\<lparr>env_status := ENV_RUNNABLE\<rparr>) s else s)"
  have s1: "calm R z s1" "live s1 = live s"
    using c kern_okD(9) [OF calm_ok [OF c]] calm_upd_env [OF c, of _ "\<lambda>v. v\<lparr>env_status := ENV_RUNNABLE\<rparr>"]
    by (auto simp: s1_def split: option.splits)
  let ?s2 = "set_curenv (Some e) s1" and ?f = "\<lambda>v. v\<lparr>env_status := ENV_RUNNING, env_runs := env_runs v + 1\<rparr>"
  have s2: "calm R z ?s2" "live ?s2 = live s" "curenv ?s2 = Some e"
    using calm_misc(6) [OF s1(1)] e s1(2) by (simp_all add: set_curenv_def live_def curenv_def fun_eq_iff)
  have s3: "calm R z (upd_env e ?f ?s2)" by (rule calm_upd_env) (use s2 e in auto)
  have "kres_all (calm R z) (env_pop_tf t :: 'a kres)" if t: "calm R z t" for t
    unfolding env_pop_tf_def
    using t kern_okD(9) [OF calm_ok [OF t]] calm_upd_env(1) [OF t, of _ "\<lambda>v. v\<lparr>env_cpunum := cpunum t\<rparr>"]
    by (auto simp: null_deref_def live_def split: option.splits)
  then show ?thesis
    unfolding env_run_def s1_def [symmetric] Let_def
    by (intro kres_all_kbind calm_PADDR s3 calm_unlock calm_misc(2))
qed

lemma sched_pick_Some: "sched_pick s i n = Some j \<Longrightarrow> j < NENV \<and> env_status (envs s j) = ENV_RUNNABLE"
  by (induction n arbitrary: i) (auto simp: Let_def NENV_def split: if_splits)

lemma sched_halt_calm: "calm R z s \<Longrightarrow> kres_all (calm R z) (sched_halt s)"
  unfolding sched_halt_def Let_def
  by (auto intro!: kres_all_kbind calm_PADDR calm_unlock calm_misc)

lemma sched_yield_calm:
  assumes c: "calm R z s"
  shows "kres_all (calm R z) (sched_yield s)"
proof -
  note ok = calm_ok [OF c]
  have "live s j" if "sched_pick s (sched_start s) NENV = Some j" for j
    using sched_pick_Some [OF that] by (simp add: live_def)
  moreover have "live s i" if "find (\<lambda>i. env_e1000_waiting_rx (envs s i)) [0..<NENV] = Some i" for i
    using that kern_okD(10) [OF ok] by (auto simp: find_Some_iff)
  then have "kres_all (calm R z) (env_run i (upd_env i (\<lambda>v. v\<lparr>env_e1000_waiting_rx := False\<rparr>) s))"
    if "find (\<lambda>i. env_e1000_waiting_rx (envs s i)) [0..<NENV] = Some i" for i
    using that by (intro env_run_calm) (auto simp: calm_upd_env [OF c] live_def)
  moreover have "kres_all (calm R z) (env_run (the (curenv s)) s)" if "curenv s \<noteq> None"
    using that env_run_calm [OF c] kern_okD(9) [OF ok] by auto
  ultimately show ?thesis
    unfolding sched_yield_def using env_run_calm [OF c] sched_halt_calm [OF c] by (auto split: option.splits)
qed

section \<open>What a system call may do\<close>

text \<open>The pages that some environment may write.\<close>

definition writable :: "kstate \<Rightarrow> nat set" where
  "writable s = {pg v |d i j v. d \<in> dirs s \<and> i < UPDX \<and> j < 1024 \<and> uvm (pmem s) d i j = Some v \<and> v AND PTE_W \<noteq> 0}"

lemma writableI:
  "d \<in> dirs s \<Longrightarrow> i < UPDX \<Longrightarrow> j < 1024 \<Longrightarrow> uvm (pmem s) d i j = Some v \<Longrightarrow> v AND PTE_W \<noteq> 0 \<Longrightarrow> pg v \<in> writable s"
  by (auto simp: writable_def)

lemma writable_subsetI:
  assumes "\<And>d i j v. d \<in> dirs s \<Longrightarrow> i < UPDX \<Longrightarrow> j < 1024 \<Longrightarrow> uvm (pmem s) d i j = Some v \<Longrightarrow> v AND PTE_W \<noteq> 0 \<Longrightarrow> pg v \<in> A"
  shows "writable s \<subseteq> A"
  using assms by (auto simp: writable_def)

text \<open>The environments that the caller may manipulate: itself and its children.\<close>

definition owned :: "kstate \<Rightarrow> nat \<Rightarrow> bool" where
  "owned s e \<longleftrightarrow> (\<exists>c. curenv s = Some c \<and> (e = c \<or> env_parent_id (envs s e) = env_id (envs s c)))"

text \<open>Where an environment that waits for a message has agreed to receive a page.\<close>

definition recv_slot :: "kstate \<Rightarrow> nat \<Rightarrow> nat \<Rightarrow> nat \<Rightarrow> bool" where
  "recv_slot s e i j \<longleftrightarrow> env_ipc_recving (envs s e) \<and> env_ipc_dstva (envs s e) < UTOP
     \<and> i = unat (PDX (env_ipc_dstva (envs s e))) \<and> j = unat (PTX (env_ipc_dstva (envs s e)))"

definition isolated :: "kstate \<Rightarrow> kstate \<Rightarrow> bool" where
  "isolated s t \<longleftrightarrow> (\<forall>e. live s e \<and> \<not> owned s e \<longrightarrow> live t e \<and> edir t e = edir s e
     \<and> (\<forall>i < UPDX. \<forall>j < 1024. \<not> recv_slot s e i j \<longrightarrow> uvm (pmem t) (edir s e) i j = uvm (pmem s) (edir s e) i j))"

definition step_ok :: "nat set \<Rightarrow> kstate \<Rightarrow> kstate \<Rightarrow> bool" where
  "step_ok R s t \<longleftrightarrow> kern_ok R t \<and> writable t \<subseteq> writable s \<union> set (free_pages s) \<and> isolated s t"

lemma step_ok_calm:
  assumes "step_ok R s t" and "calm R t u"
  shows "step_ok R s u"
proof -
  have e: "env_same t u" and m: "pmem u = pmem t" and k: "kern_ok R u" using assms(2) by (simp_all add: calm_def)
  have "writable u = writable t" by (simp add: writable_def m env_same_eqs [OF e])
  then show ?thesis using assms(1) k by (simp add: step_ok_def isolated_def m env_same_eqs [OF e])
qed

lemma calm_step_ok: "calm R s t \<Longrightarrow> step_ok R s t"
  using env_same_eqs [of s t] by (auto simp: calm_def step_ok_def isolated_def writable_def)

lemma step_ok_refl: "kern_ok R s \<Longrightarrow> step_ok R s s"
  by (rule calm_step_ok [OF calm_refl])

lemma kres_all_mono: "kres_all P r \<Longrightarrow> (\<And>t. P t \<Longrightarrow> Q t) \<Longrightarrow> kres_all Q r"
  by (cases r) auto

lemma sched_yield_step: "step_ok R s t \<Longrightarrow> calm R t u \<Longrightarrow> kres_all (step_ok R s) (sched_yield u)"
  using sched_yield_calm [of R t u] step_ok_calm kres_all_mono by blast

text \<open>A step that changes one mapping of one environment.\<close>

lemma step_ok_vm:
  assumes ok: "kern_ok R s" and t: "kern_ok R t" "env_same s t" and e: "live s e"
    and o: "owned s e \<or> recv_slot s e ii jj"
    and u: "\<forall>d \<in> dirs s. \<forall>i < UPDX. \<forall>j < 1024. uvm (pmem t) d i j = (if (d, i, j) = (edir s e, ii, jj) then v else uvm (pmem s) d i j)"
    and w: "\<forall>x. v = Some x \<longrightarrow> x AND PTE_W \<noteq> 0 \<longrightarrow> pg x \<in> writable s \<union> set (free_pages s)"
  shows "step_ok R s t"
proof -
  note E = env_same_eqs [OF t(2)]
  have "pg x \<in> writable s \<union> set (free_pages s)"
    if "d \<in> dirs s" "i < UPDX" "j < 1024" "uvm (pmem t) d i j = Some x" "x AND PTE_W \<noteq> 0" for d i j x
  proof (cases "(d, i, j) = (edir s e, ii, jj)")
    case True
    then show ?thesis using that u w by auto
  next
    case False
    then have "uvm (pmem s) d i j = Some x" using that(1-4) u by metis
    then show ?thesis using that writableI by blast
  qed
  then have "writable t \<subseteq> writable s \<union> set (free_pages s)" by (intro writable_subsetI) (simp add: E)
  moreover have "uvm (pmem t) (edir s x) i j = uvm (pmem s) (edir s x) i j"
    if x: "live s x" "\<not> owned s x" and ij: "i < UPDX" "j < 1024" "\<not> recv_slot s x i j" for x i j
  proof -
    have "edir s x \<noteq> edir s e" if "x \<noteq> e"
      using kern_okD(2) [OF ok] x(1) e that by (auto simp: env_ok_def inj_on_def)
    then have "(edir s x, i, j) \<noteq> (edir s e, ii, jj)" using x o ij by auto
    then show ?thesis using u kern_okD(8) [OF ok x(1)] ij by metis
  qed
  ultimately show ?thesis using t(1) by (auto simp: step_ok_def isolated_def E)
qed

section \<open>Destroying and creating environments\<close>

lemma kern_ok_free_env:
  assumes ok: "kern_ok R s" and e: "live s e" "\<not> env_e1000_waiting_rx (envs s e)"
    and t: "vm_inv R (dirs s - {edir s e}) (\<lambda>_. 0) t" "env_frame s t"
      "envs t = (envs s)(e := (envs s e)\<lparr>env_pgdir := 0, env_status := ENV_FREE, env_link := env_free_list s\<rparr>)"
      "env_free_list t = Some e" "\<forall>d' \<in> dirs s - {edir s e}. pmem t d' = pmem s d'"
    and cur: "curenv s \<noteq> Some e"
  shows "kern_ok R t"
proof -
  have kp: "kern_pgdir t = kern_pgdir s" and ct: "curenv t = curenv s"
    using t(2) by (simp_all add: env_frame_def curenv_def)
  have l: "live t = (\<lambda>x. live s x \<and> x \<noteq> e)" using t(3) by (auto simp: live_def fun_eq_iff)
  have ed: "edir t x = edir s x" if "x \<noteq> e" for x using that t(3) by (simp add: edir_def)
  have kd: "kdir t = kdir s" by (simp add: kdir_def kp)
  obtain es where es: "linked (elink s) (env_free_list s) es" "set es = {e. e < NENV \<and> \<not> live s e}"
    using kern_okD(2) [OF ok] by (auto simp: env_ok_def)
  have E: "inj_on (edir s) {e. live s e}" "\<And>x. live s x \<Longrightarrow> edir s x \<noteq> kdir s"
    using kern_okD(2) [OF ok] by (auto simp: env_ok_def)
  have "edir t ` {x. live t x} = edir s ` {x. live s x} - {edir s e}"
    using E(1) e(1) ed by (auto simp: l inj_on_def image_iff)
  then have D: "dirs t = dirs s - {edir s e}" using E(2) [OF e(1)] by (auto simp: dirs_def kd)
  have "e \<notin> set es" using es(2) e(1) by simp
  moreover have "elink t = (elink s)(e := env_free_list s)" by (auto simp: elink_def t(3) fun_eq_iff)
  ultimately have "linked (elink t) (env_free_list t) (e # es)" using es(1) by (simp add: t(4))
  moreover have "set (e # es) = {x. x < NENV \<and> \<not> live t x}" using es(2) e(1) by (auto simp: l live_def)
  ultimately have fl: "\<exists>es. linked (elink t) (env_free_list t) es \<and> set es = {x. x < NENV \<and> \<not> live t x}" by blast
  have pd: "env_pgdir (envs t x) = kva_of (edir t x) 0 \<and> edir t x \<noteq> kdir t" if "live t x" for x
    using that E(2) [of x] kern_okD(7) [OF ok, of x] ed [of x] t(3) by (simp add: l kd)
  have inj: "inj_on (edir t) {x. live t x}" using E(1) ed by (auto simp: l inj_on_def)
  have rx: "live t x" if "x < NENV" "env_e1000_waiting_rx (envs t x)" for x
    using that kern_okD(10) [OF ok, of x] e(2) t(3) by (auto simp: l split: if_splits)
  have "env_ok t" unfolding env_ok_def
    using pd inj fl rx kern_okD(9) [OF ok] cur by (auto simp: ct l)
  moreover have "kdir s \<in> dirs s - {edir s e}" using E(2) [OF e(1)] by (auto simp: dirs_def)
  ultimately show ?thesis
    using t(1,5) kern_okD(3,4) [OF ok] unfolding kern_ok_def D kd kp by auto
qed

lemma dirs_split: "live s e \<Longrightarrow> insert (edir s e) (dirs s - {edir s e}) = dirs s"
  by (auto simp: dirs_def)

lemma step_ok_free_env:
  assumes ok: "kern_ok R s" and e: "live s e" "\<not> env_e1000_waiting_rx (envs s e)" "owned s e"
    and t: "kern_ok R t" "kern_pgdir t = kern_pgdir s"
      "envs t = (envs s)(e := (envs s e)\<lparr>env_pgdir := 0, env_status := ENV_FREE, env_link := env_free_list s\<rparr>)"
    and u: "\<forall>d' \<in> dirs s - {edir s e}. \<forall>i < UPDX. \<forall>j < 1024. uvm (pmem t) d' i j = uvm (pmem s) d' i j"
  shows "step_ok R s t"
proof -
  have l: "live t = (\<lambda>x. live s x \<and> x \<noteq> e)" using t(3) by (auto simp: live_def fun_eq_iff)
  have ed: "edir t x = edir s x" if "x \<noteq> e" for x using that t(3) by (simp add: edir_def)
  have kd: "kdir t = kdir s" using t(2) by (simp add: kdir_def)
  have E: "inj_on (edir s) {e. live s e}" "edir s e \<noteq> kdir s"
    using kern_okD(2) [OF ok] e(1) by (auto simp: env_ok_def)
  have x: "edir s x \<in> dirs s - {edir s e}" if "live s x" "x \<noteq> e" for x
    using that E(1) e(1) by (auto simp: dirs_def inj_on_def)
  have "dirs t \<subseteq> dirs s - {edir s e}" using x E(2) ed by (auto simp: dirs_def kd l)
  then have "writable t \<subseteq> writable s" using u writableI [of _ s] by (intro writable_subsetI) (metis DiffD1 subsetD)
  moreover have "z \<noteq> e" if "\<not> owned s z" for z using that e(3) by auto
  then have "isolated s t" unfolding isolated_def using l ed x u by simp
  ultimately show ?thesis using t(1) by (auto simp: step_ok_def)
qed

lemma env_destroy_ok:
  assumes ok: "kern_ok R s" and e: "live s e" "\<not> env_e1000_waiting_rx (envs s e)" "owned s e"
  shows "kres_all (step_ok R s) (env_destroy e s)"
proof (cases "env_status (envs s e) = ENV_RUNNING \<and> curenv s \<noteq> Some e")
  case True
  then show ?thesis using calm_upd_env(1) [OF calm_refl [OF ok] e(1)] by (simp add: env_destroy_def calm_step_ok)
next
  case not_running: False
  obtain t where t: "env_free e s = Ret () t" "vm_inv R (dirs s - {edir s e}) (\<lambda>_. 0) t" "env_frame s t"
    "envs t = (envs s)(e := (envs s e)\<lparr>env_pgdir := 0, env_status := ENV_FREE, env_link := env_free_list s\<rparr>)"
    "env_free_list t = Some e" "\<forall>d' \<in> dirs s - {edir s e}. pmem t d' = pmem s d'"
    "\<forall>d' \<in> dirs s - {edir s e}. \<forall>i < UPDX. \<forall>j < 1024. uvm (pmem t) d' i j = uvm (pmem s) d' i j"
    by (rule env_free_ok [of R "edir s e" "dirs s - {edir s e}" s e "kdir s"])
       (use dirs_split [OF e(1)] kern_okD [OF ok] e(1) that in auto)
  have ct: "curenv t = curenv s" using t(3) by (simp add: env_frame_def curenv_def)
  show ?thesis
  proof (cases "curenv s = Some e")
    case False
    then have "kern_ok R t" using kern_ok_free_env [OF ok e(1,2) t(2-6)] by simp
    then have "step_ok R s t" by (rule step_ok_free_env [OF ok e _ _ t(4,7)]) (use t(3) in \<open>simp add: env_frame_def\<close>)
    then show ?thesis using t(1) ct False not_running by (auto simp: env_destroy_def)
  next
    case True
    let ?s = "set_curenv None s" and ?t = "set_curenv None t"
    have D: "dirs ?s = dirs s" "edir ?s = edir s"
      by (simp_all add: set_curenv_def dirs_def kdir_def edir_def live_def fun_eq_iff cong: image_cong)
    have "kern_ok R ?t"
    proof (rule kern_ok_free_env [OF calm_ok [OF calm_misc(5) [OF calm_refl [OF ok]]], of e])
      show "vm_inv R (dirs ?s - {edir ?s e}) (\<lambda>_. 0) ?t"
        using t(2) vm_inv_cong [of ?t t] D by (simp add: set_curenv_def)
      show "\<forall>d' \<in> dirs ?s - {edir ?s e}. pmem ?t d' = pmem ?s d'" using t(6) D by (simp add: set_curenv_def)
    qed (use e t(3-5) in \<open>simp_all add: set_curenv_def live_def env_frame_def curenv_def\<close>)
    moreover from this have "step_ok R s ?t"
      by (rule step_ok_free_env [OF ok e]) (use t(3,4,7) in \<open>simp_all add: set_curenv_def env_frame_def\<close>)
    ultimately have "kres_all (step_ok R s) (sched_yield ?t :: unit kres)" by (intro sched_yield_step [OF _ calm_refl])
    then show ?thesis using t(1) ct True by (simp add: env_destroy_def)
  qed
qed

lemma kern_ok_new_env:
  assumes ok: "kern_ok R s" and f: "env_free_list s = Some e"
    and t: "vm_inv R (insert d (dirs s)) (\<lambda>_. 0) t" "d \<notin> dirs s" "env_frame s t" "envs t = (envs s)(e := v)"
      "env_free_list t = env_link (envs s e)" "pmem t (kdir s) = pmem s (kdir s)"
    and v: "env_pgdir v = kva_of d 0" "env_status v \<noteq> ENV_FREE"
    and u: "\<forall>i < UPDX. \<not> present (pmem t d i)" "\<forall>d' \<in> dirs s. \<forall>i < UPDX. \<forall>j. uvm (pmem t) d' i j = uvm (pmem s) d' i j"
  shows "kern_ok R t" and "step_ok R s t" and "\<not> live s e" and "live t = (\<lambda>x. live s x \<or> x = e)"
proof -
  have kp: "kern_pgdir t = kern_pgdir s" and ct: "curenv t = curenv s"
    using t(3) by (simp_all add: env_frame_def curenv_def)
  have kd: "kdir t = kdir s" by (simp add: kdir_def kp)
  have "d < 1048576" using tables_wfD(2) [OF vm_invD(2) [OF t(1)]] vm_invD(6) [OF t(1)] by fastforce
  then have ed: "edir t e = d" "x \<noteq> e \<Longrightarrow> edir t x = edir s x" for x using t(4) v(1) by (simp_all add: edir_def kva_of_parts)
  obtain es0 where "linked (elink s) (Some e) es0" "set es0 = {e. e < NENV \<and> \<not> live s e}"
    using kern_okD(2) [OF ok] f by (auto simp: env_ok_def)
  then obtain es where "linked (elink s) (Some e) (e # es)" and es: "linked (elink s) (env_link (envs s e)) es"
    "set (e # es) = {e. e < NENV \<and> \<not> live s e}" by (auto simp: linked_Some elink_def)
  then have es: "linked (elink s) (env_link (envs s e)) es" "set (e # es) = {e. e < NENV \<and> \<not> live s e}" "e \<notin> set es"
    using linked_distinct [of "elink s" "Some e" "e # es"] by auto
  then show nl: "\<not> live s e" by auto
  have eN: "e < NENV" using es(2) by auto
  show l: "live t = (\<lambda>x. live s x \<or> x = e)" using t(4) v(2) eN by (auto simp: live_def fun_eq_iff)
  have E: "inj_on (edir s) {e. live s e}" "\<And>x. live s x \<Longrightarrow> edir s x \<noteq> kdir s"
    using kern_okD(2) [OF ok] by (auto simp: env_ok_def)
  have D: "dirs t = insert d (dirs s)"
    using ed nl by (auto simp: dirs_def kd l image_iff) metis+
  have "elink t x = elink s x" if "x \<in> set es" for x using that es(3) t(4) by (auto simp: elink_def)
  then have "linked (elink t) (env_free_list t) es" using es(1) linked_cong [of es "elink t" "elink s"] t(5) by simp
  moreover have "set es = {x. x < NENV \<and> \<not> live t x}" using es(2,3) by (auto simp: l)
  ultimately have fl: "\<exists>es. linked (elink t) (env_free_list t) es \<and> set es = {x. x < NENV \<and> \<not> live t x}" by blast
  have dn: "d \<noteq> kdir s" "live s x \<Longrightarrow> edir s x \<noteq> d" for x using t(2) by (auto simp: dirs_def)
  have pd: "env_pgdir (envs t x) = kva_of (edir t x) 0 \<and> edir t x \<noteq> kdir t" if "live t x" for x
    using that E(2) [of x] kern_okD(7) [OF ok, of x] ed(1) ed(2) [of x] t(4) v(1) dn(1) by (auto simp: l kd)
  have "edir t x = (if x = e then d else edir s x)" for x using ed by simp
  then have inj: "inj_on (edir t) {x. live t x}" using E(1) dn(2) nl by (auto simp: l inj_on_def)
  have rx: "live t x" if "x < NENV" "env_e1000_waiting_rx (envs t x)" for x
    using that kern_okD(10) [OF ok, of x] t(4) by (auto simp: l split: if_splits)
  have "env_ok t" unfolding env_ok_def using pd inj fl rx kern_okD(9) [OF ok] by (auto simp: ct l)
  then show k: "kern_ok R t" using t(1,6) kern_okD(3,4) [OF ok] unfolding kern_ok_def D kd kp by auto
  have "writable t \<subseteq> writable s"
  proof (rule writable_subsetI)
    fix d' i j v assume a: "d' \<in> dirs t" "i < UPDX" "j < 1024" "uvm (pmem t) d' i j = Some v" "v AND PTE_W \<noteq> 0"
    then have "d' \<in> dirs s" using u(1) unfolding D by (auto simp: uvm_def split: if_splits)
    then show "pg v \<in> writable s" using a u(2) writableI by metis
  qed
  moreover have "z \<noteq> e" if "live s z" for z using that nl by auto
  then have "isolated s t" unfolding isolated_def using l ed(2) u(2) kern_okD(8) [OF ok] by simp
  ultimately show "step_ok R s t" using k by (auto simp: step_ok_def)
qed

lemma env_alloc_ok:
  assumes ok: "kern_ok R s"
  obtains (failed) r where "env_alloc pid s = Ret (r, None) s" "r < 0"
  | (created) e t where "env_alloc pid s = Ret (0, Some e) t" "kern_ok R t" "step_ok R s t" "\<not> live s e" "live t = (\<lambda>x. live s x \<or> x = e)"
      "curenv t = curenv s" "envs t = (envs s)(e := envs t e)"
proof (cases "env_free_list s")
  case None
  then show thesis using failed [of "- E_NO_FREE_ENV"] by (simp add: env_alloc_def E_NO_FREE_ENV_def)
next
  case (Some e)
  show thesis
  proof (rule env_setup_vm_ok [OF kern_okD(1,3,5,4) [OF ok], of e])
    assume "env_setup_vm e s = Ret (- E_NO_MEM) s"
    then show thesis using failed [of "- E_NO_MEM"] Some by (simp add: env_alloc_def E_NO_MEM_def)
  next
    fix d u
    assume u: "env_setup_vm e s = Ret 0 u" "d \<notin> dirs s" "vm_inv R (insert d (dirs s)) (\<lambda>_. 0) u" "env_frame s u"
      "envs u = (envs s)(e := (envs s e)\<lparr>env_pgdir := kva_of d 0\<rparr>)" "\<forall>d' \<in> dirs s. pmem u d' = pmem s d'"
      "\<forall>i < UPDX. \<not> present (pmem u d i)" "\<forall>d' \<in> dirs s. \<forall>i < UPDX. \<forall>j. uvm (pmem u) d' i j = uvm (pmem s) d' i j"
    obtain t where t: "env_alloc pid s = Ret (0, Some e) t" "npages t = npages u" "pages t = pages u"
      "page_free_list t = page_free_list u" "pmem t = pmem u" "env_frame u t" "envs t = (envs u)(e := envs t e)"
      "env_pgdir (envs t e) = kva_of d 0" "env_status (envs t e) = ENV_RUNNABLE" "env_free_list t = env_link (envs s e)"
      using Some u(1,5) by (simp add: env_alloc_def Let_def env_frame_def upd_env_def)
    have fr: "env_frame s t" using u(4) t(6) by (simp add: env_frame_def)
    have "envs t = (envs s)(e := envs t e)" by (subst t(7)) (simp add: u(5))
    moreover have "vm_inv R (insert d (dirs s)) (\<lambda>_. 0) t" using u(3) vm_inv_cong [OF t(2-5)] by simp
    moreover have "pmem t (kdir s) = pmem s (kdir s)" using u(6) kern_okD(5) [OF ok] t(5) by simp
    ultimately show thesis
      using created [OF t(1)] kern_ok_new_env [OF ok Some _ u(2) fr _ t(10) _ t(8)] t(5,9) u(7,8) fr
      by (simp add: env_frame_def curenv_def)
  qed
qed

section \<open>Environments named by user code\<close>

lemma envid2env_ok:
  assumes ok: "kern_ok R s"
  obtains (none) "curenv s = None" "(\<exists>m. envid2env envid cp s = Panic m) \<or> envid2env envid cp s = Ret (0, None) s"
  | (failed) r where "envid2env envid cp s = Ret (r, None) s" "r < 0"
  | (found) e where "envid2env envid cp s = Ret (0, Some e) s" "live s e" "cp \<Longrightarrow> owned s e"
proof -
  have "ENVX envid < NENV" by (simp add: ENVX_eq NENV_def)
  then have "curenv s = None \<and> ((\<exists>m. envid2env envid cp s = Panic m) \<or> envid2env envid cp s = Ret (0, None) s)
      \<or> (\<exists>r. envid2env envid cp s = Ret (r, None) s \<and> r < 0)
      \<or> (\<exists>e. envid2env envid cp s = Ret (0, Some e) s \<and> live s e \<and> (cp \<longrightarrow> owned s e))"
    using kern_okD(9) [OF ok]
    by (auto simp: envid2env_def Let_def null_deref_def live_def owned_def E_BAD_ENV_def split: option.splits)
  then show thesis using none failed found by blast
qed

lemma with_env_cases:
  assumes ok: "kern_ok R s"
  obtains (none) m where "curenv s = None" "with_env envid cp bad good s = Panic m"
  | (failed) r where "with_env envid cp bad good s = bad r s" "r < 0"
  | (found) e where "envid2env envid cp s = Ret (0, Some e) s" "with_env envid cp bad good s = good e s"
      "live s e" "cp \<Longrightarrow> owned s e"
  by (rule envid2env_ok [OF ok, of envid cp])
     (auto simp: with_env_def null_deref_def intro: none failed found)

lemma with_env_ok:
  assumes "kern_ok R s" and "\<And>r. kres_all Q (bad r s)" and "\<And>e. live s e \<Longrightarrow> (cp \<Longrightarrow> owned s e) \<Longrightarrow> kres_all Q (good e s)"
  shows "kres_all Q (with_env envid cp bad good s)"
  using assms(1)
proof (cases rule: with_env_cases [where envid = envid and cp = cp and bad = bad and good = good])
qed (use assms in auto)

lemma with_curenv_ok:
  assumes "kern_ok R s" and "\<And>c. live s c \<Longrightarrow> curenv s = Some c \<Longrightarrow> kres_all Q (f c s)"
  shows "kres_all Q (with_curenv f s)"
  using assms kern_okD(9) [OF assms(1)] by (auto simp: with_curenv_def null_deref_def split: option.splits)

section \<open>Pages in the hands of a system call\<close>

lemma vm_inv_take:
  assumes inv: "vm_inv R D X s" and f: "free_pages s = p # ps" and X: "X p = 0"
    and t: "pages_inv t" "free_pages t = ps" "npages t = npages s" "pmem t = (pmem s)(p := m)"
    and refs: "\<And>q. pp_ref (pages t q) = pp_ref (pages s q)"
  shows "vm_inv R D X t" and "mappable R D t p" and "pp_ref (pages t p) = 0"
    and "d \<in> D \<Longrightarrow> i < UPDX \<Longrightarrow> uvm (pmem t) d i j = uvm (pmem s) d i j" and "p \<notin> D"
proof -
  note D = vm_invD [OF inv]
  have p: "p < unat (npages s)" "p \<in> set (free_pages s)" "p \<notin> set ps"
    using pages_invD(3,6) [OF D(1)] f by auto
  then have pn: "p \<notin> D" "p \<notin> ptps (pmem s) D" "p \<notin> R" using D(2,3) by (auto simp: tables_wf_def)
  show "p \<notin> D" by (rule pn(1))
  have "\<forall>q \<in> D \<union> ptps (pmem s) D. pmem t q = pmem s q" using pn by (auto simp: t(4))
  note C = tables_agree [OF this]
  show "uvm (pmem t) d i j = uvm (pmem s) d i j" if "d \<in> D" "i < UPDX" using that by (rule C(7))
  show "pp_ref (pages t p) = 0" using refs pages_invD(4) [OF D(1) p(2)] by simp
  show "mappable R D t p" using p pn by (simp add: mappable_def t(2,3) C(2))
  have tg: "utgt (pmem t) ` umaps (pmem s) D = utgt (pmem s) ` umaps (pmem s) D"
    using C(4) by (intro image_cong) auto
  have wf: "tables_wf (unat (npages t)) (pmem t) D (set (free_pages t))"
    using D(2) f unfolding C(6) t(2,3) by (auto simp: tables_wf_def)
  have "R \<inter> (set (free_pages t) \<union> D \<union> ptps (pmem s) D \<union> utgt (pmem s) ` umaps (pmem s) D) = {}"
    using D(3) f t(2) by auto
  then show "vm_inv R D X t"
    unfolding vm_inv_def C(2,3,5) tg using wf t(1,3) D(4,5) refs by auto
qed

lemma vm_inv_give_back:
  assumes inv: "vm_inv R D X s" and p: "mappable R D s p" "pp_ref (pages s p) = 0"
  obtains t where "page_free p s = Ret () t" and "vm_inv R D X t" and "vm_frame s t" and "pmem t = pmem s"
proof -
  note D = vm_invD [OF inv]
  obtain t where t: "page_free p s = Ret () t" "pages_inv t" "free_pages t = p # free_pages s"
    "t = s\<lparr>pages := (pages s)(p := (pages s p)\<lparr>pp_link := page_free_list s\<rparr>), page_free_list := Some p\<rparr>"
    by (rule page_free_ok [OF D(1), of p]) (use p in \<open>auto simp: mappable_def page_owned_def intro: that\<close>)
  have "p \<notin> utgt (pmem s) ` umaps (pmem s) D" using mapped_page(7) [OF inv] p(2) by blast
  then have wf: "tables_wf (unat (npages s)) (pmem s) D (set (free_pages t))"
    using D(2) p(1) t(3) unfolding tables_wf_def mappable_def by auto
  have R: "R \<inter> (set (free_pages t) \<union> D \<union> ptps (pmem s) D \<union> utgt (pmem s) ` umaps (pmem s) D) = {}"
    using D(3) p(1) t(3) by (auto simp: mappable_def)
  have m: "pmem t = pmem s" "npages t = npages s" "\<And>q. pp_ref (pages t q) = pp_ref (pages s q)"
    by (simp_all add: t(4))
  then have "vm_inv R D X t" unfolding vm_inv_def using wf R t(2) D(4,5) by auto
  moreover have "vm_frame s t"
    by (rule vm_frameI [where p = "pages t" and f = "Some p" and m = "pmem s" and c = "tlb s"]) (simp add: t(4))
  ultimately show thesis using that t(1) m(1) by blast
qed

lemma kern_page_alloc:
  assumes ok: "kern_ok R s"
  obtains (empty) "page_alloc 1 s = Ret None s" "free_pages s = []"
  | (taken) p t where "page_alloc 1 s = Ret (Some p) t" "free_pages s = p # free_pages t" "kern_ok R t" "vm_frame s t"
      "mappable R (dirs s) t p" "pp_ref (pages t p) = 0" "pmem t p = (\<lambda>_. 0)"
      "\<forall>d \<in> dirs s. \<forall>i < UPDX. \<forall>j. uvm (pmem t) d i j = uvm (pmem s) d i j"
proof (cases "free_pages s")
  case Nil
  then show thesis using page_alloc_empty [OF vm_invD(1) [OF kern_okD(1) [OF ok]] Nil] by (intro empty) auto
next
  case (Cons p ps)
  note V = kern_okD(1) [OF ok]
  obtain t where t: "page_alloc 1 s = Ret (Some p) t" "pages_inv t" "free_pages t = ps"
    "t = s\<lparr>page_free_list := pp_link (pages s p), pages := (pages s)(p := (pages s p)\<lparr>pp_link := None\<rparr>),
            pmem := (if 1 AND ALLOC_ZERO \<noteq> 0 then (pmem s)(p := (\<lambda>_. 0)) else pmem s)\<rparr>"
    using page_alloc_Cons [OF vm_invD(1) [OF V] Cons, of 1] by blast
  have m: "npages t = npages s" "pmem t = (pmem s)(p := (\<lambda>_. 0))" "\<And>q. pp_ref (pages t q) = pp_ref (pages s q)"
    by (simp_all add: t(4) ALLOC_ZERO_def)
  note T = vm_inv_take [OF V Cons refl t(2,3) m]
  have fr: "vm_frame s t"
    by (rule vm_frameI [where p = "pages t" and f = "page_free_list t" and m = "pmem t" and c = "tlb s"]) (simp add: t(4))
  have "kern_ok R t" by (rule kern_ok_vm [OF ok fr T(1)]) (use T(5) kern_okD(5) [OF ok] m(2) in auto)
  then show thesis using T fr t(1,3) m(2) Cons by (intro taken [of p t]) auto
qed

lemma kern_page_insert:
  assumes ok: "kern_ok R s" and e: "live s e" and va: "va < UTOP"
    and p: "mappable R (dirs s) s p" "unat (pp_ref (pages s p)) < 65535" and perm: "flags_only perm"
  obtains (no_mem) "page_insert (env_pgdir (envs s e)) p va perm s = Ret (- E_NO_MEM) s" "free_pages s = []"
  | (inserted) t where "page_insert (env_pgdir (envs s e)) p va perm s = Ret 0 t" "kern_ok R t" "vm_frame s t"
      "\<forall>d \<in> dirs s. \<forall>i < UPDX. \<forall>j. uvm (pmem t) d i j =
        (if (d, i, j) = (edir s e, unat (PDX va), unat (PTX va)) then Some (page2pa p OR perm OR PTE_P)
         else uvm (pmem s) d i j)"
      "\<forall>q. q \<notin> dirs s \<longrightarrow> q \<notin> ptps (pmem t) (dirs s) \<longrightarrow> pmem t q = pmem s q"
proof -
  note V = kern_okD(1) [OF ok] and pd = kern_okD(7) [OF ok e] and ed = kern_okD(8) [OF ok e]
  have nk: "kdir s \<noteq> edir s e" using kern_okD(2) [OF ok] e by (auto simp: env_ok_def)
  show thesis unfolding pd
  proof (rule page_insert_cases [OF V ed va p perm])
    fix t assume t: "page_insert (kva_of (edir s e) 0) p va perm s = Ret 0 t" "vm_inv R (dirs s) (\<lambda>_. 0) t" "vm_frame s t"
      and u: "\<And>d' i' j'. d' \<in> dirs s \<Longrightarrow> i' < UPDX \<Longrightarrow> uvm (pmem t) d' i' j' =
        (if (d', i', j') = (edir s e, unat (PDX va), unat (PTX va))
         then Some (page2pa p OR perm OR PTE_P) else uvm (pmem s) d' i' j')"
      and k: "\<And>d' i'. d' \<in> dirs s \<Longrightarrow> (d', i') \<noteq> (edir s e, unat (PDX va)) \<Longrightarrow> pmem t d' i' = pmem s d' i'"
      and q: "\<And>q. q \<notin> dirs s \<Longrightarrow> q \<notin> ptps (pmem t) (dirs s) \<Longrightarrow> pmem t q = pmem s q"
    have "kern_ok R t" by (rule kern_ok_vm [OF ok t(3,2)]) (use k kern_okD(5) [OF ok] nk in auto)
    then show thesis by (intro inserted [of t]) (use t u q pd in auto)
  qed (use no_mem pd in auto)
qed

lemma kern_page_remove:
  assumes ok: "kern_ok R s" and e: "live s e" and va: "va < UTOP"
  obtains t where "page_remove (env_pgdir (envs s e)) va s = Ret () t" "kern_ok R t" "vm_frame s t"
    "\<forall>d \<in> dirs s. \<forall>i < UPDX. \<forall>j. uvm (pmem t) d i j =
      (if (d, i, j) = (edir s e, unat (PDX va), unat (PTX va)) then None else uvm (pmem s) d i j)"
proof -
  note V = kern_okD(1) [OF ok] and pd = kern_okD(7) [OF ok e] and ed = kern_okD(8) [OF ok e]
  show thesis
  proof (cases "uvm_at s (edir s e) va")
    case None
    then show thesis using page_remove_unmapped [OF V ed va None] ok that [of s] pd by (auto simp: uvm_at_def)
  next
    case (Some x)
    show thesis
    proof (rule page_remove_mapped [OF V ed va Some])
      fix t assume t: "page_remove (kva_of (edir s e) 0) va s = Ret () t" "vm_inv R (dirs s) (\<lambda>_. 0) t" "vm_frame s t"
        and u: "\<And>d' i' j'. d' \<in> dirs s \<Longrightarrow> i' < UPDX \<Longrightarrow> uvm (pmem t) d' i' j' =
          (if (d', i', j') = (edir s e, unat (PDX va), unat (PTX va)) then None else uvm (pmem s) d' i' j')"
        and k: "\<And>d' i'. d' \<in> dirs s \<Longrightarrow> pmem t d' i' = pmem s d' i'"
      have "kern_ok R t" by (rule kern_ok_vm [OF ok t(3,2)]) (use k kern_okD(5) [OF ok] in auto)
      then show thesis using that [of t] t u pd by auto
    qed
  qed
qed

text \<open>A page that is found in an address space may be mapped again.\<close>

lemma kern_page_lookup:
  assumes ok: "kern_ok R s" and e: "live s e" and va: "va < UTOP"
  obtains (unmapped) "uvm_at s (edir s e) va = None" "page_lookup (env_pgdir (envs s e)) va s = Ret None s"
  | (mapped) v a where "uvm_at s (edir s e) va = Some v" "page_lookup (env_pgdir (envs s e)) va s = Ret (Some (pg v, a)) s"
      "mappable R (dirs s) s (pg v)" "kload s a = v"
proof -
  note V = kern_okD(1) [OF ok] and pd = kern_okD(7) [OF ok e] and ed = kern_okD(8) [OF ok e]
  let ?i = "unat (PDX va)" and ?j = "unat (PTX va)" and ?d = "edir s e"
  note L = page_lookup_ok [OF V ed va, folded pd]
  show thesis
  proof (cases "uvm_at s ?d va")
    case None
    then show thesis using L unmapped by simp
  next
    case (Some v)
    then have p: "present (pmem s ?d ?i)" "present v" "v = pmem s (pg (pmem s ?d ?i)) ?j"
      by (auto simp: uvm_at_def uvm_def split: if_splits)
    then have di: "(?d, ?i) \<in> upts (pmem s) (dirs s)" using ed va by (simp add: upts_iff PDX_below_UTOP)
    then have x: "(?d, ?i, ?j) \<in> umaps (pmem s) (dirs s)" using p unat_PTX_bound by (simp add: umaps_iff)
    have "mappable R (dirs s) s (pg v)" using mapped_page [OF V x] p(3) by (auto simp: mappable_def)
    moreover have "pg (pmem s ?d ?i) < 1048576"
      using tables_wfD(5) [OF vm_invD(2) [OF V] ptpsI [OF di]] vm_invD(6) [OF V] by auto
    then have "kload s (kva_of (pg (pde_at s ?d va)) ?j) = v"
      using p(3) unat_PTX_bound by (simp add: kload_kva_of pde_at_def)
    ultimately show thesis using L Some mapped by simp
  qed
qed

lemma perm_flags_only:
  assumes "perm AND NOT PTE_SYSCALL = 0"
  shows "flags_only perm"
  unfolding flags_only_def
proof (rule bit_word_eqI)
  fix n assume "n < LENGTH(32)"
  have "\<not> bit PTE_SYSCALL (n + 12)"
  proof -
    have "drop_bit 12 PTE_SYSCALL = 0" by (simp add: jos_consts)
    then have "\<not> bit (drop_bit 12 PTE_SYSCALL) n" by (metis bit_0_eq bot_apply bot_bool_def)
    then show ?thesis by (simp add: bit_drop_bit_eq add.commute)
  qed
  moreover have "\<not> bit (perm AND NOT PTE_SYSCALL) (n + 12)" by (simp add: assms)
  ultimately have "\<not> bit perm (n + 12)" by (auto simp: bit_and_iff bit_not_iff dest: bit_imp_le_length)
  then show "bit (drop_bit 12 perm) n = bit 0 n" by (simp add: bit_drop_bit_eq add.commute)
qed

lemma entry_writable: "p < 1048576 \<Longrightarrow> (page2pa p OR perm OR PTE_P) AND PTE_W \<noteq> 0 \<longleftrightarrow> perm AND PTE_W \<noteq> 0"
proof -
  have w: "x AND 2 \<noteq> 0 \<longleftrightarrow> bit x 1" for x :: u32
    using and_exp_eq_0_iff_not_bit [of x 1] by simp
  show ?thesis unfolding PTE_W_def w by (simp add: page2pa_def bit_simps PTE_P_def)
qed

lemma pg_entry: "p < 1048576 \<Longrightarrow> flags_only perm \<Longrightarrow> pg (page2pa p OR perm OR PTE_P) = p"
  by (simp add: pg_or flags_only_or pg_page2pa)

end
