(* ===== verification/Syscall_Inv.thy ===== *)
theory Syscall_Inv
  imports Kern_Inv
begin

text \<open>
  The system calls of \<^verbatim>\<open>kern/syscall.c\<close> that create, share and remove mappings and send messages:
  their effect on every branch, and that they are steps of \<open>step_ok\<close>.
\<close>

section \<open>sys_page_alloc\<close>

text \<open>The user mappings of all address spaces, but for one entry, are the same.\<close>

definition one_change :: "kstate \<Rightarrow> kstate \<Rightarrow> nat \<Rightarrow> u32 \<Rightarrow> u32 option \<Rightarrow> bool" where
  "one_change s t e va v \<longleftrightarrow> (\<forall>d \<in> dirs s. \<forall>i < UPDX. \<forall>j. uvm (pmem t) d i j =
     (if (d, i, j) = (edir s e, unat (PDX va), unat (PTX va)) then v else uvm (pmem s) d i j))"

definition no_change :: "kstate \<Rightarrow> kstate \<Rightarrow> bool" where
  "no_change s t \<longleftrightarrow> (\<forall>d \<in> dirs s. \<forall>i < UPDX. \<forall>j. uvm (pmem t) d i j = uvm (pmem s) d i j)"

lemma no_change_step:
  assumes ok: "kern_ok R s" and t: "kern_ok R t" "env_same s t" and n: "no_change s t"
  shows "step_ok R s t"
proof -
  note E = env_same_eqs [OF t(2)]
  have "writable t \<subseteq> writable s" using n writableI [of _ s] by (intro writable_subsetI) (auto simp: no_change_def E)
  moreover have "isolated s t" using n kern_okD(8) [OF ok] by (simp add: isolated_def no_change_def E)
  ultimately show ?thesis using t(1) by (auto simp: step_ok_def)
qed

lemma vm_frame_same: "vm_frame s t \<Longrightarrow> env_same s t"
  using vm_frame_fields [of s t] by (simp add: env_same_def)

text \<open>The page of a mapping that was made is neither a directory nor a table.\<close>

lemma one_change_unused:
  assumes ok: "kern_ok R s" and t: "kern_ok R t" "env_same s t" and e: "live s e" and va: "va < UTOP"
    and o: "one_change s t e va (Some v)"
  shows "pg v \<notin> dirs s" and "pg v \<notin> ptps (pmem t) (dirs s)"
proof -
  note E = env_same_eqs [OF t(2)]
  let ?d = "edir s e" and ?i = "unat (PDX va)" and ?j = "unat (PTX va)"
  have i: "?i < UPDX" by (rule PDX_below_UTOP [OF va])
  have d: "?d \<in> dirs s" by (rule kern_okD(8) [OF ok e])
  have "uvm (pmem t) ?d ?i ?j = Some v" using o d i by (simp add: one_change_def)
  then have p: "present (pmem t ?d ?i)" "present v" "v = pmem t (pg (pmem t ?d ?i)) ?j"
    by (auto simp: uvm_def split: if_splits)
  then have "(?d, ?i, ?j) \<in> umaps (pmem t) (dirs t)" using d i unat_PTX_bound by (simp add: umaps_iff upts_iff E)
  from mapped_page(3,4) [OF kern_okD(1) [OF t(1)] this] p(3)
  show "pg v \<notin> dirs s" "pg v \<notin> ptps (pmem t) (dirs s)" by (simp_all add: E)
qed

text \<open>The part of \<open>sys_page_alloc\<close> after the checks.\<close>

definition alloc_and_map :: "u32 \<Rightarrow> u32 \<Rightarrow> nat \<Rightarrow> kstate \<Rightarrow> int kres" where
  "alloc_and_map va perm e s =
     kbind (page_alloc 1 s) (\<lambda>pp s.
       case pp of
         None \<Rightarrow> Ret (- E_NO_MEM) s
       | Some pp \<Rightarrow>
           kbind (page_insert (env_pgdir (envs s e)) pp va perm s) (\<lambda>ret2 s.
             if ret2 < 0 then kbind (page_free pp s) (\<lambda>_ s. Ret (- E_NO_MEM) s)
             else Ret 0 s))"

lemma sys_page_alloc_alt:
  "sys_page_alloc envid va perm s =
     (if va \<ge> UTOP \<or> ROUNDUP va PGSIZE \<noteq> va \<or> perm AND NOT PTE_SYSCALL \<noteq> 0 then Ret (- E_INVAL) s
      else with_env envid True (\<lambda>r s. Ret (- E_BAD_ENV) s) (alloc_and_map va perm) s)"
  unfolding sys_page_alloc_def alloc_and_map_def by simp

lemma alloc_and_map_res:
  assumes ok: "kern_ok R s" and e: "live s e" "owned s e" and va: "va < UTOP" and perm: "flags_only perm"
  obtains (failed) t where "alloc_and_map va perm e s = Ret (- E_NO_MEM) t" "step_ok R s t" "no_change s t"
      "length (free_pages s) \<le> 1"
  | (mapped) p t where "alloc_and_map va perm e s = Ret 0 t" "p \<in> set (free_pages s)" "pmem t p = (\<lambda>_. 0)" "step_ok R s t"
      "one_change s t e va (Some (page2pa p OR perm OR PTE_P))"
proof (rule kern_page_alloc [OF ok])
  assume "page_alloc 1 s = Ret None s" "free_pages s = []"
  then show thesis using failed step_ok_refl [OF ok] by (simp add: alloc_and_map_def no_change_def)
next
  fix p u
  assume u: "page_alloc 1 s = Ret (Some p) u" "free_pages s = p # free_pages u" "kern_ok R u" "vm_frame s u"
    "mappable R (dirs s) u p" "pp_ref (pages u p) = 0" "pmem u p = (\<lambda>_. 0)"
    and same: "\<forall>d \<in> dirs s. \<forall>i < UPDX. \<forall>j. uvm (pmem u) d i j = uvm (pmem s) d i j"
  note E = env_same_eqs [OF vm_frame_same [OF u(4)]] and V = kern_okD(1) [OF u(3)]
  have p: "mappable R (dirs u) u p" "unat (pp_ref (pages u p)) < 65535" "live u e" using u(5,6) e(1) by (simp_all add: E)
  have pb: "p < 1048576" using u(5) vm_invD(6) [OF V] by (simp add: mappable_def)
  let ?v = "page2pa p OR perm OR PTE_P"
  show thesis
  proof (rule kern_page_insert [OF u(3) p(3) va p(1,2) perm])
    assume i: "page_insert (env_pgdir (envs u e)) p va perm u = Ret (- E_NO_MEM) u" "free_pages u = []"
    obtain t where t: "page_free p u = Ret () t" "vm_inv R (dirs u) (\<lambda>_. 0) t" "vm_frame u t" "pmem t = pmem u"
      by (rule vm_inv_give_back [OF V p(1) u(6)])
    have k: "kern_ok R t" by (rule kern_ok_vm [OF u(3) t(3,2)]) (simp add: t(4))
    have n: "no_change s t" using same by (simp add: no_change_def t(4))
    have "step_ok R s t" by (rule no_change_step [OF ok k vm_frame_same [OF vm_frame_trans [OF u(4) t(3)]] n])
    then show thesis using failed [of t] u(1,2) i t(1) n by (simp add: alloc_and_map_def E_NO_MEM_def)
  next
    fix t assume i: "page_insert (env_pgdir (envs u e)) p va perm u = Ret 0 t" and t: "kern_ok R t" "vm_frame u t"
      and un: "\<forall>d \<in> dirs u. \<forall>i < UPDX. \<forall>j. uvm (pmem t) d i j =
        (if (d, i, j) = (edir u e, unat (PDX va), unat (PTX va)) then Some ?v else uvm (pmem u) d i j)"
      and q: "\<forall>q. q \<notin> dirs u \<longrightarrow> q \<notin> ptps (pmem t) (dirs u) \<longrightarrow> pmem t q = pmem u q"
    have o: "one_change s t e va (Some ?v)" using un same by (simp add: one_change_def E)
    have st: "env_same s t" by (rule vm_frame_same [OF vm_frame_trans [OF u(4) t(2)]])
    have "step_ok R s t"
      by (rule step_ok_vm [OF ok t(1) st e(1), where ii = "unat (PDX va)" and jj = "unat (PTX va)" and v = "Some ?v"])
         (use e(2) o u(2) pg_entry [OF pb perm] in \<open>auto simp: one_change_def\<close>)
    moreover have "pmem t p = (\<lambda>_. 0)"
      using q one_change_unused [OF ok t(1) st e(1) va o] u(7) pg_entry [OF pb perm] by (simp add: E)
    ultimately show thesis using mapped [of t p] u(1,2) i o by (simp add: alloc_and_map_def)
  qed
qed

lemma sys_page_alloc_res:
  assumes ok: "kern_ok R s"
  obtains (none) m where "curenv s = None" "sys_page_alloc envid va perm s = Panic m"
  | (inval) "va \<ge> UTOP \<or> ROUNDUP va PGSIZE \<noteq> va \<or> perm AND NOT PTE_SYSCALL \<noteq> 0"
      "sys_page_alloc envid va perm s = Ret (- E_INVAL) s"
  | (bad_env) r where "va < UTOP" "ROUNDUP va PGSIZE = va" "perm AND NOT PTE_SYSCALL = 0"
      "envid2env envid True s = Ret (r, None) s" "r < 0" "sys_page_alloc envid va perm s = Ret (- E_BAD_ENV) s"
  | (no_mem) e t where "va < UTOP" "ROUNDUP va PGSIZE = va" "perm AND NOT PTE_SYSCALL = 0"
      "envid2env envid True s = Ret (0, Some e) s" "sys_page_alloc envid va perm s = Ret (- E_NO_MEM) t"
      "length (free_pages s) \<le> 1" "step_ok R s t" "no_change s t"
  | (mapped) e p t where "va < UTOP" "ROUNDUP va PGSIZE = va" "perm AND NOT PTE_SYSCALL = 0"
      "envid2env envid True s = Ret (0, Some e) s" "sys_page_alloc envid va perm s = Ret 0 t"
      "p \<in> set (free_pages s)" "pmem t p = (\<lambda>_. 0)" "step_ok R s t"
      "one_change s t e va (Some (page2pa p OR perm OR PTE_P))"
proof (cases "va \<ge> UTOP \<or> ROUNDUP va PGSIZE \<noteq> va \<or> perm AND NOT PTE_SYSCALL \<noteq> 0")
  case True
  then have "sys_page_alloc envid va perm s = Ret (- E_INVAL) s" by (auto simp: sys_page_alloc_alt)
  then show thesis by (rule inval [OF True])
next
  case False
  then have va: "va < UTOP" "ROUNDUP va PGSIZE = va" "perm AND NOT PTE_SYSCALL = 0" and perm: "flags_only perm"
    by (auto simp: perm_flags_only)
  let ?bad = "\<lambda>r s. Ret (- E_BAD_ENV) s"
  have sp: "sys_page_alloc envid va perm s = kbind (envid2env envid True s) (\<lambda>(r, e) s.
       if r < 0 then Ret (- E_BAD_ENV) s else case e of None \<Rightarrow> null_deref | Some e \<Rightarrow> alloc_and_map va perm e s)"
    using False by (simp add: sys_page_alloc_alt with_env_def)
  show thesis using ok
  proof (cases rule: envid2env_ok [where envid = envid and cp = True])
    case none
    then show thesis using that(1) sp by (auto simp: null_deref_def)
  next
    case (failed r)
    then show thesis using bad_env [OF va] sp by simp
  next
    case (found e)
    show thesis
      by (rule alloc_and_map_res [OF ok found(2) found(3) va(1) perm])
         (use sp found(1) no_mem [OF va] mapped [OF va] in auto)
  qed
qed

section \<open>Sharing and removing pages\<close>

text \<open>No page is so widely shared that its 16-bit reference count is at its limit.\<close>

definition refs_low :: "kstate \<Rightarrow> bool" where
  "refs_low s \<longleftrightarrow> (\<forall>p. unat (pp_ref (pages s p)) < 65535)"

lemma share_page:
  assumes ok: "kern_ok R s" and src: "live s es" "srcva < UTOP" "uvm_at s (edir s es) srcva = Some v" "mappable R (dirs s) s (pg v)"
    and e: "live s e" "dstva < UTOP" "owned s e \<or> recv_slot s e (unat (PDX dstva)) (unat (PTX dstva))"
    and perm: "flags_only perm" "perm AND PTE_W \<noteq> 0 \<longrightarrow> v AND PTE_W \<noteq> 0" and r: "refs_low s"
  obtains (failed) "page_insert (env_pgdir (envs s e)) (pg v) dstva perm s = Ret (- E_NO_MEM) s"
  | (mapped) t where "page_insert (env_pgdir (envs s e)) (pg v) dstva perm s = Ret 0 t" "step_ok R s t" "vm_frame s t"
      "one_change s t e dstva (Some (page2pa (pg v) OR perm OR PTE_P))"
proof -
  have rv: "unat (pp_ref (pages s (pg v))) < 65535" using r by (simp add: refs_low_def)
  have pb: "pg v < 1048576" using src(4) vm_invD(6) [OF kern_okD(1) [OF ok]] by (simp add: mappable_def)
  let ?x = "page2pa (pg v) OR perm OR PTE_P"
  have "uvm (pmem s) (edir s es) (unat (PDX srcva)) (unat (PTX srcva)) = Some v" using src(3) by (simp add: uvm_at_def)
  then have w: "pg ?x \<in> writable s" if "?x AND PTE_W \<noteq> 0"
    using that perm(2) writableI [OF kern_okD(8) [OF ok src(1)] PDX_below_UTOP [OF src(2)] unat_PTX_bound]
    by (simp add: entry_writable [OF pb] pg_entry [OF pb perm(1)])
  show thesis
  proof (rule kern_page_insert [OF ok e(1,2) src(4) rv perm(1)])
    fix t assume t: "page_insert (env_pgdir (envs s e)) (pg v) dstva perm s = Ret 0 t" "kern_ok R t" "vm_frame s t"
      and u: "\<forall>d \<in> dirs s. \<forall>i < UPDX. \<forall>j. uvm (pmem t) d i j =
        (if (d, i, j) = (edir s e, unat (PDX dstva), unat (PTX dstva)) then Some ?x else uvm (pmem s) d i j)"
    have "step_ok R s t"
      by (rule step_ok_vm [OF ok t(2) vm_frame_same [OF t(3)] e(1), where v = "Some ?x"]) (use e(3) u w in auto)
    then show thesis using mapped t(1,3) u by (simp add: one_change_def)
  qed (use failed in simp)
qed

text \<open>The part of \<open>sys_page_map\<close> after the two environments have been found.\<close>

definition map_found :: "u32 \<Rightarrow> u32 \<Rightarrow> u32 \<Rightarrow> nat \<Rightarrow> nat \<Rightarrow> kstate \<Rightarrow> int kres" where
  "map_found srcva dstva perm srcenv dstenv s =
     kbind (page_lookup (env_pgdir (envs s srcenv)) srcva s) (\<lambda>pp s.
       case pp of
         None \<Rightarrow> Panic ''sys_page_map: page_lookup failed''
       | Some (pp, srcpte) \<Rightarrow>
           if perm AND PTE_W \<noteq> 0 \<and> kload s srcpte AND PTE_W = 0
           then Panic ''sys_page_map: page_lookup failed''
           else
             kbind (page_insert (env_pgdir (envs s dstenv)) pp dstva perm s) (\<lambda>r s.
               if r < 0 then Panic ''sys_page_map: page_insert failed''
               else Ret 0 s))"

lemma map_found_res:
  assumes ok: "kern_ok R s" and r: "refs_low s" and es: "live s es" "srcva < UTOP"
    and e: "live s e" "owned s e" "dstva < UTOP" and perm: "flags_only perm"
  obtains (stop) m where "map_found srcva dstva perm es e s = Panic m"
  | (mapped) v t where "map_found srcva dstva perm es e s = Ret 0 t"
      "uvm_at s (edir s es) srcva = Some v" "perm AND PTE_W \<noteq> 0 \<longrightarrow> v AND PTE_W \<noteq> 0"
      "step_ok R s t" "one_change s t e dstva (Some (page2pa (pg v) OR perm OR PTE_P))"
proof (rule kern_page_lookup [OF ok es])
  assume "page_lookup (env_pgdir (envs s es)) srcva s = Ret None s"
  then show thesis using stop by (simp add: map_found_def)
next
  fix v a
  assume v: "uvm_at s (edir s es) srcva = Some v" "page_lookup (env_pgdir (envs s es)) srcva s = Ret (Some (pg v, a)) s"
    "mappable R (dirs s) s (pg v)" "kload s a = v"
  show thesis
  proof (cases "perm AND PTE_W \<noteq> 0 \<and> v AND PTE_W = 0")
    case True
    then show thesis using stop v by (simp add: map_found_def)
  next
    case False
    then have w: "perm AND PTE_W \<noteq> 0 \<longrightarrow> v AND PTE_W \<noteq> 0" by blast
    have m: "map_found srcva dstva perm es e s = kbind (page_insert (env_pgdir (envs s e)) (pg v) dstva perm s) (\<lambda>r s.
        if r < 0 then Panic ''sys_page_map: page_insert failed'' else Ret 0 s)"
      using v(2,4) False by (auto simp: map_found_def)
    show thesis
      by (rule share_page [OF ok es v(1,3) e(1,3) disjI1 [OF e(2)] perm w r])
         (use stop mapped [OF _ v(1) w] m in \<open>auto simp: E_NO_MEM_def\<close>)
  qed
qed

lemma sys_page_map_res:
  assumes ok: "kern_ok R s" and r: "refs_low s"
  obtains (stop) m where "sys_page_map srcenvid srcva dstenvid dstva perm s = Panic m"
  | (failed) "sys_page_map srcenvid srcva dstenvid dstva perm s = Ret (- E_BAD_ENV) s"
  | (mapped) es e v t where "sys_page_map srcenvid srcva dstenvid dstva perm s = Ret 0 t"
      "envid2env srcenvid True s = Ret (0, Some es) s" "envid2env dstenvid True s = Ret (0, Some e) s"
      "uvm_at s (edir s es) srcva = Some v" "perm AND PTE_W \<noteq> 0 \<longrightarrow> v AND PTE_W \<noteq> 0"
      "step_ok R s t" "one_change s t e dstva (Some (page2pa (pg v) OR perm OR PTE_P))"
proof (cases "srcva \<ge> UTOP \<or> ROUNDUP srcva PGSIZE \<noteq> srcva \<or> dstva \<ge> UTOP \<or> ROUNDUP dstva PGSIZE \<noteq> dstva
    \<or> perm AND NOT PTE_SYSCALL \<noteq> 0")
  case True
  then have "sys_page_map srcenvid srcva dstenvid dstva perm s \<in> {Panic ''sys_page_map: invalid srcva | dstva'', Panic ''sys_page_map: invalid permission''}"
    by (auto simp: sys_page_map_def)
  then show thesis using stop by auto
next
  case False
  then have a: "srcva < UTOP" "dstva < UTOP" "flags_only perm" using perm_flags_only by auto
  let ?bad = "\<lambda>r s. Ret (- E_BAD_ENV) s"
  let ?good = "\<lambda>se dstenv s. case se of None \<Rightarrow> null_deref | Some es \<Rightarrow> map_found srcva dstva perm es dstenv s"
  have sp: "sys_page_map srcenvid srcva dstenvid dstva perm s = kbind (envid2env srcenvid True s) (\<lambda>(r1, se) s.
      if r1 < 0 then Ret (- E_BAD_ENV) s else with_env dstenvid True ?bad (?good se) s)"
    using False unfolding sys_page_map_def map_found_def by simp
  have no_src: thesis if "sys_page_map srcenvid srcva dstenvid dstva perm s = with_env dstenvid True ?bad (?good None) s"
    using ok that by (cases rule: with_env_cases [where envid = dstenvid and cp = True and bad = ?bad and good = "?good None"])
      (auto simp: null_deref_def intro: stop failed)
  show thesis using ok
  proof (cases rule: envid2env_ok [where envid = srcenvid and cp = True])
    case none
    then show thesis using sp stop no_src by auto
  next
    case (failed x)
    then show thesis using that(2) sp by simp
  next
    case src: (found es)
    then have sp1: "sys_page_map srcenvid srcva dstenvid dstva perm s = with_env dstenvid True ?bad (?good (Some es)) s"
      using sp by simp
    show thesis using ok
    proof (cases rule: with_env_cases [where envid = dstenvid and cp = True and bad = ?bad and good = "?good (Some es)"])
      case (found e)
      show thesis
        by (rule map_found_res [OF ok r src(2) a(1) found(3) found(4) a(2,3)])
           (use sp1 found(1,2) src(1) stop mapped in auto)
    qed (use sp1 stop failed in auto)
  qed
qed

lemma sys_page_unmap_step:
  assumes ok: "kern_ok R s"
  shows "kres_all (step_ok R s) (sys_page_unmap envid va s)"
proof (cases "va \<ge> UTOP \<or> ROUNDUP va PGSIZE \<noteq> va")
  case True
  then show ?thesis using step_ok_refl [OF ok] by (simp add: sys_page_unmap_def)
next
  case False
  have "kres_all (step_ok R s) (kbind (page_remove (env_pgdir (envs s e)) va s) (\<lambda>_ s. Ret 0 s))"
    if e: "live s e" "owned s e" for e
  proof -
    have va: "va < UTOP" using False by auto
    obtain t where t: "page_remove (env_pgdir (envs s e)) va s = Ret () t" "kern_ok R t" "vm_frame s t"
      "\<forall>d \<in> dirs s. \<forall>i < UPDX. \<forall>j. uvm (pmem t) d i j =
        (if (d, i, j) = (edir s e, unat (PDX va), unat (PTX va)) then None else uvm (pmem s) d i j)"
      by (rule kern_page_remove [OF ok e(1) va])
    have "step_ok R s t"
      by (rule step_ok_vm [OF ok t(2) vm_frame_same [OF t(3)] e(1), where v = None]) (use e(2) t(4) in auto)
    then show ?thesis by (simp add: t(1))
  qed
  then show ?thesis using False step_ok_refl [OF ok]
    unfolding sys_page_unmap_def by (auto intro!: with_env_ok [OF ok])
qed

section \<open>Messages\<close>

lemma vload_bytes_pure: "(\<exists>m. vload_bytes va n s = Panic m) \<or> (\<exists>bs. vload_bytes va n s = Ret bs s)"
proof (induction n arbitrary: va)
  case (Suc n)
  show ?case using Suc [of "va + 1"] by (auto simp: null_deref_def split: option.split)
qed simp

lemma vload32_pure: "(\<exists>m. vload32 va s = Panic m) \<or> (\<exists>w. vload32 va s = Ret w s)"
  using vload_bytes_pure [of va 4 s] by (auto simp: vload32_def)

text \<open>Without a page at the source address nothing is sent, whatever the uninitialised variable holds.\<close>

lemma ipc_send_unmapped:
  assumes ok: "kern_ok R s" and c: "curenv s = Some c" and e: "live s e"
    and l: "page_lookup (env_pgdir (envs s c)) srcva s = Ret None s"
  shows "(\<exists>m. ipc_send_page junk e srcva perm s = Panic m) \<or> ipc_send_page junk e srcva perm s = Ret (Some (- E_INVAL)) s
    \<or> ipc_send_page junk e srcva perm s = Ret None s \<and> \<not> env_ipc_dstva (envs s e) < UTOP"
proof -
  let ?dst = "env_ipc_dstva (envs s e)"
  let ?k = "\<lambda>q s :: kstate. case q of None \<Rightarrow> Panic ''sys_ipc_try_send: page_insert failed''
       | Some (_ :: u32) \<Rightarrow> (null_deref :: int option kres)"
  have w: "\<exists>m. kbind (pgdir_walk (env_pgdir (envs s e)) ?dst True s) ?k = Panic m" if "?dst < UTOP"
    unfolding kern_okD(7) [OF ok e]
    by (rule walk_create [OF kern_okD(1,8) [OF ok] that, of e]) (use e in \<open>auto simp: null_deref_def\<close>)
  have r: "(\<exists>m. (if perm AND PTE_W \<noteq> 0 then vload32 junk s else Ret PTE_W s) = Panic m)
      \<or> (\<exists>x. (if perm AND PTE_W \<noteq> 0 then vload32 junk s else Ret PTE_W s) = Ret x s)"
    using vload32_pure [of junk s] by simp
  have eq: "ipc_send_page junk e srcva perm s =
      (if junk = 0 then Ret (Some (- E_INVAL)) s
       else if ROUNDDOWN srcva PGSIZE \<noteq> srcva \<or> perm AND NOT PTE_SYSCALL \<noteq> 0
       then Panic ''sys_ipc_try_send: srcva failed)''
       else kbind (if perm AND PTE_W \<noteq> 0 then vload32 junk s else Ret PTE_W s) (\<lambda>w s.
         if w AND PTE_W = 0 then Panic ''sys_ipc_try_send: permission failed''
         else if env_ipc_dstva (envs s e) < UTOP
         then kbind (pgdir_walk (env_pgdir (envs s e)) (env_ipc_dstva (envs s e)) True s) ?k
         else Ret None s))"
    by (simp only: ipc_send_page_def with_curenv_def c l Let_def option.case kbind.simps)
  show ?thesis using r w unfolding eq by (auto simp del: kbind.simps(1)) (auto split: if_splits)
qed

lemma ipc_send_page_res:
  assumes ok: "kern_ok R s" and r: "refs_low s" and e: "live s e" "env_ipc_recving (envs s e)" and src: "srcva < UTOP"
  obtains (stop) m where "ipc_send_page junk e srcva perm s = Panic m"
  | (failed) "ipc_send_page junk e srcva perm s = Ret (Some (- E_INVAL)) s"
  | (no_page) "ipc_send_page junk e srcva perm s = Ret None s" "\<not> env_ipc_dstva (envs s e) < UTOP"
  | (mapped) c v t where "ipc_send_page junk e srcva perm s = Ret None (upd_env e (\<lambda>v. v\<lparr>env_ipc_perm := perm\<rparr>) t)"
      "curenv s = Some c" "uvm_at s (edir s c) srcva = Some v" "perm AND PTE_W \<noteq> 0 \<longrightarrow> v AND PTE_W \<noteq> 0"
      "env_ipc_dstva (envs s e) < UTOP" "step_ok R s t" "vm_frame s t"
      "one_change s t e (env_ipc_dstva (envs s e)) (Some (page2pa (pg v) OR perm OR PTE_P))"
proof (cases "curenv s")
  case None
  then show thesis using stop by (simp add: ipc_send_page_def with_curenv_def null_deref_def)
next
  case c: (Some c)
  let ?dst = "env_ipc_dstva (envs s e)"
  note cl = kern_okD(9) [OF ok c]
  show thesis
  proof (rule kern_page_lookup [OF ok cl src])
    assume "page_lookup (env_pgdir (envs s c)) srcva s = Ret None s"
    then show thesis using ipc_send_unmapped [OF ok c e(1)] stop failed no_page by blast
  next
    fix v a
    assume v: "uvm_at s (edir s c) srcva = Some v" "page_lookup (env_pgdir (envs s c)) srcva s = Ret (Some (pg v, a)) s"
      "mappable R (dirs s) s (pg v)" "kload s a = v"
    show thesis
    proof (cases "a = 0 \<or> ROUNDDOWN srcva PGSIZE \<noteq> srcva \<or> perm AND NOT PTE_SYSCALL \<noteq> 0
        \<or> (perm AND PTE_W \<noteq> 0 \<and> v AND PTE_W = 0) \<or> \<not> ?dst < UTOP")
      case True
      then have "ipc_send_page junk e srcva perm s \<in> {Ret (Some (- E_INVAL)) s, Panic ''sys_ipc_try_send: srcva failed)'',
          Panic ''sys_ipc_try_send: permission failed''}
          \<or> ipc_send_page junk e srcva perm s = Ret None s \<and> \<not> ?dst < UTOP"
        using c v by (auto simp: ipc_send_page_def with_curenv_def Let_def)
      then show thesis using stop failed no_page by auto
    next
      case False
      then have f: "flags_only perm" "perm AND PTE_W \<noteq> 0 \<longrightarrow> v AND PTE_W \<noteq> 0" "?dst < UTOP" using perm_flags_only by auto
      have m: "ipc_send_page junk e srcva perm s = kbind (page_insert (env_pgdir (envs s e)) (pg v) ?dst perm s) (\<lambda>r s.
          if r < 0 then Panic ''sys_ipc_try_send: page_insert failed''
          else Ret None (upd_env e (\<lambda>v. v\<lparr>env_ipc_perm := perm\<rparr>) s))"
        using c v False by (auto simp: ipc_send_page_def with_curenv_def Let_def PTE_W_def)
      have o: "owned s e \<or> recv_slot s e (unat (PDX ?dst)) (unat (PTX ?dst))" using e f(3) by (simp add: recv_slot_def)
      show thesis
      proof (rule share_page [OF ok cl src v(1,3) e(1) f(3) o f(1,2) r])
        assume "page_insert (env_pgdir (envs s e)) (pg v) ?dst perm s = Ret (- E_NO_MEM) s"
        then show thesis using m stop by (simp add: E_NO_MEM_def)
      next
        fix t assume "page_insert (env_pgdir (envs s e)) (pg v) ?dst perm s = Ret 0 t" "step_ok R s t" "vm_frame s t"
          "one_change s t e ?dst (Some (page2pa (pg v) OR perm OR PTE_P))"
        then show thesis using m mapped [OF _ c v(1) f(2,3)] by simp
      qed
    qed
  qed
qed

text \<open>Changing a field of an environment that no definition above looks at.\<close>

lemma step_ok_start:
  assumes m: "npages z = npages s" "pages z = pages s" "page_free_list z = page_free_list s" "pmem z = pmem s"
    and e: "env_same s z" "curenv z = curenv s"
    and f: "\<And>x. env_parent_id (envs z x) = env_parent_id (envs s x) \<and> env_id (envs z x) = env_id (envs s x)
      \<and> env_ipc_recving (envs z x) = env_ipc_recving (envs s x) \<and> env_ipc_dstva (envs z x) = env_ipc_dstva (envs s x)"
  shows "step_ok R z t = step_ok R s t"
proof -
  have "owned z = owned s" "recv_slot z = recv_slot s" using f e(2) by (auto simp: owned_def recv_slot_def fun_eq_iff)
  moreover have "free_pages z = free_pages s" "writable z = writable s"
    using pages_inv_cong(2) [OF m(2,3,1)] by (simp_all add: writable_def m(4) env_same_eqs [OF e(1)])
  ultimately show ?thesis using m(4) by (simp add: step_ok_def isolated_def env_same_eqs [OF e(1)])
qed

definition delivered :: "nat \<Rightarrow> nat \<Rightarrow> u32 \<Rightarrow> u32 \<Rightarrow> kstate \<Rightarrow> kstate \<Rightarrow> bool" where
  "delivered c e msg perm s t \<longleftrightarrow>
     envs t = (envs s)(e := (envs s e)\<lparr>env_ipc_perm := perm, env_ipc_recving := False, env_ipc_from := env_id (envs s c),
       env_ipc_value := msg, env_status := ENV_RUNNABLE,
       env_tf := (env_tf (envs s e))\<lparr>tf_regs := (tf_regs (env_tf (envs s e)))\<lparr>reg_eax := 0\<rparr>\<rparr>\<rparr>)"

definition ipc_finish :: "nat \<Rightarrow> u32 \<Rightarrow> kstate \<Rightarrow> int kres" where
  "ipc_finish e msg s = with_curenv (\<lambda>c s.
     Ret 0 (upd_env e (\<lambda>v. v\<lparr>
       env_ipc_recving := False, env_ipc_from := env_id (envs s c), env_ipc_value := msg,
       env_status := ENV_RUNNABLE,
       env_tf := (env_tf v)\<lparr>tf_regs := (tf_regs (env_tf v))\<lparr>reg_eax := 0\<rparr>\<rparr>\<rparr>) s)) s"

lemma ipc_finish_ok:
  assumes st: "step_ok R s t" and e: "live t e" and en: "envs t = (envs s)(e := (envs s e)\<lparr>env_ipc_perm := p\<rparr>)"
    and c: "curenv t = curenv s"
  obtains (none) m where "ipc_finish e msg t = Panic m"
  | (sent) c u where "ipc_finish e msg t = Ret 0 u" "curenv s = Some c" "step_ok R s u" "pmem u = pmem t"
      "delivered c e msg p s u"
proof (cases "curenv s")
  case None
  then show thesis using none c by (simp add: ipc_finish_def with_curenv_def null_deref_def)
next
  case (Some x)
  have k: "kern_ok R t" using st by (simp add: step_ok_def)
  let ?f = "\<lambda>v. v\<lparr>env_ipc_recving := False, env_ipc_from := env_id (envs t x), env_ipc_value := msg,
       env_status := ENV_RUNNABLE, env_tf := (env_tf v)\<lparr>tf_regs := (tf_regs (env_tf v))\<lparr>reg_eax := 0\<rparr>\<rparr>\<rparr>"
  have "calm R t (upd_env e ?f t)" by (rule calm_upd_env(1) [OF calm_refl [OF k] e]) auto
  then have "step_ok R s (upd_env e ?f t)" by (rule step_ok_calm [OF st])
  moreover have "ipc_finish e msg t = Ret 0 (upd_env e ?f t)" using Some c by (simp add: ipc_finish_def with_curenv_def)
  moreover have "delivered x e msg p s (upd_env e ?f t)" by (simp add: delivered_def en)
  ultimately show thesis using sent Some by simp
qed

lemma sys_ipc_try_send_alt:
  "sys_ipc_try_send junk envid msg srcva perm s =
     with_env envid False (\<lambda>r s. Panic ''sys_ipc_try_send: envid2env failed'')
       (\<lambda>e s.
          if \<not> env_ipc_recving (envs s e) then Ret (- E_IPC_NOT_RECV) s
          else
            let s = upd_env e (\<lambda>v. v\<lparr>env_ipc_perm := 0\<rparr>) s in
            kbind (if srcva < UTOP then ipc_send_page junk e srcva perm s else Ret None s) (\<lambda>r s.
              case r of Some r \<Rightarrow> Ret r s | None \<Rightarrow> ipc_finish e msg s)) s"
  unfolding sys_ipc_try_send_def ipc_finish_def by simp

text \<open>What a successful send has done with the page.\<close>

definition page_sent :: "nat \<Rightarrow> nat \<Rightarrow> u32 \<Rightarrow> u32 \<Rightarrow> u32 \<Rightarrow> kstate \<Rightarrow> kstate \<Rightarrow> bool" where
  "page_sent c e srcva perm p s t \<longleftrightarrow>
     (if srcva < UTOP \<and> env_ipc_dstva (envs s e) < UTOP
      then p = perm \<and> (\<exists>v. uvm_at s (edir s c) srcva = Some v \<and> (perm AND PTE_W \<noteq> 0 \<longrightarrow> v AND PTE_W \<noteq> 0)
        \<and> one_change s t e (env_ipc_dstva (envs s e)) (Some (page2pa (pg v) OR perm OR PTE_P)))
      else p = 0 \<and> no_change s t)"

lemma one_change_pmem: "pmem z = pmem s \<Longrightarrow> env_same s z \<Longrightarrow> pmem u = pmem t \<Longrightarrow> one_change z t e va v = one_change s u e va v"
  using env_same_eqs [of s z] by (simp add: one_change_def)

definition ipc_deliver :: "u32 \<Rightarrow> nat \<Rightarrow> u32 \<Rightarrow> u32 \<Rightarrow> u32 \<Rightarrow> kstate \<Rightarrow> int kres" where
  "ipc_deliver junk e msg srcva perm s =
     kbind (if srcva < UTOP then ipc_send_page junk e srcva perm s else Ret None s) (\<lambda>r s.
       case r of Some r \<Rightarrow> Ret r s | None \<Rightarrow> ipc_finish e msg s)"

lemma ipc_deliver_res:
  assumes ok: "kern_ok R s" and r: "refs_low s" and e: "live s e" "env_ipc_recving (envs s e)"
    and z: "z = upd_env e (\<lambda>v. v\<lparr>env_ipc_perm := 0\<rparr>) s"
  obtains (stop) m where "ipc_deliver junk e msg srcva perm z = Panic m"
  | (failed) x t where "ipc_deliver junk e msg srcva perm z = Ret x t" "x < 0" "step_ok R s t" "no_change s t"
  | (sent) c p t where "ipc_deliver junk e msg srcva perm z = Ret 0 t" "curenv s = Some c" "step_ok R s t"
      "delivered c e msg p s t" "page_sent c e srcva perm p s t"
proof -
  let ?c = "ipc_deliver junk e msg srcva perm z" and ?dst = "env_ipc_dstva (envs s e)"
  have zc: "calm R s z" "live z = live s" unfolding z
    by (rule calm_upd_env [OF calm_refl [OF ok] e(1)]; use e(1) in \<open>simp add: live_def\<close>)+
  then have zk: "kern_ok R z" and zsame: "env_same s z" by (simp_all add: calm_def)
  have zm: "pmem z = pmem s" "curenv z = curenv s" "env_ipc_recving (envs z e)" "env_ipc_dstva (envs z e) = ?dst"
    "envs z = (envs s)(e := (envs s e)\<lparr>env_ipc_perm := 0\<rparr>)" "live z e" "refs_low z"
    using e r zc(2) by (simp_all add: z refs_low_def)
  have zs: "step_ok R z t = step_ok R s t" for t
    by (rule step_ok_start) (simp_all add: z upd_env_def env_same_def curenv_def)
  have plain: thesis if c: "?c = ipc_finish e msg z" "\<not> (srcva < UTOP \<and> ?dst < UTOP)"
    by (rule ipc_finish_ok [OF calm_step_ok [OF zc(1)] zm(6,5,2), of msg])
       (use c stop sent zm(1) in \<open>auto simp: page_sent_def no_change_def\<close>)
  show thesis
  proof (cases "srcva < UTOP")
    case False
    then show thesis using plain by (simp add: ipc_deliver_def)
  next
    case src: True
    show thesis using zk zm(7,6,3) src
    proof (cases rule: ipc_send_page_res [where junk = junk and perm = perm])
      case (mapped c v t)
      note F = vm_frame_fields [OF mapped(7)]
      let ?t = "upd_env e (\<lambda>v. v\<lparr>env_ipc_perm := perm\<rparr>) t"
      have tk: "kern_ok R t" "live t = live s" using mapped(6) env_same_eqs(1) [OF vm_frame_same [OF mapped(7)]] zc(2)
        by (simp_all add: step_ok_def)
      have lt: "live t e" using e(1) tk(2) by simp
      have "calm R t ?t" by (rule calm_upd_env(1) [OF calm_refl [OF tk(1)] lt]) (use lt in \<open>auto simp: live_def\<close>)
      then have st: "step_ok R s ?t" using mapped(6) step_ok_calm zs by blast
      have l: "live ?t e" using lt by (auto simp: live_def)
      have en: "envs ?t = (envs s)(e := (envs s e)\<lparr>env_ipc_perm := perm\<rparr>)" "curenv ?t = curenv s" using F zm(2,5) by simp_all
      have "uvm_at s (edir s c) srcva = Some v" using mapped(3) env_same_eqs(3) [OF zsame] zm(1) by (simp add: uvm_at_def)
      then have ps: "page_sent c e srcva perm perm s u" if "pmem u = pmem t" for u
        using mapped(4,5,8) src zm(4) one_change_pmem [OF zm(1) zsame that] by (auto simp: page_sent_def)
      show thesis
        by (rule ipc_finish_ok [OF st l en, of msg])
           (use mapped(1,2) src stop sent ps zm(2) in \<open>auto simp: ipc_deliver_def\<close>)
    next
      case failed
      then show thesis using that(2) [of "- E_INVAL" z] src calm_step_ok [OF zc(1)] zm(1)
        by (simp add: ipc_deliver_def no_change_def E_INVAL_def)
    qed (use src stop plain zm(4) in \<open>auto simp: ipc_deliver_def\<close>)
  qed
qed

lemma sys_ipc_try_send_res:
  assumes ok: "kern_ok R s" and r: "refs_low s"
  obtains (stop) m where "sys_ipc_try_send junk envid msg srcva perm s = Panic m"
  | (failed) x t where "sys_ipc_try_send junk envid msg srcva perm s = Ret x t" "x < 0" "step_ok R s t" "no_change s t"
  | (sent) c e p t where "sys_ipc_try_send junk envid msg srcva perm s = Ret 0 t" "curenv s = Some c"
      "envid2env envid False s = Ret (0, Some e) s" "env_ipc_recving (envs s e)" "step_ok R s t"
      "delivered c e msg p s t" "page_sent c e srcva perm p s t"
proof -
  let ?c = "sys_ipc_try_send junk envid msg srcva perm s"
  let ?good = "\<lambda>e s. if \<not> env_ipc_recving (envs s e) then Ret (- E_IPC_NOT_RECV) s
     else ipc_deliver junk e msg srcva perm (upd_env e (\<lambda>v. v\<lparr>env_ipc_perm := 0\<rparr>) s)"
  let ?bad = "\<lambda>r s. Panic ''sys_ipc_try_send: envid2env failed''"
  have sp: "?c = with_env envid False ?bad ?good s" unfolding sys_ipc_try_send_alt ipc_deliver_def Let_def by simp
  show thesis using ok
  proof (cases rule: with_env_cases [where envid = envid and cp = False and bad = ?bad and good = ?good])
    case (found e)
    show thesis
    proof (cases "env_ipc_recving (envs s e)")
      case False
      then show thesis using that(2) sp found(2) step_ok_refl [OF ok] by (simp add: no_change_def E_IPC_NOT_RECV_def)
    next
      case rv: True
      then have c: "?c = ipc_deliver junk e msg srcva perm (upd_env e (\<lambda>v. v\<lparr>env_ipc_perm := 0\<rparr>) s)"
        using sp found(2) by simp
      show thesis
        by (rule ipc_deliver_res [OF ok r found(3) rv refl, of junk msg srcva perm])
           (use c found(1) rv stop failed sent in auto)
    qed
  qed (use sp stop in auto)
qed

end
