(* ===== verification/Syscall_Spec.thy ===== *)
theory Syscall_Spec
  imports Syscall_Inv
begin

text \<open>
  The dispatcher of \<^verbatim>\<open>kern/syscall.c\<close>: every call but those that write through user pointers keeps
  the invariant of the kernel, grants no write access and respects the isolation of the environments,
  and what single calls promise to their callers.
\<close>

section \<open>Calls that do not touch memory\<close>















section \<open>The dispatcher\<close>











section \<open>A machine with two environments\<close>

text \<open>
  Page 1 holds the kernel's directory, pages 2 and 3 those of environments 0 and 1. Environment 0 runs
  and has page 5 mapped writable at 0x400000, through the page table in page 4. Environment 1, which is not
  its child, waits for a message at 0x800000.
\<close>

definition two_pages :: "nat \<Rightarrow> PageInfo" where
  "two_pages i = \<lparr>pp_link = (if i = 6 then Some 7 else None), pp_ref = (if i < 6 then 1 else 0)\<rparr>"

definition two_mem :: "nat \<Rightarrow> nat \<Rightarrow> u32" where
  "two_mem p i = (if p = 2 \<and> i = 1 then 0x4007 else if p = 4 \<and> i = 0 then 0x5007 else 0)"

definition two_table :: "nat \<Rightarrow> Env" where
  "two_table e =
     (if e = 0 then idle_env\<lparr>env_status := ENV_RUNNING, env_id := 0x1000, env_pgdir := kva_of 2 0\<rparr>
      else if e = 1 then idle_env\<lparr>env_status := ENV_NOT_RUNNABLE, env_id := 0x1001, env_pgdir := kva_of 3 0,
        env_ipc_recving := True, env_ipc_dstva := 0x800000\<rparr>
      else idle_env\<lparr>env_status := ENV_FREE, env_link := if Suc e < NENV then Some (Suc e) else None\<rparr>)"

definition two_envs :: kstate where
  "two_envs = small_machine\<lparr>pages := two_pages, page_free_list := Some 6, pmem := two_mem, envs := two_table,
     env_free_list := Some 2, cpus := (\<lambda>_. \<lparr>cpu_status = CPU_STARTED, cpu_env = Some 0, ts_esp0 = 0\<rparr>)\<rparr>"

lemma two_fields:
  "envs two_envs = two_table" "curenv two_envs = Some 0" "pmem two_envs = two_mem" "npages two_envs = 8"
  "kern_pgdir two_envs = kva_of 1 0" "pages two_envs = two_pages" "env_free_list two_envs = Some 2"
  by (simp_all add: two_envs_def small_machine_def curenv_def)

lemma two_free: "pages_inv two_envs" "free_pages two_envs = [6, 7]"
  by (rule pages_invI [of two_envs "[6, 7]"];
      auto simp: two_envs_def small_machine_def two_pages_def plink_def)+

lemma two_entries: "present 0x4007" "pg 0x4007 = 4" "present 0x5007" "pg 0x5007 = 5"
  by (simp_all add: present_def PTE_P_def pg_def PGNUM_def)

lemma two_tables:
  "upts two_mem {1, 2, 3} = {(2, 1)}" "ptps two_mem {1, 2, 3} = {4}" "umaps two_mem {1, 2, 3} = {(2, 1, 0)}"
  "urefs two_mem {1, 2, 3} q = (if q = 5 then 1 else 0)"
proof -
  show u: "upts two_mem {1, 2, 3} = {(2, 1)}"
    by (auto simp: upts_def two_mem_def two_entries UPDX_eq split: if_splits)
  show "ptps two_mem {1, 2, 3} = {4}" unfolding ptps_def u by (simp add: two_mem_def two_entries)
  show m: "umaps two_mem {1, 2, 3} = {(2, 1, 0)}"
    unfolding umaps_def u by (auto simp: two_mem_def two_entries split: if_splits)
  have "{x. x = (2, 1, 0) \<and> utgt two_mem x = q} = (if q = 5 then {(2, 1, 0)} else {})"
    by (auto simp: two_mem_def two_entries)
  then show "urefs two_mem {1, 2, 3} q = (if q = 5 then 1 else 0)" unfolding urefs_def m by simp
qed

lemma two_live: "live two_envs e \<longleftrightarrow> e = 0 \<or> e = 1"
  by (auto simp: live_def two_envs_def two_table_def idle_env_def NENV_def)

lemma two_dirs: "kdir two_envs = 1" "edir two_envs 0 = 2" "edir two_envs 1 = 3" "dirs two_envs = {1, 2, 3}"
proof -
  show k: "kdir two_envs = 1" and e: "edir two_envs 0 = 2" "edir two_envs 1 = 3"
    using kva_of_parts(1) [of _ 0] by (simp_all add: kdir_def edir_def two_envs_def small_machine_def two_table_def)
  have "{e. live two_envs e} = {0, 1}" using two_live by auto
  then show "dirs two_envs = {1, 2, 3}" using k e by (simp add: dirs_def)
qed

lemma linked_upto: "k < n \<Longrightarrow> linked (\<lambda>i. if Suc i < n then Some (Suc i) else None) (Some k) [k..<n]"
proof (induction "n - k" arbitrary: k)
  case (Suc m)
  then show ?case by (cases "Suc k < n") (auto simp: upt_conv_Cons)
qed simp

lemma two_envs_vm: "vm_inv {0} {1, 2, 3} (\<lambda>_. 0) two_envs"
proof -
  have m: "pmem two_envs = two_mem" "npages two_envs = 8" "pages two_envs = two_pages"
    by (simp_all add: two_envs_def small_machine_def)
  have "tables_wf 8 two_mem {1, 2, 3} {6, 7}"
    unfolding tables_wf_def two_tables by (simp add: two_mem_def two_entries)
  then show ?thesis
    using two_free unfolding vm_inv_def m two_tables by (auto simp: two_pages_def two_mem_def two_entries)
qed

lemma two_envs_ok: "kern_ok {0} two_envs"
proof -
  have "inj_on (edir two_envs) {e. live two_envs e}" using two_dirs(2,3) by (auto simp: inj_on_def two_live)
  moreover have "linked (elink two_envs) (env_free_list two_envs) [2..<NENV]"
  proof -
    have "linked (\<lambda>i. if Suc i < NENV then Some (Suc i) else None) (Some 2) [2..<NENV]"
      by (rule linked_upto) (simp add: NENV_def)
    moreover have "elink two_envs i = (if Suc i < NENV then Some (Suc i) else None)" if "i \<in> set [2..<NENV]" for i
      using that by (simp add: elink_def two_envs_def two_table_def)
    ultimately show ?thesis using linked_cong [of "[2..<NENV]" "elink two_envs"] by (simp add: two_envs_def)
  qed
  moreover have "set [2..<NENV] = {e. e < NENV \<and> \<not> live two_envs e}" by (auto simp: two_live)
  moreover have "env_pgdir (envs two_envs e) = kva_of (edir two_envs e) 0 \<and> edir two_envs e \<noteq> kdir two_envs"
    if "live two_envs e" for e
    using that two_dirs by (auto simp: two_live two_fields two_table_def)
  moreover have "curenv two_envs = Some 0" "\<not> env_e1000_waiting_rx (envs two_envs e)" for e
    by (simp_all add: two_fields two_table_def idle_env_def)
  moreover have "live two_envs 0" by (simp add: two_live)
  ultimately have "env_ok two_envs" unfolding env_ok_def by auto
  then show ?thesis
    using two_envs_vm unfolding kern_ok_def two_dirs by (simp add: two_fields two_mem_def)
qed


section \<open>Properties\<close>













section \<open>Destroying an environment that waits for a packet\<close>

text \<open>
  Destroying an environment that waits for a packet breaks the scheduler (C11). \<open>env_free\<close> does not
  reset the flag by which the scheduler finds environments that wait for a packet. When the caller destroys
  such an environment and then waits for a message while nothing else can run, the scheduler switches to
  the freed environment and the kernel panics on its missing page directory.
\<close>

theorem destroyed_waiter_panics:
  assumes ok: "kern_ok R s" and c: "curenv s = Some c" and e: "live s e" "e \<noteq> c" "env_e1000_waiting_rx (envs s e)"
    and idle: "\<forall>i < NENV. i \<noteq> c \<longrightarrow> env_status (envs s i) \<notin> {ENV_RUNNABLE, ENV_RUNNING}"
    and only: "\<forall>i < NENV. i \<noteq> e \<longrightarrow> \<not> env_e1000_waiting_rx (envs s i)"
  shows "\<exists>t. env_destroy e s = Ret () t \<and> (sys_ipc_recv UTOP t :: int kres) = Panic ''PADDR called with invalid kva''"
proof -
  have eN: "e < NENV" "c < NENV" using e(1) kern_okD(9) [OF ok c] by (simp_all add: live_def)
  obtain t where t: "env_free e s = Ret () t" "env_frame s t"
    "envs t = (envs s)(e := (envs s e)\<lparr>env_pgdir := 0, env_status := ENV_FREE, env_link := env_free_list s\<rparr>)"
    by (rule env_free_ok [of R "edir s e" "dirs s - {edir s e}" s e "kdir s"])
       (use dirs_split [OF e(1)] kern_okD [OF ok] e(1) that in auto)
  have ct: "curenv t = Some c" using t(2) c by (simp add: env_frame_def curenv_def)
  have nr: "env_status (envs s e) \<noteq> ENV_RUNNING" using idle eN e(2) by simp
  have d: "env_destroy e s = Ret () t" using t(1) ct nr e(2) by (simp add: env_destroy_def)
  define u where "u = upd_env c (\<lambda>v. v\<lparr>env_ipc_recving := True, env_status := ENV_NOT_RUNNABLE, env_ipc_dstva := UTOP\<rparr>) t"
  have u: "curenv u = Some c" "env_status (envs u c) = ENV_NOT_RUNNABLE" "env_pgdir (envs u e) = 0"
    using ct e(2) by (simp_all add: u_def t(3))
  have "env_status (envs u i) \<noteq> ENV_RUNNABLE" if "i < NENV" for i using that idle e(2) by (simp add: u_def t(3))
  then have "sched_pick u k n = None" for k n using sched_pick_Some [of u k n] by (cases "sched_pick u k n") auto
  moreover have "find (\<lambda>i. env_e1000_waiting_rx (envs u i)) [0..<NENV] = Some e"
    using only e(2,3) eN unfolding find_Some_iff by (intro exI [of _ e]) (auto simp: u_def t(3))
  ultimately have y: "(sched_yield u :: int kres) = env_run e (upd_env e (\<lambda>v. v\<lparr>env_e1000_waiting_rx := False\<rparr>) u)"
    using u(1,2) by (simp add: sched_yield_def)
  have "(env_run e (upd_env e (\<lambda>v. v\<lparr>env_e1000_waiting_rx := False\<rparr>) u) :: int kres) = Panic ''PADDR called with invalid kva''"
    using u e(2) by (simp add: env_run_def Let_def set_curenv_def PADDR_def KERNBASE_def)
  then have "(sys_ipc_recv UTOP t :: int kres) = Panic ''PADDR called with invalid kva''"
    using y ct by (simp add: sys_ipc_recv_def with_curenv_def sys_yield_def u_def)
  then show ?thesis using d by blast
qed

theorem destroyed_waiter_panics_witness:
  "\<exists>t. env_destroy 1 (upd_env 1 (\<lambda>v. v\<lparr>env_e1000_waiting_rx := True\<rparr>) two_envs) = Ret () t \<and>
     (sys_ipc_recv UTOP t :: int kres) = Panic ''PADDR called with invalid kva''"
proof -
  let ?s = "upd_env 1 (\<lambda>v. v\<lparr>env_e1000_waiting_rx := True\<rparr>) two_envs"
  have l: "live two_envs 1" by (simp add: two_live)
  have k: "kern_ok {0} ?s" "live ?s = live two_envs"
    using calm_ok [OF calm_upd_env(1) [OF calm_refl [OF two_envs_ok] l]] calm_upd_env(2) [OF calm_refl [OF two_envs_ok] l]
    by (simp_all add: two_fields two_table_def)
  show ?thesis
    by (rule destroyed_waiter_panics [OF k(1), of 0 1]) (use l k(2) in \<open>auto simp: two_fields two_table_def idle_env_def\<close>)
qed

end
