(* ===== verification/Console_Spec.thy ===== *)
theory Console_Spec
  imports Console
begin

text \<open>
  Properties of the console (\<^verbatim>\<open>kern/console.c\<close>): its positions stay inside the screen and the input
  buffer, nothing outside of them is written, and the input buffer is a first-in first-out queue.
\<close>

section \<open>An interface for bounded queues\<close>

text \<open>
  \<open>contents s\<close> is what a state \<open>s\<close> holds, oldest element first; \<open>enq\<close> appends while fewer than \<open>cap\<close>
  elements are held, and \<open>deq\<close> removes the oldest one.
\<close>

fun deq_all :: "('s \<Rightarrow> ('a \<times> 's) option) \<Rightarrow> nat \<Rightarrow> 's \<Rightarrow> 'a list \<times> 's" where
  "deq_all deq 0 s = ([], s)"
| "deq_all deq (Suc n) s =
     (case deq s of
        None \<Rightarrow> ([], s)
      | Some (x, s) \<Rightarrow> let (xs, s) = deq_all deq n s in (x # xs, s))"

locale bounded_queue =
  fixes enq :: "'a \<Rightarrow> 's \<Rightarrow> 's" and deq :: "'s \<Rightarrow> ('a \<times> 's) option"
    and contents :: "'s \<Rightarrow> 'a list" and wf :: "'s \<Rightarrow> bool" and cap :: nat
  assumes enq_wf: "wf s \<Longrightarrow> wf (enq x s)"
    and enq_contents: "wf s \<Longrightarrow> length (contents s) < cap \<Longrightarrow> contents (enq x s) = contents s @ [x]"
    and deq_empty: "wf s \<Longrightarrow> contents s = [] \<Longrightarrow> deq s = None"
    and deq_oldest: "wf s \<Longrightarrow> contents s = x # xs \<Longrightarrow> \<exists>t. deq s = Some (x, t) \<and> wf t \<and> contents t = xs"
begin

lemma enq_all:
  "wf s \<Longrightarrow> length (contents s) + length xs \<le> cap \<Longrightarrow>
    wf (fold enq xs s) \<and> contents (fold enq xs s) = contents s @ xs"
  by (induction xs arbitrary: s) (auto simp: enq_wf enq_contents)

lemma deq_all_oldest:
  "wf s \<Longrightarrow> \<exists>t. deq_all deq n s = (take n (contents s), t) \<and> wf t \<and> contents t = drop n (contents s)"
proof (induction n arbitrary: s)
  case (Suc n)
  show ?case
  proof (cases "contents s")
    case Nil
    then show ?thesis using deq_empty [OF Suc.prems] Suc.prems by simp
  next
    case (Cons x xs)
    obtain t where t: "deq s = Some (x, t)" "wf t" "contents t = xs" using deq_oldest [OF Suc.prems Cons] by blast
    then show ?thesis using Suc.IH [OF t(2)] Cons by (auto split: prod.split)
  qed
qed simp

lemma fifo:
  assumes "wf s" and "length (contents s) + length xs \<le> cap"
  shows "fst (deq_all deq (length (contents s) + length xs) (fold enq xs s)) = contents s @ xs"
proof -
  have "wf (fold enq xs s)" "contents (fold enq xs s) = contents s @ xs" using enq_all [OF assms] by blast+
  then show ?thesis using deq_all_oldest [of "fold enq xs s" "length (contents s) + length xs"] by auto
qed

end

section \<open>The input buffer as a queue\<close>

definition input_wf :: "console \<Rightarrow> bool" where
  "input_wf s \<longleftrightarrow> cons_rpos s < CONSBUFSIZE \<and> cons_wpos s < CONSBUFSIZE"

definition input_len :: "console \<Rightarrow> nat" where
  "input_len s = (cons_wpos s + CONSBUFSIZE - cons_rpos s) mod CONSBUFSIZE"

definition input :: "console \<Rightarrow> u8 list" where
  "input s = map (\<lambda>k. cons_buf s ((cons_rpos s + k) mod CONSBUFSIZE)) [0..<input_len s]"

definition take_input :: "console \<Rightarrow> (u8 \<times> console) option" where
  "take_input s = (if cons_rpos s = cons_wpos s then None else
     let (c, t) = cons_take s in Some (of_int c, t))"

lemma input_len_cases:
  assumes "input_wf s"
  shows "input_len s = (if cons_rpos s \<le> cons_wpos s then cons_wpos s - cons_rpos s
    else cons_wpos s + CONSBUFSIZE - cons_rpos s)"
  using assms by (auto simp: input_wf_def input_len_def le_mod_geq)

lemma index_wraps: "r < CONSBUFSIZE \<Longrightarrow> k < CONSBUFSIZE \<Longrightarrow>
    (r + k) mod CONSBUFSIZE = (if r + k < CONSBUFSIZE then r + k else r + k - CONSBUFSIZE)"
  by (simp add: le_mod_geq)

lemma length_input [simp]: "length (input s) = input_len s"
  by (simp add: input_def)

lemma cons_put_positions:
  "input_wf s \<Longrightarrow> cons_wpos (cons_put c s) = Suc (cons_wpos s) mod CONSBUFSIZE"
  "cons_rpos (cons_put c s) = cons_rpos s" "cons_buf (cons_put c s) = (cons_buf s)(cons_wpos s := c)"
  by (auto simp: cons_put_def Let_def input_wf_def)

lemma cons_put_wf: "input_wf s \<Longrightarrow> input_wf (cons_put c s)"
  by (auto simp: cons_put_def Let_def input_wf_def)

lemma cons_put_len:
  assumes wf: "input_wf s" and room: "input_len s < CONSBUFSIZE - 1"
  shows "input_len (cons_put c s) = Suc (input_len s)"
  using room wf cons_put_wf [OF wf, of c]
  by (auto simp: input_len_cases cons_put_positions input_wf_def mod_Suc split: if_splits)

lemma cons_put_input:
  assumes wf: "input_wf s" and room: "length (input s) < CONSBUFSIZE - 1"
  shows "input (cons_put c s) = input s @ [c]"
proof (rule nth_equalityI)
  have len: "input_len s < CONSBUFSIZE - 1" using room by simp
  show "length (input (cons_put c s)) = length (input s @ [c])" using cons_put_len [OF wf len] by simp
  fix k assume "k < length (input (cons_put c s))"
  then have k: "k < Suc (input_len s)" using cons_put_len [OF wf len] by simp
  have "(cons_rpos s + k) mod CONSBUFSIZE = cons_wpos s \<longleftrightarrow> k = input_len s"
    using wf k len by (auto simp: index_wraps input_len_cases input_wf_def split: if_splits)
  then show "input (cons_put c s) ! k = (input s @ [c]) ! k"
    using k by (auto simp: input_def nth_append cons_put_positions cons_put_len [OF wf len] simp del: upt_Suc)
qed

lemma cons_take_positions:
  assumes "input_wf s" and "cons_rpos s \<noteq> cons_wpos s"
  shows "cons_take s = (int (unat (cons_buf s (cons_rpos s))), s\<lparr>cons_rpos := Suc (cons_rpos s) mod CONSBUFSIZE\<rparr>)"
  using assms by (auto simp: cons_take_def Let_def input_wf_def)

lemma take_input_empty: "input_wf s \<Longrightarrow> input s = [] \<Longrightarrow> take_input s = None"
  by (auto simp: input_def take_input_def input_len_cases input_wf_def split: if_splits)

lemma take_input_oldest:
  assumes wf: "input_wf s" and i: "input s = c # cs"
  shows "\<exists>t. take_input s = Some (c, t) \<and> input_wf t \<and> input t = cs"
proof -
  define t where "t = s\<lparr>cons_rpos := Suc (cons_rpos s) mod CONSBUFSIZE\<rparr>"
  have ne: "cons_rpos s \<noteq> cons_wpos s" using i wf by (auto simp: input_def input_len_def input_wf_def)
  have wt: "input_wf t" using wf by (simp add: t_def input_wf_def jos_consts)
  have n: "input_len s = Suc (input_len t)"
    using wf wt ne by (auto simp: t_def input_len_cases input_wf_def mod_Suc split: if_splits)
  have upt: "[0..<input_len s] = 0 # map Suc [0..<input_len t]" unfolding n by (simp add: map_Suc_upt upt_conv_Cons)
  have "input s = cons_buf s (cons_rpos s) # input t"
    using wf unfolding input_def upt by (simp add: t_def input_wf_def mod_add_left_eq)
  then show ?thesis
    using i wt cons_take_positions [OF wf ne] ne by (auto simp: take_input_def t_def)
qed

interpretation kbd_queue: bounded_queue cons_put take_input input input_wf "CONSBUFSIZE - 1"
  by unfold_locales (auto intro: cons_put_wf cons_put_input take_input_empty take_input_oldest)

section \<open>Interrupts and reading\<close>

lemma serial_proc_data_next:
  "com1_rx s = c # cs \<Longrightarrow> serial_proc_data s = (int (unat c), s\<lparr>com1_rx := cs\<rparr>)"
  by (simp add: serial_proc_data_def)

lemma cons_put_rx: "cons_put c (s\<lparr>com1_rx := cs\<rparr>) = (cons_put c s)\<lparr>com1_rx := cs\<rparr>"
  by (simp add: cons_put_def Let_def)

lemma serial_drain:
  "length (com1_rx s) < n \<Longrightarrow>
    cons_intr n serial_proc_data s = (fold cons_put (filter (\<lambda>c. c \<noteq> 0) (com1_rx s)) s)\<lparr>com1_rx := []\<rparr>"
proof (induction "com1_rx s" arbitrary: s n)
  case Nil
  then show ?case by (cases n) (auto simp: serial_proc_data_def split: list.splits)
next
  case (Cons c cs)
  then obtain m where n: "n = Suc m" and m: "length cs < m" by (cases n) (simp_all flip: Cons.hyps(2))
  have fold_rx: "fold cons_put xs (s\<lparr>com1_rx := ys\<rparr>) = (fold cons_put xs s)\<lparr>com1_rx := ys\<rparr>" for xs ys s
    by (induction xs arbitrary: s) (simp_all add: cons_put_rx)
  have nn: "uint c \<noteq> - 1" using uint_nonnegative [of c] by linarith
  show ?case
    using m nn Cons.hyps(1) [of "s\<lparr>com1_rx := cs\<rparr>" m] Cons.hyps(1) [of "(cons_put c s)\<lparr>com1_rx := cs\<rparr>" m]
    by (simp add: n serial_proc_data_next [OF Cons.hyps(2) [symmetric]] cons_put_rx fold_rx uint_0_iff
        flip: Cons.hyps(2))
qed

lemma serial_intr_drains:
  "serial_exists s \<Longrightarrow> serial_intr s = (fold cons_put (filter (\<lambda>c. c \<noteq> 0) (com1_rx s)) s)\<lparr>com1_rx := []\<rparr>"
  by (simp add: serial_intr_def serial_drain del: cons_intr.simps)

lemma kbd_intr_idle: "kbc_data s = [] \<Longrightarrow> kbd_intr s = s"
  by (simp add: kbd_intr_def kbd_proc_data_def)

lemma serial_intr_idle: "com1_rx s = [] \<Longrightarrow> serial_intr s = s"
  by (simp add: serial_intr_def serial_proc_data_def)

fun getc_all :: "nat \<Rightarrow> console \<Rightarrow> int list \<times> console" where
  "getc_all 0 s = ([], s)"
| "getc_all (Suc n) s = (let (c, s) = cons_getc s; (cs, s) = getc_all n s in (c # cs, s))"

lemma getc_all_idle:
  "input_wf s \<Longrightarrow> com1_rx s = [] \<Longrightarrow> kbc_data s = [] \<Longrightarrow>
    fst (getc_all n s) = map (\<lambda>c. int (unat c)) (take n (input s)) @ replicate (n - input_len s) 0"
proof (induction n arbitrary: s)
  case (Suc n)
  have get: "cons_getc s = cons_take s" by (simp add: cons_getc_def serial_intr_idle kbd_intr_idle Suc.prems)
  show ?case
  proof (cases "input s")
    case Nil
    have "cons_rpos s = cons_wpos s"
      using take_input_empty [OF Suc.prems(1) Nil] by (auto simp: take_input_def split: if_splits prod.splits)
    moreover have "input_len s = 0" using Nil by (metis length_input list.size(3))
    ultimately show ?thesis
      using Suc.IH [OF Suc.prems] Nil by (simp add: get cons_take_def case_prod_beta)
  next
    case (Cons c cs)
    obtain t where t: "take_input s = Some (c, t)" "input_wf t" "input t = cs"
      using take_input_oldest [OF Suc.prems(1) Cons] by blast
    have ne: "cons_rpos s \<noteq> cons_wpos s" using t(1) by (simp add: take_input_def split: if_splits)
    have ct: "cons_take s = (int (unat c), t)" "com1_rx t = []" "kbc_data t = []"
      using t(1) ne cons_take_positions [OF Suc.prems(1) ne] Suc.prems by (auto simp: take_input_def)
    have "input_len s = Suc (input_len t)" using Cons t(3) by (metis length_input length_Cons)
    then show ?thesis
      using Suc.IH [OF t(2) ct(2,3)] by (simp add: get ct(1) Cons t(3) case_prod_beta)
  qed
qed simp

text \<open>What \<open>cons_getc\<close> leaves of the device queues it drains.\<close>

lemma fold_put_frame [simp]:
  "kbc_data (fold cons_put cs s) = kbc_data s" "crt_pos (fold cons_put cs s) = crt_pos s"
  by (induction cs arbitrary: s) (auto simp: cons_put_def Let_def)

lemma input_rx [simp]: "input (s\<lparr>com1_rx := cs\<rparr>) = input s" "input_wf (s\<lparr>com1_rx := cs\<rparr>) = input_wf s"
    "input_len (s\<lparr>com1_rx := cs\<rparr>) = input_len s"
  by (simp_all add: input_def input_len_def input_wf_def)

lemma getc_all_drains:
  assumes "serial_exists s" and "kbc_data s = []"
  shows "fst (getc_all n s) = fst (getc_all n (serial_intr s))"
  using assms
  by (cases n) (simp_all add: cons_getc_def serial_intr_drains serial_intr_idle kbd_intr_idle)

text \<open>
  (C15) Console input is first in, first out. While the keyboard is idle and what waits at the serial port
  fits beside what the buffer holds, \<open>n\<close> calls of \<open>cons_getc\<close> return the buffered bytes, then the bytes of the
  serial port in the order they came in (without the zero bytes), and 0 once there are no more.
\<close>

theorem cons_getc_fifo:
  assumes "input_wf s" and "serial_exists s" and "kbc_data s = []"
    and q: "q = input s @ filter (\<lambda>c. c \<noteq> 0) (com1_rx s)" and fits: "length q < CONSBUFSIZE"
  shows "fst (getc_all n s) = map (\<lambda>c. int (unat c)) (take n q) @ replicate (n - length q) 0"
proof -
  define cs where "cs = filter (\<lambda>c. c \<noteq> 0) (com1_rx s)"
  have "input_wf (fold cons_put cs s)" and i: "input (fold cons_put cs s) = q"
    using kbd_queue.enq_all [OF assms(1), of cs] fits by (simp_all add: q cs_def)
  moreover have "input_len (fold cons_put cs s) = length q" using i by (metis length_input)
  ultimately show ?thesis
    using getc_all_idle [of "(fold cons_put cs s)\<lparr>com1_rx := []\<rparr>" n] getc_all_drains [of s n] assms(2,3)
    by (simp add: serial_intr_drains cs_def)
qed

definition typing :: console where
  "typing = \<lparr>cons_buf = (\<lambda>i. 0x61), cons_rpos = 510, cons_wpos = 511, serial_exists = True,
     com1_rx = [0x62, 0, 0x63], com1_tx = [], kbc_data = [], kbd_shift = 0, lpt_tx = [],
     crt_buf = (\<lambda>i. 0x0720), crt_pos = 1999, rebooted = False\<rparr>"

lemma typing_input: "input_wf typing" "serial_exists typing" "kbc_data typing = []" "unat (crt_pos typing) < CRT_SIZE"
    "input typing @ filter (\<lambda>c. c \<noteq> 0) (com1_rx typing) = [0x61, 0x62, 0x63]"
  by (simp_all add: typing_def input_wf_def input_def input_len_def jos_consts)

theorem cons_getc_fifo_witness: "fst (getc_all 4 typing) = [0x61, 0x62, 0x63, 0]"
  using cons_getc_fifo [OF typing_input(1-3) typing_input(5) [symmetric], of 4] by (simp add: jos_consts)

lemma fold_put_positions:
  "input_wf s \<Longrightarrow> cons_wpos (fold cons_put cs s) = (cons_wpos s + length cs) mod CONSBUFSIZE
    \<and> cons_rpos (fold cons_put cs s) = cons_rpos s"
proof (induction cs arbitrary: s)
  case Nil
  then show ?case by (simp add: input_wf_def)
next
  case (Cons c cs)
  then show ?case
    using Cons.IH [OF cons_put_wf [OF Cons.prems]] cons_put_positions(1) [OF Cons.prems] cons_put_positions(2)
    by (simp add: mod_simps)
qed

text \<open>
  The buffer keeps no count and \<open>cons_intr\<close> does not look for room: 512 unread bytes make it look empty.
\<close>

theorem cons_intr_overrun:
  assumes "input_wf s" and "serial_exists s" and "input s = []"
    and "length (filter (\<lambda>c. c \<noteq> 0) (com1_rx s)) = CONSBUFSIZE"
  shows "input (serial_intr s) = []"
proof -
  have "cons_rpos s = cons_wpos s"
    using take_input_empty [OF assms(1,3)] by (auto simp: take_input_def split: if_splits prod.splits)
  then show ?thesis
    using fold_put_positions [OF assms(1), of "filter (\<lambda>c. c \<noteq> 0) (com1_rx s)"] assms
    by (simp add: serial_intr_drains input_def [of "fold _ _ _"] input_len_def input_wf_def)
qed

section \<open>Bounds\<close>

definition console_wf :: "console \<Rightarrow> bool" where
  "console_wf s \<longleftrightarrow> input_wf s \<and> unat (crt_pos s) < CRT_SIZE"

text \<open>\<open>safe s t\<close>: going from \<open>s\<close> to \<open>t\<close> keeps the positions in range and writes nothing past the two arrays.\<close>

definition safe :: "console \<Rightarrow> console \<Rightarrow> bool" where
  "safe s t \<longleftrightarrow> (console_wf s \<longrightarrow> console_wf t
     \<and> (\<forall>i \<ge> CONSBUFSIZE. cons_buf t i = cons_buf s i) \<and> (\<forall>i \<ge> CRT_SIZE. crt_buf t i = crt_buf s i))"

lemma safe_refl [simp]: "safe s s"
  by (simp add: safe_def)

lemma safe_trans: "safe s t \<Longrightarrow> safe t u \<Longrightarrow> safe s u"
  by (auto simp: safe_def)

lemma safe_cons_put: "safe s (cons_put c s)"
  by (auto simp: safe_def console_wf_def cons_put_wf cons_put_positions) (auto simp: cons_put_def Let_def input_wf_def)

lemma safe_cons_take: "safe s (snd (cons_take s))"
  by (auto simp: safe_def console_wf_def input_wf_def cons_take_def Let_def)

lemma safe_cons_intr: "(\<And>s. safe s (snd (proc s))) \<Longrightarrow> safe s (cons_intr n proc s)"
proof (induction n arbitrary: s)
  case (Suc n)
  then show ?case
    using safe_cons_put safe_trans by (simp add: case_prod_beta) blast
qed simp

lemma cga_scroll_pos: "unat (crt_pos s) < CRT_SIZE + CRT_COLS \<Longrightarrow> unat (crt_pos (cga_scroll s)) < CRT_SIZE"
  by (simp add: cga_scroll_def jos_consts unat_sub_if' word_le_nat_alt) arith

lemma cga_scroll_frame: "i \<ge> CRT_SIZE \<Longrightarrow> crt_buf (cga_scroll s) i = crt_buf s i"
    "cons_buf (cga_scroll s) = cons_buf s" "input_wf (cga_scroll s) = input_wf s"
  by (simp_all add: cga_scroll_def jos_consts input_wf_def)

lemma safe_scroll:
  assumes "console_wf s \<Longrightarrow> input_wf t \<and> unat (crt_pos t) < CRT_SIZE + CRT_COLS"
    and "console_wf s \<Longrightarrow> cons_buf t = cons_buf s \<and> (\<forall>i \<ge> CRT_SIZE. crt_buf t i = crt_buf s i)"
  shows "safe s (cga_scroll t)"
  using assms by (auto simp: safe_def console_wf_def cga_scroll_pos cga_scroll_frame)

lemma unat_sub_le: "q \<le> (p :: u16) \<Longrightarrow> unat (p - q) \<le> unat p"
  by (simp add: unat_sub)

lemma line_start: "unat (p :: u16) < n \<Longrightarrow> unat (p - p mod q) < n"
  by (rule le_less_trans [OF unat_sub_le]) (auto simp: word_le_nat_alt unat_mod_distrib)

lemma cga_positions:
  assumes "console_wf s"
  shows "unat (crt_pos s + 80) < 2080" "unat (crt_pos s + 1) < 2080" "unat (crt_pos s) < 2000"
    "0 < crt_pos s \<Longrightarrow> unat (crt_pos s - 1) < 2000"
  using assms by (simp_all add: console_wf_def jos_consts unat_word_ariths unat_minus_one less_imp_diff_less)

lemma cga_switch_frame: "cons_buf (cga_switch c s) = cons_buf s" "input_wf (cga_switch c s) = input_wf s"
  by (simp_all add: cga_switch_def Let_def input_wf_def)

lemma cga_switch_buf: "console_wf s \<Longrightarrow> i \<ge> CRT_SIZE \<Longrightarrow> crt_buf (cga_switch c s) i = crt_buf s i"
  using cga_positions [of s] by (auto simp: cga_switch_def Let_def jos_consts)

lemma cga_switch_pos:
  assumes wf: "console_wf s"
  shows "unat (crt_pos (cga_switch c s)) < CRT_SIZE + CRT_COLS"
proof -
  have "0 < crt_pos s \<Longrightarrow> unat (crt_pos s - 1) < 2080" using cga_positions(4) [OF wf] by simp
  then show ?thesis
    using cga_positions(1-3) [OF wf] line_start [of "crt_pos s + 80" 2080 80] line_start [of "crt_pos s" 2000 80]
    by (simp add: cga_switch_def Let_def jos_consts)
qed

lemma safe_cga_char: "safe s (cga_char c s)"
  unfolding cga_char_def
  by (rule safe_scroll) (auto simp: cga_switch_frame cga_switch_buf cga_switch_pos, simp add: console_wf_def)

lemma safe_ports: "safe s (serial_putc c s)" "safe s (lpt_putc c s)"
  by (simp_all add: safe_def console_wf_def input_wf_def serial_putc_def lpt_putc_def)

lemma safe_cons_putc_blank: "safe s (cons_putc_blank s)"
  unfolding cons_putc_blank_def by (rule safe_trans [OF safe_ports(1) safe_trans [OF safe_ports(2) safe_cga_char]])

lemma safe_cga_scroll: "safe s (cga_scroll s)"
  by (rule safe_scroll) (auto simp: console_wf_def)

lemma safe_cputchar: "safe s (cputchar c s)"
proof -
  have "safe s ((cons_putc_blank ^^ n) s)" for n s
  proof (induction n)
    case (Suc n)
    show ?case using safe_trans [OF Suc.IH safe_cons_putc_blank] by simp
  qed simp
  then have "safe s (cga_putc c s)" for s
    unfolding cga_putc_def using safe_trans [OF _ safe_cga_scroll] safe_cga_char by presburger
  then show ?thesis
    unfolding cputchar_def cons_putc_def by (rule safe_trans [OF safe_ports(1) safe_trans [OF safe_ports(2)]])
qed

lemma safe_serial_proc_data: "safe s (snd (serial_proc_data s))"
  by (auto simp: serial_proc_data_def safe_def console_wf_def input_wf_def split: list.splits)

lemma safe_cprint: "safe s (cprint cs s)"
  unfolding cprint_def
proof (induction cs arbitrary: s)
  case (Cons c cs)
  show ?case using safe_trans [OF safe_cputchar Cons.IH] by simp
qed simp

lemma kbd_proc_data_next:
  assumes "kbc_data s = d # ds"
  shows "\<exists>x c cs. kbd_proc_data s = (c, s\<lparr>kbc_data := ds, kbd_shift := x\<rparr>)
    \<or> kbd_proc_data s = (c, (cprint cs (s\<lparr>kbc_data := ds, kbd_shift := x\<rparr>))\<lparr>rebooted := True\<rparr>)"
  by (simp add: kbd_proc_data_def assms Let_def case_prod_beta) blast

lemma safe_kbd_proc_data: "safe s (snd (kbd_proc_data s))"
proof (cases "kbc_data s")
  case (Cons d ds)
  have "safe s (s\<lparr>kbc_data := ds, kbd_shift := x\<rparr>)"
    "safe (s\<lparr>kbc_data := ds, kbd_shift := x\<rparr>) t \<longrightarrow> safe s (t\<lparr>rebooted := True\<rparr>)" for x t
    by (simp_all add: safe_def console_wf_def input_wf_def)
  then show ?thesis
    using kbd_proc_data_next [OF Cons] safe_cprint by (metis snd_conv)
qed (simp add: kbd_proc_data_def)

lemma safe_serial_intr: "safe s (serial_intr s)"
  unfolding serial_intr_def using safe_cons_intr safe_serial_proc_data safe_refl by presburger

lemma safe_kbd_intr: "safe s (kbd_intr s)"
  unfolding kbd_intr_def by (rule safe_cons_intr) (rule safe_kbd_proc_data)

text \<open>
  (C14) The console's state stays well formed. If the read and write positions are inside the input buffer and
  the cursor is on the screen, then the same holds after printing any character, after a serial or keyboard
  interrupt, and after reading a character, and none of them writes past the 512 bytes of the buffer or the
  25 by 80 cells of the screen.
\<close>

theorem console_stays_wf:
  assumes "console_wf s" and "t \<in> {cputchar c s, serial_intr s, kbd_intr s, snd (cons_getc s)}"
  shows "console_wf t \<and> (\<forall>i. i \<ge> CONSBUFSIZE \<longrightarrow> cons_buf t i = cons_buf s i)
    \<and> (\<forall>i. i \<ge> CRT_SIZE \<longrightarrow> crt_buf t i = crt_buf s i)"
proof -
  have "safe s (snd (cons_getc s))"
    unfolding cons_getc_def
    by (rule safe_trans [OF safe_serial_intr safe_trans [OF safe_kbd_intr safe_cons_take]])
  then have "safe s t" using assms(2) safe_cputchar safe_serial_intr safe_kbd_intr by blast
  then show ?thesis using assms(1) by (simp add: safe_def)
qed

theorem console_stays_wf_witness:
  "console_wf (cputchar 0x41 typing) \<and> crt_buf (cputchar 0x41 typing) 2000 = 0x0720"
proof -
  have wf: "console_wf typing" using typing_input by (simp add: console_wf_def)
  have "crt_buf typing 2000 = 0x0720" "CRT_SIZE \<le> 2000" by (simp_all add: typing_def jos_consts)
  then show ?thesis using console_stays_wf [OF wf, of "cputchar 0x41 typing" "0x41"] by simp
qed

end
