(* ===== verification/Libstring.thy ===== *)
theory Libstring
  imports Jos_Prelude
begin

text \<open>
  The string routines of \<^verbatim>\<open>lib/string.c\<close>, shared by the kernel and user programs, over a flat
  memory of bytes. Loops that end only when they meet a terminating zero are partial functions:
  \<open>None\<close> means that the loop does not return. The block operations are the variants that are
  compiled (\<open>ASM\<close> is 1), as repeated string instructions.
\<close>

type_synonym mem = "u32 \<Rightarrow> u8"

section \<open>Strings in memory\<close>

fun cstr :: "mem \<Rightarrow> u32 \<Rightarrow> u8 list \<Rightarrow> bool" where
  "cstr m p [] \<longleftrightarrow> m p = 0"
| "cstr m p (x # xs) \<longleftrightarrow> m p = x \<and> x \<noteq> 0 \<and> cstr m (p + 1) xs"

section \<open>Length, copy, comparison\<close>

partial_function (option) strlen_loop :: "mem \<Rightarrow> u32 \<Rightarrow> u32 \<Rightarrow> u32 option" where
  "strlen_loop m s n = (if m s \<noteq> 0 then strlen_loop m (s + 1) (n + 1) else Some n)"

definition strlen :: "mem \<Rightarrow> u32 \<Rightarrow> u32 option" where
  "strlen m s = strlen_loop m s 0"

fun strnlen :: "mem \<Rightarrow> u32 \<Rightarrow> nat \<Rightarrow> nat" where
  "strnlen m s 0 = 0"
| "strnlen m s (Suc sz) = (if m s \<noteq> 0 then Suc (strnlen m (s + 1) sz) else 0)"

partial_function (option) strcpy_loop :: "mem \<Rightarrow> u32 \<Rightarrow> u32 \<Rightarrow> mem option" where
  "strcpy_loop m dst src =
     (let m' = m(dst := m src) in
      if m src \<noteq> 0 then strcpy_loop m' (dst + 1) (src + 1) else Some m')"

definition strcpy :: "mem \<Rightarrow> u32 \<Rightarrow> u32 \<Rightarrow> mem option" where
  "strcpy m dst src = strcpy_loop m dst src"

definition strcat :: "mem \<Rightarrow> u32 \<Rightarrow> u32 \<Rightarrow> mem option" where
  "strcat m dst src = Option.bind (strlen m dst) (\<lambda>len. strcpy m (dst + len) src)"

fun strncpy :: "mem \<Rightarrow> u32 \<Rightarrow> u32 \<Rightarrow> nat \<Rightarrow> mem" where
  "strncpy m dst src 0 = m"
| "strncpy m dst src (Suc n) =
     (let m' = m(dst := m src) in
      strncpy m' (dst + 1) (if m' src \<noteq> 0 then src + 1 else src) n)"

text \<open>The loop of \<open>strlcpy\<close> copies at most \<open>n\<close> bytes; the result is the memory and \<open>dst\<close>.\<close>

fun strlcpy_loop :: "mem \<Rightarrow> u32 \<Rightarrow> u32 \<Rightarrow> nat \<Rightarrow> mem \<times> u32" where
  "strlcpy_loop m dst src 0 = (m, dst)"
| "strlcpy_loop m dst src (Suc n) =
     (if m src \<noteq> 0 then strlcpy_loop (m(dst := m src)) (dst + 1) (src + 1) n else (m, dst))"

definition strlcpy :: "mem \<Rightarrow> u32 \<Rightarrow> u32 \<Rightarrow> nat \<Rightarrow> mem \<times> u32" where
  "strlcpy m dst src sz =
     (if sz > 0 then
        let (m, d) = strlcpy_loop m dst src (sz - 1) in (m(d := 0), d - dst)
      else (m, 0))"

partial_function (option) strcmp :: "mem \<Rightarrow> u32 \<Rightarrow> u32 \<Rightarrow> int option" where
  "strcmp m p q =
     (if m p \<noteq> 0 \<and> m p = m q then strcmp m (p + 1) (q + 1)
      else Some (uint (m p) - uint (m q)))"

fun strncmp :: "mem \<Rightarrow> u32 \<Rightarrow> u32 \<Rightarrow> nat \<Rightarrow> int" where
  "strncmp m p q 0 = 0"
| "strncmp m p q (Suc n) =
     (if m p \<noteq> 0 \<and> m p = m q then strncmp m (p + 1) (q + 1) n
      else uint (m p) - uint (m q))"

partial_function (option) strfind :: "mem \<Rightarrow> u32 \<Rightarrow> u8 \<Rightarrow> u32 option" where
  "strfind m s c = (if m s \<noteq> 0 \<and> m s \<noteq> c then strfind m (s + 1) c else Some s)"

partial_function (option) strchr :: "mem \<Rightarrow> u32 \<Rightarrow> u8 \<Rightarrow> u32 option" where
  "strchr m s c =
     (if m s = 0 then Some 0 else if m s = c then Some s else strchr m (s + 1) c)"

fun memcmp :: "mem \<Rightarrow> u32 \<Rightarrow> u32 \<Rightarrow> nat \<Rightarrow> int" where
  "memcmp m s1 s2 0 = 0"
| "memcmp m s1 s2 (Suc n) =
     (if m s1 \<noteq> m s2 then uint (m s1) - uint (m s2) else memcmp m (s1 + 1) (s2 + 1) n)"

text \<open>The loop of \<open>memfind\<close> runs while \<open>s < ends\<close>, so at most \<open>ends - s\<close> times.\<close>

fun memfind_loop :: "mem \<Rightarrow> u32 \<Rightarrow> u8 \<Rightarrow> nat \<Rightarrow> u32" where
  "memfind_loop m s c 0 = s"
| "memfind_loop m s c (Suc n) = (if m s = c then s else memfind_loop m (s + 1) c n)"

definition memfind :: "mem \<Rightarrow> u32 \<Rightarrow> u8 \<Rightarrow> u32 \<Rightarrow> u32" where
  "memfind m s c n = (let ends = s + n in memfind_loop m s c (if s < ends then unat (ends - s) else 0))"

section \<open>Block operations\<close>

text \<open>\<open>stos\<close> and \<open>movs\<close> with an operand of \<open>k\<close> bytes; a word is stored with its low byte first.\<close>

definition stos :: "nat \<Rightarrow> u32 \<Rightarrow> u32 \<Rightarrow> mem \<Rightarrow> mem" where
  "stos k c d m = (\<lambda>a. if a - d < of_nat k then ucast (drop_bit (8 * unat (a - d)) c) else m a)"

fun rep_stos :: "nat \<Rightarrow> u32 \<Rightarrow> u32 \<Rightarrow> nat \<Rightarrow> mem \<Rightarrow> mem" where
  "rep_stos k c d 0 m = m"
| "rep_stos k c d (Suc n) m = rep_stos k c (d + of_nat k) n (stos k c d m)"

definition memset :: "mem \<Rightarrow> u32 \<Rightarrow> u32 \<Rightarrow> u32 \<Rightarrow> mem" where
  "memset m v c n =
     (if n = 0 then m
      else if v mod 4 = 0 \<and> n mod 4 = 0 then
        let c = c AND 0xFF;
            c = push_bit 24 c OR push_bit 16 c OR push_bit 8 c OR c in
        rep_stos 4 c v (unat (n div 4)) m
      else rep_stos 1 c v (unat n) m)"

definition movs :: "nat \<Rightarrow> u32 \<Rightarrow> u32 \<Rightarrow> mem \<Rightarrow> mem" where
  "movs k d s m = (\<lambda>a. if a - d < of_nat k then m (s + (a - d)) else m a)"

text \<open>With the direction flag clear (\<open>cld\<close>) the pointers go up, with it set (\<open>std\<close>) down.\<close>

fun rep_movs_up :: "nat \<Rightarrow> u32 \<Rightarrow> u32 \<Rightarrow> nat \<Rightarrow> mem \<Rightarrow> mem" where
  "rep_movs_up k d s 0 m = m"
| "rep_movs_up k d s (Suc n) m = rep_movs_up k (d + of_nat k) (s + of_nat k) n (movs k d s m)"

fun rep_movs_down :: "nat \<Rightarrow> u32 \<Rightarrow> u32 \<Rightarrow> nat \<Rightarrow> mem \<Rightarrow> mem" where
  "rep_movs_down k d s 0 m = m"
| "rep_movs_down k d s (Suc n) m = rep_movs_down k (d - of_nat k) (s - of_nat k) n (movs k d s m)"

definition memmove :: "mem \<Rightarrow> u32 \<Rightarrow> u32 \<Rightarrow> u32 \<Rightarrow> mem" where
  "memmove m dst src n =
     (if src < dst \<and> src + n > dst then
        let s = src + n; d = dst + n in
        if s mod 4 = 0 \<and> d mod 4 = 0 \<and> n mod 4 = 0
        then rep_movs_down 4 (d - 4) (s - 4) (unat (n div 4)) m
        else rep_movs_down 1 (d - 1) (s - 1) (unat n) m
      else if src mod 4 = 0 \<and> dst mod 4 = 0 \<and> n mod 4 = 0
        then rep_movs_up 4 dst src (unat (n div 4)) m
        else rep_movs_up 1 dst src (unat n) m)"

text \<open>The variants for \<open>ASM\<close> set to 0. In \<open>memset\<close> the counter is an \<open>int\<close>.\<close>

fun memset_loop :: "mem \<Rightarrow> u32 \<Rightarrow> u8 \<Rightarrow> nat \<Rightarrow> mem" where
  "memset_loop m p c 0 = m"
| "memset_loop m p c (Suc k) = memset_loop (m(p := c)) (p + 1) c k"

definition memset_c :: "mem \<Rightarrow> u32 \<Rightarrow> u32 \<Rightarrow> u32 \<Rightarrow> mem" where
  "memset_c m v c n = memset_loop m v (ucast c) (nat (sint n))"

fun move_down :: "mem \<Rightarrow> u32 \<Rightarrow> u32 \<Rightarrow> nat \<Rightarrow> mem" where
  "move_down m d s 0 = m"
| "move_down m d s (Suc n) = (let d = d - 1; s = s - 1 in move_down (m(d := m s)) d s n)"

fun move_up :: "mem \<Rightarrow> u32 \<Rightarrow> u32 \<Rightarrow> nat \<Rightarrow> mem" where
  "move_up m d s 0 = m"
| "move_up m d s (Suc n) = move_up (m(d := m s)) (d + 1) (s + 1) n"

definition memmove_c :: "mem \<Rightarrow> u32 \<Rightarrow> u32 \<Rightarrow> u32 \<Rightarrow> mem" where
  "memmove_c m dst src n =
     (if src < dst \<and> src + n > dst then move_down m (dst + n) (src + n) (unat n)
      else move_up m dst src (unat n))"

definition memcpy :: "mem \<Rightarrow> u32 \<Rightarrow> u32 \<Rightarrow> u32 \<Rightarrow> mem" where
  "memcpy m dst src n = memmove m dst src n"

section \<open>Numbers\<close>

partial_function (option) skip_blanks :: "mem \<Rightarrow> u32 \<Rightarrow> u32 option" where
  "skip_blanks m s = (if m s = 0x20 \<or> m s = 9 then skip_blanks m (s + 1) else Some s)"

definition digit_of :: "u8 \<Rightarrow> int option" where
  "digit_of c =
     (if 0x30 \<le> c \<and> c \<le> 0x39 then Some (uint c - 0x30)
      else if 0x61 \<le> c \<and> c \<le> 0x7A then Some (uint c - 0x61 + 10)
      else if 0x41 \<le> c \<and> c \<le> 0x5A then Some (uint c - 0x41 + 10)
      else None)"

text \<open>\<open>val\<close> is a 32-bit \<open>long\<close> that wraps around.\<close>

partial_function (option) strtol_digits :: "mem \<Rightarrow> u32 \<Rightarrow> int \<Rightarrow> u32 \<Rightarrow> (u32 \<times> u32) option" where
  "strtol_digits m s base val =
     (case digit_of (m s) of
        None \<Rightarrow> Some (val, s)
      | Some dig \<Rightarrow>
          if dig \<ge> base then Some (val, s)
          else strtol_digits m (s + 1) base (val * of_int base + of_int dig))"

definition strtol :: "mem \<Rightarrow> u32 \<Rightarrow> int \<Rightarrow> (u32 \<times> u32) option" where
  "strtol m s base =
     Option.bind (skip_blanks m s) (\<lambda>s.
       let (s, neg) = (if m s = 0x2B then (s + 1, False) else if m s = 0x2D then (s + 1, True) else (s, False));
           (s, base) =
             (if (base = 0 \<or> base = 16) \<and> m s = 0x30 \<and> m (s + 1) = 0x78 then (s + 2, 16)
              else if base = 0 \<and> m s = 0x30 then (s + 1, 8)
              else if base = 0 then (s, 10)
              else (s, base)) in
       Option.bind (strtol_digits m s base 0) (\<lambda>(val, s). Some (if neg then - val else val, s)))"

end
