(* ===== verification/Printfmt.thy ===== *)
theory Printfmt
  imports Libstring Errors
begin

text \<open>
  Formatted output, \<^verbatim>\<open>lib/printfmt.c\<close>: the characters that \<open>vprintfmt\<close> passes to \<open>putch\<close>, and
  \<open>vsnprintf\<close>. Arguments are a list of values in place of the variable argument list; taking
  an argument of the wrong kind or one too many is undefined in C and \<open>None\<close> here.
\<close>

type_synonym outch = u32

datatype va_arg = AInt u32 | ALong "64 word" | AStr "u8 list option"

definition error_string :: "string option list" where
  "error_string =
     [None, Some ''unspecified error'', Some ''bad environment'', Some ''invalid parameter'',
      Some ''out of memory'', Some ''out of environments'', Some ''segmentation fault'',
      Some ''env is not recving'', Some ''unexpected end of file'', Some ''no free space on disk'',
      Some ''too many files are open'', Some ''file or block not found'', Some ''invalid path'',
      Some ''file already exists'', Some ''file is not a valid executable'',
      Some ''operation not supported'', None, None]"

text \<open>The code of a character, and a string literal as output.\<close>

definition code :: "char \<Rightarrow> u32" where "code c = of_nat (of_char c)"

definition lit :: "string \<Rightarrow> outch list" where "lit cs = map code cs"

section \<open>Numbers\<close>

definition digit_char :: "nat \<Rightarrow> outch" where
  "digit_char d = code (''0123456789abcdef'' ! d)"

text \<open>
  \<open>base\<close> is 8, 10 or 16 in every call, so it is at least 2 and the recursion ends.
\<close>

function printnum :: "nat \<Rightarrow> nat \<Rightarrow> int \<Rightarrow> outch \<Rightarrow> outch list" where
  "printnum num base width padc =
     (if num \<ge> base \<and> base \<ge> 2 then printnum (num div base) base (width - 1) padc
      else replicate (nat (width - 1)) padc)
     @ [digit_char (num mod base)]"
  by pat_completeness auto
termination
  by (relation "measure (\<lambda>(num, _, _, _). num)") auto

declare printnum.simps [simp del]

definition getuint :: "va_arg list \<Rightarrow> nat \<Rightarrow> (nat \<times> va_arg list) option" where
  "getuint ap lflag =
     (case ap of
        ALong x # ap \<Rightarrow> if lflag \<ge> 2 then Some (unat x, ap) else None
      | AInt x # ap \<Rightarrow> if lflag < 2 then Some (unat x, ap) else None
      | _ \<Rightarrow> None)"

definition getint :: "va_arg list \<Rightarrow> nat \<Rightarrow> (int \<times> va_arg list) option" where
  "getint ap lflag =
     (case ap of
        ALong x # ap \<Rightarrow> if lflag \<ge> 2 then Some (sint x, ap) else None
      | AInt x # ap \<Rightarrow> if lflag < 2 then Some (sint x, ap) else None
      | _ \<Rightarrow> None)"

definition print_signed :: "int \<Rightarrow> int \<Rightarrow> outch \<Rightarrow> outch list" where
  "print_signed num width padc =
     (if num < 0 then code (CHR ''-'') # printnum (nat (- num)) 10 width padc
      else printnum (nat num) 10 width padc)"

section \<open>Strings\<close>

definition put_chars :: "bool \<Rightarrow> u8 list \<Rightarrow> outch list" where
  "put_chars altflag cs =
     map (\<lambda>ch. if altflag \<and> (sint ch < 0x20 \<or> sint ch > 0x7E) then code (CHR ''?'') else scast ch) cs"

definition print_str :: "u8 list option \<Rightarrow> int \<Rightarrow> int \<Rightarrow> outch \<Rightarrow> bool \<Rightarrow> outch list" where
  "print_str p width precision padc altflag =
     (let p = (case p of None \<Rightarrow> map (\<lambda>c. of_nat (of_char c)) ''(null)'' | Some p \<Rightarrow> p);
          p = takeWhile (\<lambda>c. c \<noteq> 0) p;
          shown = (if precision < 0 then p else take (nat precision) p);
          pad = (if width > 0 \<and> padc \<noteq> code (CHR ''-'') then width - int (length shown) else 0);
          rest = (if width > 0 \<and> padc \<noteq> code (CHR ''-'')
                  then min 0 pad - int (length shown) else width - int (length shown)) in
      replicate (nat pad) padc @ put_chars altflag shown @ replicate (nat rest) (code (CHR '' '')))"

definition print_err :: "u32 \<Rightarrow> outch list option" where
  "print_err e =
     (let err = (if sint e < 0 then - sint e else sint e) in
      if err \<ge> 2 ^ 31 then None
      else if err \<ge> MAXERROR then Some (lit ''error '' @ print_signed err (- 1) (code (CHR '' '')))
      else case error_string ! nat err of
             None \<Rightarrow> Some (lit ''error '' @ print_signed err (- 1) (code (CHR '' '')))
           | Some str \<Rightarrow> Some (lit str))"

section \<open>The format interpreter\<close>

fun number_prefix :: "u8 list \<Rightarrow> int \<Rightarrow> int \<times> u8 list" where
  "number_prefix (ch # fmt) n =
     (if 0x30 \<le> ch \<and> ch \<le> 0x39 then number_prefix fmt (n * 10 + (uint ch - 0x30)) else (n, ch # fmt))"
| "number_prefix [] n = (n, [])"

lemma number_prefix_length [termination_simp]: "length (snd (number_prefix fmt n)) \<le> length fmt"
  by (induction fmt n rule: number_prefix.induct) (auto intro: le_SucI)

text \<open>
  \<open>fmt_main\<close> copies characters up to the next \<open>%\<close>; \<open>fmt_esc start fmt\<close> is the switch, with
  \<open>start\<close> the text after the \<open>%\<close>, where an unknown sequence starts over. The end of the list is
  the terminating zero.
\<close>

function (sequential)
  fmt_main :: "u8 list \<Rightarrow> va_arg list \<Rightarrow> outch list option" and
  fmt_esc :: "u8 list \<Rightarrow> u8 list \<Rightarrow> outch \<Rightarrow> int \<Rightarrow> int \<Rightarrow> nat \<Rightarrow> bool \<Rightarrow> va_arg list \<Rightarrow> outch list option"
where
  "fmt_main [] ap = Some []"
| "fmt_main (ch # fmt) ap =
     (if ch \<noteq> 0x25 then map_option (\<lambda>out. ucast ch # out) (fmt_main fmt ap)
      else fmt_esc fmt fmt (code (CHR '' '')) (- 1) (- 1) 0 False ap)"
| "fmt_esc start [] padc width precision lflag altflag ap =
     map_option (\<lambda>out. code (CHR ''%'') # out) (fmt_main start ap)"
| "fmt_esc start (ch # fmt) padc width precision lflag altflag ap =
     (let number = (\<lambda>num base out ap.
            map_option (\<lambda>rest. out @ printnum num base width padc @ rest) (fmt_main fmt ap)) in
      if ch = 0x2D then fmt_esc start fmt (code (CHR ''-'')) width precision lflag altflag ap
      else if ch = 0x30 then fmt_esc start fmt (code (CHR ''0'')) width precision lflag altflag ap
      else if 0x31 \<le> ch \<and> ch \<le> 0x39 then
        let p = fst (number_prefix fmt (uint ch - 0x30)) in
        if width < 0 then fmt_esc start (snd (number_prefix fmt (uint ch - 0x30))) padc p (- 1) lflag altflag ap
        else fmt_esc start (snd (number_prefix fmt (uint ch - 0x30))) padc width p lflag altflag ap
      else if ch = 0x2A then
        (case ap of
           AInt x # ap \<Rightarrow>
             if width < 0 then fmt_esc start fmt padc (sint x) (- 1) lflag altflag ap
             else fmt_esc start fmt padc width (sint x) lflag altflag ap
         | _ \<Rightarrow> None)
      else if ch = 0x2E then
        fmt_esc start fmt padc (if width < 0 then 0 else width) precision lflag altflag ap
      else if ch = 0x23 then fmt_esc start fmt padc width precision lflag True ap
      else if ch = 0x6C then fmt_esc start fmt padc width precision (lflag + 1) altflag ap
      else if ch = 0x63 then
        (case ap of
           AInt x # ap \<Rightarrow> map_option (\<lambda>out. x # out) (fmt_main fmt ap)
         | _ \<Rightarrow> None)
      else if ch = 0x65 then
        (case ap of
           AInt e # ap \<Rightarrow>
             (case print_err e of
                None \<Rightarrow> None
              | Some o1 \<Rightarrow> map_option (\<lambda>out. o1 @ out) (fmt_main fmt ap))
         | _ \<Rightarrow> None)
      else if ch = 0x73 then
        (case ap of
           AStr p # ap \<Rightarrow>
             map_option (\<lambda>out. print_str p width precision padc altflag @ out) (fmt_main fmt ap)
         | _ \<Rightarrow> None)
      else if ch = 0x64 then
        (case getint ap lflag of
           None \<Rightarrow> None
         | Some (num, ap) \<Rightarrow>
             map_option (\<lambda>out. print_signed num width padc @ out) (fmt_main fmt ap))
      else if ch = 0x75 then
        (case getuint ap lflag of None \<Rightarrow> None | Some (num, ap) \<Rightarrow> number num 10 [] ap)
      else if ch = 0x6F then
        (case getuint ap lflag of None \<Rightarrow> None | Some (num, ap) \<Rightarrow> number num 8 [] ap)
      else if ch = 0x70 then
        (case getuint ap 0 of None \<Rightarrow> None | Some (num, ap) \<Rightarrow> number num 16 (lit ''0x'') ap)
      else if ch = 0x78 then
        (case getuint ap lflag of None \<Rightarrow> None | Some (num, ap) \<Rightarrow> number num 16 [] ap)
      else if ch = 0x25 then map_option (\<lambda>out. code (CHR ''%'') # out) (fmt_main fmt ap)
      else map_option (\<lambda>out. code (CHR ''%'') # out) (fmt_main start ap))"
  by pat_completeness auto
termination
  by (relation "inv_image (less_than <*lex*> less_than)
        (case_sum (\<lambda>(fmt, ap). (length fmt, 0))
                  (\<lambda>(start, fmt, _). (max (length start) (length fmt), Suc (length fmt))))")
     (auto simp: number_prefix_length less_Suc_eq_le max_def le_SucI,
      (meson number_prefix_length le_SucI le_trans)+)

declare fmt_main.simps [simp del] fmt_esc.simps [simp del]

definition vprintfmt :: "u8 list \<Rightarrow> va_arg list \<Rightarrow> outch list option" where
  "vprintfmt fmt ap = fmt_main (takeWhile (\<lambda>c. c \<noteq> 0) fmt) ap"

section \<open>Printing into a buffer\<close>

record sprintbuf =
  sp_buf :: u32
  sp_ebuf :: u32
  sp_cnt :: u32

definition sprintputch :: "outch \<Rightarrow> sprintbuf \<times> mem \<Rightarrow> sprintbuf \<times> mem" where
  "sprintputch ch b =
     (let (b, m) = b; b = b\<lparr>sp_cnt := sp_cnt b + 1\<rparr> in
      if sp_buf b < sp_ebuf b then (b\<lparr>sp_buf := sp_buf b + 1\<rparr>, m(sp_buf b := ucast ch)) else (b, m))"

text \<open>The result is the return value and the memory.\<close>

definition vsnprintf :: "u32 \<Rightarrow> int \<Rightarrow> u8 list \<Rightarrow> va_arg list \<Rightarrow> mem \<Rightarrow> (int \<times> mem) option" where
  "vsnprintf buf n fmt ap m =
     (if buf = 0 \<or> n < 1 then Some (- E_INVAL, m)
      else
        map_option (\<lambda>out.
          let (b, m) = fold sprintputch out (\<lparr>sp_buf = buf, sp_ebuf = buf + of_int n - 1, sp_cnt = 0\<rparr>, m) in
          (sint (sp_cnt b), m(sp_buf b := 0))) (vprintfmt fmt ap))"

end
