(* ===== verification/Lib_Spec.thy ===== *)
theory Lib_Spec
  imports Printfmt
begin

text \<open>
  Properties of the shared library: the optimised block operations of \<^verbatim>\<open>lib/string.c\<close> are equal to
  their byte-wise definitions, also when source and destination overlap, and \<open>strtol\<close> reads back
  what \<open>printnum\<close> of \<^verbatim>\<open>lib/printfmt.c\<close> writes.
\<close>

section \<open>Offsets in a circular address space\<close>

text \<open>A window of \<open>n\<close> pieces of \<open>k\<close> bytes is its first piece and a window behind it.\<close>

lemma window_up:
  fixes x :: u32
  assumes "k < 4294967296" "Suc n * k \<le> 4294967296"
  shows "unat (x - of_nat k) < n * k \<longleftrightarrow> k \<le> unat x \<and> unat x < Suc n * k"
  using assms u32_less [of x] by (auto simp: unat_sub_cases unat_of_small)

section \<open>memset\<close>

lemma rep_stos_eq:
  assumes "k < 4294967296" "n * k \<le> 4294967296" "\<And>i. i < k \<Longrightarrow> ucast (drop_bit (8 * i) w) = b"
  shows "rep_stos k w d n m = (\<lambda>a. if unat (a - d) < n * k then b else m a)"
  using assms(1,2)
proof (induction n arbitrary: d m)
  case (Suc n)
  then have IH: "rep_stos k w e n m' = (\<lambda>a. if unat (a - e) < n * k then b else m' a)" for e m' by simp
  show ?case
    using window_up [OF Suc.prems] less_of_small [OF Suc.prems(1)] assms(3)
    by (simp add: IH stos_def fun_eq_iff diff_diff_eq [symmetric] del: mult_Suc) auto
qed simp

text \<open>Each byte of the word that \<open>memset\<close> builds is the low byte of the value.\<close>

lemma replicated_byte:
  fixes c :: u32
  assumes "i < 4"
  shows "(ucast (drop_bit (8 * i) (push_bit 24 (c AND 0xFF) OR push_bit 16 (c AND 0xFF) OR push_bit 8 (c AND 0xFF) OR c AND 0xFF)) :: u8)
    = ucast c"
proof -
  have m: "c AND 0xFF = take_bit 8 c" by (simp add: take_bit_eq_mask mask_eq_exp_minus_1)
  have "i \<in> {0, 1, 2, 3}" using assms by auto
  then show ?thesis unfolding m by (auto intro!: bit_eqI simp: bit_simps)
qed

lemma unat_div_mult: "(n :: u32) mod 4 = 0 \<Longrightarrow> unat (n div 4) * 4 = unat n"
proof -
  assume "n mod 4 = 0"
  then have "unat (n mod 4) = 0" by simp
  then have "unat n mod 4 = 0" by (simp add: unat_mod)
  then show ?thesis by (auto simp: unat_div mod_eq_0_iff_dvd)
qed

lemma memset_bytes: "rep_stos 1 c v (unat n) m = (\<lambda>a. if a - v < n then ucast c else m a)"
  using u32_less [of n] rep_stos_eq [of 1 "unat n" c "ucast c" v m] by (simp add: word_less_nat_alt)

lemma memset_spec: "memset m v c n = (\<lambda>a. if a - v < n then ucast c else m a)"
proof -
  have "rep_stos 4 (push_bit 24 (c AND 0xFF) OR push_bit 16 (c AND 0xFF) OR push_bit 8 (c AND 0xFF) OR c AND 0xFF)
      v (unat (n div 4)) m = (\<lambda>a. if a - v < n then ucast c else m a)" if "n mod 4 = 0"
    using that u32_less [of n] rep_stos_eq [OF _ _ replicated_byte]
    by (simp add: unat_div_mult word_less_nat_alt)
  then show ?thesis using memset_bytes by (auto simp: memset_def Let_def)
qed

text \<open>
  \<open>memset\<close> fills the block. Both variants, four bytes at a time and byte by byte, store the low byte
  of the value in exactly the \<open>n\<close> bytes from \<open>v\<close> on, wherever the block lies.
\<close>

theorem memset_eq: "memset m v c n = (\<lambda>a. if a - v < n then ucast c else m a)"
  by (rule memset_spec)

section \<open>memmove\<close>

text \<open>
  Going up, no byte is overwritten before it is read when the source is at most \<open>2^32 - n * k\<close>
  behind the destination; going down, when the destination is at most that far behind the source.
\<close>

lemma rep_movs_up_eq:
  assumes "0 < k" "k < 4294967296" "unat (s - d) + n * k \<le> 4294967296"
  shows "rep_movs_up k d s n m = (\<lambda>a. if unat (a - d) < n * k then m (s + (a - d)) else m a)"
  using assms
proof (induction n arbitrary: d s m)
  case (Suc n)
  have lim: "Suc n * k \<le> 4294967296" using Suc.prems by simp
  have e: "s + of_nat k + (a - (d + of_nat k)) = s + (a - d)" for a by (simp add: algebra_simps)
  have IH: "rep_movs_up k (d + of_nat k) (s + of_nat k) n m' =
    (\<lambda>a. if unat (a - d - of_nat k) < n * k then m' (s + (a - d)) else m' a)" for m'
    using Suc by (simp add: diff_diff_eq e cong: if_cong)
  have src: "movs k d s m (s + x) = m (s + x)" if "k \<le> unat x" "unat x < Suc n * k" for x
  proof -
    have sx: "s + x - d = (s - d) + x" by (simp add: algebra_simps)
    have "unat (s + x - d) = unat (s - d) + unat x"
      unfolding sx using that(2) Suc.prems(3) by (intro unat_add_no_wrap) simp
    then show ?thesis using that Suc.prems(2) by (simp add: movs_def less_of_small)
  qed
  show ?case
  proof
    fix a
    have w: "unat (a - d - of_nat k) < n * k \<longleftrightarrow> k \<le> unat (a - d) \<and> unat (a - d) < Suc n * k"
      by (rule window_up [OF Suc.prems(2) lim])
    show "rep_movs_up k d s (Suc n) m a = (if unat (a - d) < Suc n * k then m (s + (a - d)) else m a)"
    proof (cases "unat (a - d) < k")
      case True
      then show ?thesis using w Suc.prems(2) by (simp add: IH movs_def less_of_small)
    next
      case False
      then show ?thesis using w src [of "a - d"] Suc.prems(2) by (simp add: IH) (simp add: movs_def less_of_small)
    qed
  qed
qed simp

lemma window_down:
  fixes x :: u32
  assumes "p + k \<le> 4294967296" "0 < k"
  shows "unat (x - of_nat p) < k \<longleftrightarrow> p \<le> unat x \<and> unat x < p + k"
  using assms u32_less [of x] by (auto simp: unat_sub_cases unat_of_small)

text \<open>\<open>lo\<close> is the lowest destination address; the pointers are those of the last piece.\<close>

lemma rep_movs_down_eq:
  assumes "0 < k" "k < 4294967296" "unat (d - s) + n * k \<le> 4294967296" "lo = d + of_nat k - of_nat (n * k)"
  shows "rep_movs_down k d s n m = (\<lambda>a. if unat (a - lo) < n * k then m (s + (a - d)) else m a)"
  using assms
proof (induction n arbitrary: d s m)
  case (Suc n)
  have lim: "Suc n * k \<le> 4294967296" using Suc.prems by simp
  have lo: "lo = d - of_nat (n * k)" using Suc.prems(4) by (simp add: algebra_simps)
  have e: "s - of_nat k + (a - (d - of_nat k)) = s + (a - d)" for a by (simp add: algebra_simps)
  have IH: "rep_movs_down k (d - of_nat k) (s - of_nat k) n m' =
    (\<lambda>a. if unat (a - lo) < n * k then m' (s + (a - d)) else m' a)" for m'
    using Suc.IH [of "d - of_nat k" "s - of_nat k"] Suc.prems lo by (simp add: e cong: if_cong)
  have dk: "a - d = a - lo - of_nat (n * k)" for a by (simp add: lo)
  have src: "movs k d s m (s + (a - d)) = m (s + (a - d))" if x: "unat (a - lo) < n * k" for a
  proof -
    have nk: "n * k < 4294967296" using lim Suc.prems(1) by simp
    then have "unat (a - d) = unat (a - lo) + 4294967296 - n * k"
      using x by (simp add: dk unat_sub_cases unat_of_small del: of_nat_mult)
    then have "k \<le> unat ((a - d) - (d - s))"
      using x Suc.prems(3) unfolding unat_sub_cases [of "a - d" "d - s"] by auto
    moreover have "s + (a - d) - d = (a - d) - (d - s)" by (simp add: algebra_simps)
    ultimately have "k \<le> unat (s + (a - d) - d)" by metis
    then show ?thesis using Suc.prems(2) by (simp add: movs_def less_of_small)
  qed
  show ?case
  proof
    fix a
    have w: "unat (a - d) < k \<longleftrightarrow> n * k \<le> unat (a - lo) \<and> unat (a - lo) < Suc n * k"
      using window_down [of "n * k" k "a - lo"] lim Suc.prems(1) by (simp add: dk add.commute del: of_nat_mult)
    show "rep_movs_down k d s (Suc n) m a = (if unat (a - lo) < Suc n * k then m (s + (a - d)) else m a)"
    proof (cases "unat (a - lo) < n * k")
      case True
      then show ?thesis using src by (simp add: IH)
    next
      case False
      then show ?thesis using w Suc.prems(2) by (simp add: IH movs_def less_of_small)
    qed
  qed
qed simp

text \<open>The direction that \<open>memmove\<close> chooses is safe, in pieces of any size.\<close>

lemma move_down_spec:
  assumes "unat src + unat n < 2 ^ 32" "unat dst + unat n \<le> 2 ^ 32"
    and "j * k = unat n" "0 < k" "k < 4294967296" "src < dst"
  shows "rep_movs_down k (dst + n - of_nat k) (src + n - of_nat k) j m =
    (\<lambda>a. if a - dst < n then m (src + (a - dst)) else m a)"
proof -
  have ds: "unat (dst - src) + unat n \<le> 4294967296"
    using assms by (simp add: unat_sub_cases word_less_nat_alt)
  have lo: "dst = dst + n - of_nat k + of_nat k - of_nat (j * k)" using assms(3) by simp
  have e: "src + n - of_nat k + (a - (dst + n - of_nat k)) = src + (a - dst)" for a
    by (simp add: algebra_simps)
  show ?thesis
    using rep_movs_down_eq [OF assms(4,5) _ lo, of "src + n - of_nat k" m] assms(3) ds
    by (simp add: word_less_nat_alt e cong: if_cong)
qed

lemma move_up_spec:
  assumes "unat src + unat n < 2 ^ 32" "unat dst + unat n \<le> 2 ^ 32"
    and "j * k = unat n" "0 < k" "k < 4294967296" "\<not> (src < dst \<and> src + n > dst)"
  shows "rep_movs_up k dst src j m = (\<lambda>a. if a - dst < n then m (src + (a - dst)) else m a)"
proof -
  have "unat (src - dst) + unat n \<le> 4294967296"
  proof (cases "src < dst")
    case True
    then have "src + n \<le> dst" using assms(6) by simp
    then have "unat src + unat n \<le> unat dst"
      using assms(1) by (simp add: word_le_nat_alt unat_plus_if')
    then show ?thesis using True u32_less [of dst] by (simp add: unat_sub_cases word_less_nat_alt)
  next
    case False
    then show ?thesis using assms by (simp add: unat_sub_cases word_less_nat_alt)
  qed
  then show ?thesis using rep_movs_up_eq [of k src dst j m] assms(3-5) by (simp add: word_less_nat_alt)
qed

lemma memmove_spec:
  assumes "unat src + unat n < 2 ^ 32" "unat dst + unat n \<le> 2 ^ 32"
  shows "memmove m dst src n = (\<lambda>a. if a - dst < n then m (src + (a - dst)) else m a)"
proof (cases "src < dst \<and> src + n > dst")
  case True
  note down = move_down_spec [OF assms _ _ _ conjunct1 [OF True]]
  show ?thesis using down [of "unat (n div 4)" 4] down [of "unat n" 1] True
    by (simp add: memmove_def Let_def unat_div_mult)
next
  case False
  note up = move_up_spec [OF assms _ _ _ False]
  show ?thesis using up [of "unat (n div 4)" 4] up [of "unat n" 1]
    unfolding memmove_def if_not_P [OF False] by (simp add: unat_div_mult)
qed

text \<open>
  \<open>memmove\<close> copies correctly, also between overlapping blocks (C34). When neither block wraps around the
  address space (the source also not to end at its very top, where \<open>s + n\<close> is 0), every byte of the destination block gets the value that the corresponding byte
  of the source block had before the call, in all four variants of the code, and no other byte
  changes.
\<close>

theorem memmove_eq:
  assumes "unat src + unat n < 2 ^ 32" and "unat dst + unat n \<le> 2 ^ 32"
  shows "memmove m dst src n = (\<lambda>a. if a - dst < n then m (src + (a - dst)) else m a)"
  using assms by (rule memmove_spec)

theorem memmove_eq_witness:
  "memmove (\<lambda>a. ucast a) 0x1001 0x1000 4 0x1003 = 2 \<and> memmove (\<lambda>a. ucast a) 0x1001 0x1000 4 0x1005 = 5"
  by (subst memmove_eq; simp)+

section \<open>The portable variants\<close>

lemma one_byte: "(a - d :: u32) < 1 \<longleftrightarrow> a = d"
  by (simp add: word_less_nat_alt unat_eq_zero)

lemma stos_1: "stos 1 c d m = m(d := ucast c)"
  by (auto simp: stos_def one_byte fun_eq_iff)

lemma movs_1: "movs 1 d s m = m(d := m s)"
  by (auto simp: movs_def one_byte fun_eq_iff)

lemma memset_loop_stos: "memset_loop m p (ucast c) k = rep_stos 1 c p k m"
  by (induction k arbitrary: m p) (simp_all add: stos_1 del: One_nat_def)

lemma move_up_movs: "move_up m d s n = rep_movs_up 1 d s n m"
  by (induction n arbitrary: m d s) (simp_all add: movs_1 del: One_nat_def)

lemma move_down_movs: "move_down m d s n = rep_movs_down 1 (d - 1) (s - 1) n m"
  by (induction n arbitrary: m d s) (simp_all add: movs_1 Let_def del: One_nat_def)

text \<open>
  The assembly variants agree with the portable ones (C35). For fewer than \<open>2^31\<close> bytes \<open>memset\<close> has the effect of
  the loop over the bytes, and for blocks that do not wrap around the address space \<open>memmove\<close> has
  the effect of the two loops over the bytes.
\<close>

theorem asm_variants:
  assumes "unat n < 2 ^ 31" and "unat src + unat n < 2 ^ 32" and "unat dst + unat n \<le> 2 ^ 32"
  shows "memset m v c n = memset_c m v c n \<and> memmove m dst src n = memmove_c m dst src n"
proof
  have "nat (sint n) = unat n" using assms(1) by (simp add: sint_eq_unat)
  then show "memset m v c n = memset_c m v c n"
    by (simp add: memset_c_def memset_loop_stos memset_spec memset_bytes del: One_nat_def)
  have "memmove_c m dst src n = (\<lambda>a. if a - dst < n then m (src + (a - dst)) else m a)"
    using move_down_spec [OF assms(2,3), of "unat n" 1] move_up_spec [OF assms(2,3), of "unat n" 1]
    by (simp add: memmove_c_def move_up_movs move_down_movs)
  then show "memmove m dst src n = memmove_c m dst src n"
    by (simp add: memmove_spec [OF assms(2,3)])
qed

theorem asm_variants_witness:
  "memmove_c (\<lambda>a. ucast a) 0x1001 0x1000 4 = memmove (\<lambda>a. ucast a) 0x1001 0x1000 4 \<and>
   memset_c (\<lambda>a. 0) 0x1000 0x141 8 = memset (\<lambda>a. 0) 0x1000 0x141 8"
  using asm_variants [of 4 "0x1000" "0x1001" "\<lambda>a. ucast a"] asm_variants [of 8 0 0 "\<lambda>a. 0" "0x1000" "0x141"] by simp

section \<open>Numbers\<close>

text \<open>The digits that \<open>printnum\<close> writes, with zeros as padding.\<close>

lemma printnum_digits:
  assumes "2 \<le> base"
  shows "\<exists>ds. printnum num base width (digit_char 0) = map digit_char ds \<and> ds \<noteq> [] \<and>
           (\<forall>d \<in> set ds. d < base) \<and> foldl (\<lambda>v d. v * base + d) 0 ds = num"
  using assms
proof (induction num arbitrary: width rule: less_induct)
  case (less num)
  show ?case
  proof (cases "base \<le> num")
    case True
    then obtain ds where ds: "printnum (num div base) base (width - 1) (digit_char 0) = map digit_char ds"
      "\<forall>d \<in> set ds. d < base" "foldl (\<lambda>v d. v * base + d) 0 ds = num div base"
      using less.IH [of "num div base" "width - 1"] less.prems by auto
    have "printnum num base width (digit_char 0) = map digit_char (ds @ [num mod base])"
      using True less.prems ds(1) by (subst printnum.simps) simp
    then show ?thesis using ds less.prems by (intro exI [of _ "ds @ [num mod base]"]) auto
  next
    case False
    let ?k = "nat (width - 1)"
    have z: "foldl (\<lambda>v d. v * base + d) 0 (replicate k 0) = 0" for k by (induction k) auto
    have "printnum num base width (digit_char 0) = map digit_char (replicate ?k 0 @ [num mod base])"
      using False by (subst printnum.simps) simp
    then show ?thesis
      using False less.prems z by (intro exI [of _ "replicate ?k 0 @ [num mod base]"]) auto
  qed
qed

lemma digit_of_digit_char:
  assumes "d < 16"
  shows "digit_of (ucast (digit_char d)) = Some (int d)"
proof -
  have "\<forall>d \<in> set [0..<16]. digit_of (ucast (digit_char d)) = Some (int d)" by code_simp
  then show ?thesis using assms by simp
qed

lemma strtol_digits_loop:
  assumes "cstr m s (map (\<lambda>d. ucast (digit_char d)) ds)" "\<forall>d \<in> set ds. d < base" "base \<le> 16"
  shows "strtol_digits m s (int base) (of_nat v) =
    Some (of_nat (foldl (\<lambda>v d. v * base + d) v ds), s + of_nat (length ds))"
  using assms
proof (induction ds arbitrary: s v)
  case Nil
  then show ?case by (subst strtol_digits.simps) (simp add: digit_of_def)
next
  case (Cons d ds)
  then have "digit_of (m s) = Some (int d)" by (simp add: digit_of_digit_char)
  moreover have "s + 1 + of_nat (length ds) = s + of_nat (length (d # ds))" by simp
  ultimately show ?case using Cons.prems Cons.IH [of "s + 1" "v * base + d"]
    by (subst strtol_digits.simps) simp
qed

lemma digit_char_plain:
  assumes "d < 16"
  shows "(ucast (digit_char d) :: u8) \<notin> {0x20, 9, 0x2B, 0x2D, 0x78}"
proof -
  have "\<forall>d \<in> set [0..<16]. (ucast (digit_char d) :: u8) \<notin> {0x20, 9, 0x2B, 0x2D, 0x78}" by code_simp
  then show ?thesis using assms by simp
qed

text \<open>
  What \<open>printnum\<close> prints, \<open>strtol\<close> reads back (C36). For each base that \<open>vprintfmt\<close> uses, and
  with any width of zero padding, \<open>strtol\<close> returns the number, as a 32-bit value, and leaves
  the end pointer at the end of the text.
\<close>

theorem printnum_strtol:
  assumes base: "base = 8 \<or> base = 10 \<or> base = 16"
    and printed: "cstr m s (map ucast (printnum num base width (code (CHR ''0''))))"
  shows "strtol m s (int base) =
    Some (of_nat num, s + of_nat (length (printnum num base width (code (CHR ''0'')))))"
proof -
  have zero: "code (CHR ''0'') = digit_char 0" by (simp add: digit_char_def)
  obtain ds where ds: "printnum num base width (digit_char 0) = map digit_char ds" "ds \<noteq> []"
    "\<forall>d \<in> set ds. d < base" "foldl (\<lambda>v d. v * base + d) 0 ds = num"
    using printnum_digits [of base num width] base by auto
  have c: "cstr m s (map (\<lambda>d. ucast (digit_char d)) ds)" using printed ds(1) by (simp add: zero comp_def)
  have b16: "base \<le> 16" using base by auto
  have small: "d \<in> set ds \<Longrightarrow> d < 16" for d using ds(3) b16 by fastforce
  obtain d es where e: "ds = d # es" using ds(2) by (cases ds) auto
  have first: "m s \<notin> {0x20, 9, 0x2B, 0x2D, 0x78}"
    using c e small digit_char_plain [of d] by simp
  have second: "m (s + 1) \<noteq> 0x78"
    using c e small digit_char_plain [of "hd es"] by (cases es) auto
  have "skip_blanks m s = Some s" using first by (subst skip_blanks.simps) simp
  moreover have "strtol_digits m s (int base) 0 = Some (of_nat num, s + of_nat (length ds))"
    using strtol_digits_loop [OF c ds(3) b16, of 0] ds(4) by simp
  ultimately show ?thesis
    using first second base ds(1) by (auto simp: strtol_def zero)
qed

theorem printnum_strtol_witness:
  "strtol ((\<lambda>_. 0)(0x1000 := 0x30, 0x1001 := 0x30, 0x1002 := 0x37, 0x1003 := 0x62)) 0x1000 16 = Some (0x7b, 0x1004)"
proof -
  have p: "printnum 0x7b 16 4 (code (CHR ''0'')) = lit ''007b''"
    by code_simp
  show ?thesis
    using printnum_strtol [of 16 "(\<lambda>_. 0)(0x1000 := 0x30, 0x1001 := 0x30, 0x1002 := 0x37, 0x1003 := 0x62)" "0x1000" "0x7b" 4]
    unfolding p by (simp add: lit_def code_def)
qed

end
