(* ===== verification/Fs_Mem.thy ===== *)
theory Fs_Mem
  imports Bytes Layout
begin

text \<open>
  The memory of the file server and its block cache, \<^verbatim>\<open>fs/bc.c\<close> and \<^verbatim>\<open>fs/ide.c\<close>. Memory is an
  array of pages of 1024 words, indexed by page number; the page of disk block \<open>b\<close> is the one at
  DISKMAP + b * BLKSIZE. A page that is not mapped is loaded from the disk by the page fault
  handler \<open>bc_pgfault\<close> when it is touched. The processor's dirty bit of a page is part of the
  state. Sectors that the drive cannot read or write are a parameter of the state.
\<close>

definition BLKSIZE :: u32 where [jos_consts]: "BLKSIZE = PGSIZE"
definition BLKBITSIZE :: u32 where [jos_consts]: "BLKBITSIZE = BLKSIZE * 8"
definition SECTSIZE :: u32 where [jos_consts]: "SECTSIZE = 512"
definition BLKSECTS :: u32 where [jos_consts]: "BLKSECTS = BLKSIZE div SECTSIZE"
definition DISKMAP :: u32 where [jos_consts]: "DISKMAP = 0x10000000"
definition DISKSIZE :: u32 where [jos_consts]: "DISKSIZE = 0xC0000000"

record openfile =
  o_fileid :: u32
  o_file :: u32
  o_mode :: u32
  o_fd :: u32

text \<open>
  \<open>disk b i\<close> is word \<open>i\<close> of block \<open>b\<close>; \<open>pg_refs p\<close> is the number of mappings of the frame at
  page \<open>p\<close> in all environments, which the server reads with \<open>pageref\<close>.
\<close>

record fsstate =
  disk :: "nat \<Rightarrow> nat \<Rightarrow> u32"
  disk_bad :: "nat \<Rightarrow> bool"
  page :: "nat \<Rightarrow> nat \<Rightarrow> u32"
  mapped :: "nat \<Rightarrow> bool"
  dirty :: "nat \<Rightarrow> bool"
  super_set :: bool
  bitmap_set :: bool
  opentab :: "nat \<Rightarrow> openfile"
  pg_refs :: "nat \<Rightarrow> nat"

datatype 'a fres = FRet 'a fsstate | FPanic string

primrec fbind :: "'a fres \<Rightarrow> ('a \<Rightarrow> fsstate \<Rightarrow> 'b fres) \<Rightarrow> 'b fres" where
  "fbind (FRet x s) f = f x s"
| "fbind (FPanic m) f = FPanic m"

lemma fbind_FRet_iff: "fbind r f = FRet y t \<longleftrightarrow> (\<exists>x s. r = FRet x s \<and> f x s = FRet y t)"
  by (cases r) auto

lemma fbind_FPanic_iff: "fbind r f = FPanic m \<longleftrightarrow> r = FPanic m \<or> (\<exists>x s. r = FRet x s \<and> f x s = FPanic m)"
  by (cases r) auto

section \<open>Addresses\<close>

definition va_pg :: "u32 \<Rightarrow> nat" where "va_pg a = unat (PGNUM a)"
definition va_wd :: "u32 \<Rightarrow> nat" where "va_wd a = unat (PGOFF a) div 4"

text \<open>The page of a block, and the first byte of that page.\<close>

definition blk_pg :: "nat \<Rightarrow> nat" where "blk_pg b = 0x10000 + b"
definition blk_va :: "nat \<Rightarrow> u32" where "blk_va b = DISKMAP + of_nat b * BLKSIZE"

section \<open>The block cache\<close>

text \<open>Reading and writing a whole block (\<open>ide_read\<close> and \<open>ide_write\<close> of BLKSECTS sectors).\<close>

definition ide_read :: "nat \<Rightarrow> nat \<Rightarrow> fsstate \<Rightarrow> int \<times> fsstate" where
  "ide_read blockno p s =
     (if disk_bad s blockno then (- 1, s)
      else (0, s\<lparr>page := (page s)(p := disk s blockno), dirty := (dirty s)(p := True)\<rparr>))"

definition ide_write :: "nat \<Rightarrow> nat \<Rightarrow> fsstate \<Rightarrow> int \<times> fsstate" where
  "ide_write blockno p s =
     (if disk_bad s blockno then (- 1, s) else (0, s\<lparr>disk := (disk s)(blockno := page s p)\<rparr>))"

text \<open>
  \<open>touch k a\<close> makes the page of address \<open>a\<close> accessible: the page fault handler loads it if it is
  not mapped. The handler reads the superblock and the bitmap, which may fault again, on the
  exception stack; \<open>k\<close> bounds the nesting. One more level than the three that can occur (a
  block, its bitmap block, the first bitmap block) is enough once the superblock is cached.
\<close>

fun touch :: "nat \<Rightarrow> u32 \<Rightarrow> fsstate \<Rightarrow> unit fres" where
  "touch 0 a s = (if mapped s (va_pg a) then FRet () s else FPanic ''exception stack overflow'')"
| "touch (Suc k) a s =
     (if mapped s (va_pg a) then FRet () s
      else
        let blockno = unat ((a - DISKMAP) div BLKSIZE) in
        if a < DISKMAP \<or> a \<ge> DISKMAP + DISKSIZE then FPanic ''page fault in FS''
        else
          fbind (if super_set s
                 then fbind (touch k (blk_va 1) s)
                        (\<lambda>_ s. FRet (of_nat blockno \<ge> page s (blk_pg 1) 1) s)
                 else FRet False s) (\<lambda>bad s.
          if bad then FPanic ''reading non-existent block''
          else
            let p = va_pg a;
                s = s\<lparr>mapped := (mapped s)(p := True), page := (page s)(p := (\<lambda>_. 0)),
                      dirty := (dirty s)(p := False)\<rparr>;
                (r, s) = ide_read blockno p s in
            if r < 0 then FPanic ''bc_pgfault: ide_write''
            else
              let s = s\<lparr>dirty := (dirty s)(p := False)\<rparr> in
              if bitmap_set s \<and> super_set s then
                fbind (touch k (blk_va 1) s) (\<lambda>_ s.
                if of_nat blockno \<ge> page s (blk_pg 1) 1 then FRet () s
                else
                  fbind (touch k (blk_va 2 + of_nat (blockno div 32) * 4) s) (\<lambda>_ s.
                  if bit (page s (va_pg (blk_va 2 + of_nat (blockno div 32) * 4))
                            (va_wd (blk_va 2 + of_nat (blockno div 32) * 4))) (blockno mod 32)
                  then FPanic ''reading free block'' else FRet () s))
              else FRet () s))"

definition LEVELS :: nat where [jos_consts]: "LEVELS = 4"

text \<open>Memory accesses of the server.\<close>

definition rd32 :: "u32 \<Rightarrow> fsstate \<Rightarrow> u32 fres" where
  "rd32 a s = fbind (touch LEVELS a s) (\<lambda>_ s. FRet (page s (va_pg a) (va_wd a)) s)"

definition wr32 :: "u32 \<Rightarrow> u32 \<Rightarrow> fsstate \<Rightarrow> unit fres" where
  "wr32 a v s =
     fbind (touch LEVELS a s) (\<lambda>_ s.
       FRet () (s\<lparr>page := (page s)(va_pg a := (page s (va_pg a))(va_wd a := v)),
                  dirty := (dirty s)(va_pg a := True)\<rparr>))"

definition rd8 :: "u32 \<Rightarrow> fsstate \<Rightarrow> u8 fres" where
  "rd8 a s = fbind (rd32 a s) (\<lambda>w s. FRet (get_byte w (unat a mod 4)) s)"

definition wr8 :: "u32 \<Rightarrow> u8 \<Rightarrow> fsstate \<Rightarrow> unit fres" where
  "wr8 a b s = fbind (rd32 a s) (\<lambda>w s. wr32 a (put_byte w (unat a mod 4) b) s)"

text \<open>\<open>memmove\<close>: from high to low addresses when the destination overlaps the end of the source.\<close>

fun fcopy :: "u32 \<Rightarrow> u32 \<Rightarrow> nat \<Rightarrow> fsstate \<Rightarrow> unit fres" where
  "fcopy dst src 0 s = FRet () s"
| "fcopy dst src (Suc n) s =
     fbind (rd8 src s) (\<lambda>b s. fbind (wr8 dst b s) (\<lambda>_ s. fcopy (dst + 1) (src + 1) n s))"

fun fcopy_down :: "u32 \<Rightarrow> u32 \<Rightarrow> nat \<Rightarrow> fsstate \<Rightarrow> unit fres" where
  "fcopy_down dst src 0 s = FRet () s"
| "fcopy_down dst src (Suc n) s =
     fbind (rd8 (src + of_nat n) s) (\<lambda>b s.
     fbind (wr8 (dst + of_nat n) b s) (\<lambda>_ s. fcopy_down dst src n s))"

definition fmemmove :: "u32 \<Rightarrow> u32 \<Rightarrow> nat \<Rightarrow> fsstate \<Rightarrow> unit fres" where
  "fmemmove dst src n s =
     (if src < dst \<and> src + of_nat n > dst then fcopy_down dst src n s else fcopy dst src n s)"

fun fzero :: "u32 \<Rightarrow> nat \<Rightarrow> fsstate \<Rightarrow> unit fres" where
  "fzero a 0 s = FRet () s"
| "fzero a (Suc n) s = fbind (wr32 a 0 s) (\<lambda>_ s. fzero (a + 4) n s)"

definition super_nblocks :: "fsstate \<Rightarrow> u32 fres" where
  "super_nblocks s = rd32 (blk_va 1 + 4) s"

definition diskaddr :: "u32 \<Rightarrow> fsstate \<Rightarrow> u32 fres" where
  "diskaddr blockno s =
     (if blockno = 0 then FPanic ''bad block number in diskaddr''
      else
        fbind (if super_set s
               then fbind (super_nblocks s) (\<lambda>n s. FRet (blockno \<ge> n) s)
               else FRet False s) (\<lambda>bad s.
        if bad then FPanic ''bad block number in diskaddr''
        else FRet (DISKMAP + blockno * BLKSIZE) s))"

definition va_is_mapped :: "u32 \<Rightarrow> fsstate \<Rightarrow> bool" where
  "va_is_mapped va s \<longleftrightarrow> mapped s (va_pg va)"

definition va_is_dirty :: "u32 \<Rightarrow> fsstate \<Rightarrow> bool" where
  "va_is_dirty va s \<longleftrightarrow> dirty s (va_pg va)"

definition flush_block :: "u32 \<Rightarrow> fsstate \<Rightarrow> unit fres" where
  "flush_block addr s =
     (let blockno = unat ((addr - DISKMAP) div BLKSIZE) in
      if addr < DISKMAP \<or> addr \<ge> DISKMAP + DISKSIZE then FPanic ''flush_block of bad va''
      else
        let addr = ROUNDDOWN addr PGSIZE in
        if \<not> va_is_mapped addr s \<or> \<not> va_is_dirty addr s then FRet () s
        else
          let (r, s) = ide_write blockno (va_pg addr) s in
          if r < 0 then FPanic ''flush_block: ide_write''
          else FRet () (s\<lparr>dirty := (dirty s)(va_pg addr := False)\<rparr>))"

section \<open>The self-test of the cache\<close>

text \<open>\<open>fmem_bytes\<close> copies bytes out of the server's memory, \<open>fmem_put\<close> copies bytes in.\<close>

fun fmem_bytes :: "u32 \<Rightarrow> nat \<Rightarrow> fsstate \<Rightarrow> u8 list fres" where
  "fmem_bytes a 0 s = FRet [] s"
| "fmem_bytes a (Suc n) s =
     fbind (rd8 a s) (\<lambda>b s. fbind (fmem_bytes (a + 1) n s) (\<lambda>bs s. FRet (b # bs) s))"

fun fmem_put :: "u32 \<Rightarrow> u8 list \<Rightarrow> fsstate \<Rightarrow> unit fres" where
  "fmem_put a [] s = FRet () s"
| "fmem_put a (b # bs) s = fbind (wr8 a b s) (\<lambda>_ s. fmem_put (a + 1) bs s)"

text \<open>"OOPS!" with a newline and the terminating zero; \<open>struct Super\<close> has 264 bytes.\<close>

definition oops_bytes :: "u8 list" where
  "oops_bytes = [0x4F, 0x4F, 0x50, 0x53, 0x21, 0x0A, 0]"

definition check_bc :: "fsstate \<Rightarrow> unit fres" where
  "check_bc s =
     fbind (diskaddr 1 s) (\<lambda>a s.
     fbind (fmem_bytes a 264 s) (\<lambda>backup s.
     fbind (fmem_put a oops_bytes s) (\<lambda>_ s.
     fbind (flush_block a s) (\<lambda>_ s.
     if \<not> va_is_mapped a s then FPanic ''assertion failed: va_is_mapped''
     else if va_is_dirty a s then FPanic ''assertion failed: !va_is_dirty''
     else
       let s = s\<lparr>mapped := (mapped s)(va_pg a := False)\<rparr> in
       if va_is_mapped a s then FPanic ''assertion failed: !va_is_mapped''
       else
         fbind (fmem_bytes a 7 s) (\<lambda>bs s.
         if bs \<noteq> oops_bytes then FPanic ''assertion failed: strcmp''
         else fbind (fmem_put a backup s) (\<lambda>_ s. flush_block a s))))))"

text \<open>The handler of page faults is \<open>touch\<close>; it is in force throughout.\<close>

definition bc_init :: "fsstate \<Rightarrow> unit fres" where
  "bc_init s =
     fbind (check_bc s) (\<lambda>_ s. fbind (diskaddr 1 s) (\<lambda>a s. fbind (fmem_bytes a 264 s) (\<lambda>_ s. FRet () s)))"

end
