(* ===== verification/Fs.thy ===== *)
theory Fs
  imports Fs_Mem Errors
begin

text \<open>
  The file system, \<^verbatim>\<open>fs/fs.c\<close>: superblock, free-block bitmap, block pointers of files,
  directories, paths, and reading, writing, resizing and flushing of files. Pointers to
  \<open>struct File\<close> and into blocks are addresses of the server's memory; integers keep the width
  and the signedness of the C types (\<open>off_t\<close> is signed, sizes and block numbers are not).
\<close>

section \<open>Constants and fields (inc/fs.h)\<close>

definition MAXNAMELEN :: nat where [jos_consts]: "MAXNAMELEN = 128"
definition NDIRECT :: u32 where [jos_consts]: "NDIRECT = 10"
definition NINDIRECT :: u32 where [jos_consts]: "NINDIRECT = BLKSIZE div 4"
definition BLKFILES :: nat where [jos_consts]: "BLKFILES = 16"
definition FTYPE_DIR :: u32 where [jos_consts]: "FTYPE_DIR = 1"
definition FS_MAGIC :: u32 where [jos_consts]: "FS_MAGIC = 0x4A0530AE"

definition f_size :: "u32 \<Rightarrow> u32" where "f_size f = f + 128"
definition f_type :: "u32 \<Rightarrow> u32" where "f_type f = f + 132"
definition f_direct :: "u32 \<Rightarrow> u32 \<Rightarrow> u32" where "f_direct f i = f + 136 + 4 * i"
definition f_indirect :: "u32 \<Rightarrow> u32" where "f_indirect f = f + 176"
definition s_root :: u32 where "s_root = DISKMAP + BLKSIZE + 8"

text \<open>Signed division and remainder by the block size, as C computes them on \<open>off_t\<close>.\<close>

definition sdiv_blk :: "u32 \<Rightarrow> u32" where
  "sdiv_blk w = (if sint w < 0 then - ((- w) div BLKSIZE) else w div BLKSIZE)"

definition srem_blk :: "u32 \<Rightarrow> u32" where
  "srem_blk w = (if sint w < 0 then - ((- w) mod BLKSIZE) else w mod BLKSIZE)"

section \<open>Superblock and bitmap\<close>

definition check_super :: "fsstate \<Rightarrow> unit fres" where
  "check_super s =
     fbind (rd32 (blk_va 1) s) (\<lambda>magic s.
     if magic \<noteq> FS_MAGIC then FPanic ''bad file system magic number''
     else
       fbind (super_nblocks s) (\<lambda>n s.
       if n > DISKSIZE div BLKSIZE then FPanic ''file system is too large'' else FRet () s))"

definition bitmap_word :: "u32 \<Rightarrow> u32" where
  "bitmap_word blockno = blk_va 2 + (blockno div 32) * 4"

definition block_is_free :: "u32 \<Rightarrow> fsstate \<Rightarrow> bool fres" where
  "block_is_free blockno s =
     (if \<not> super_set s then FRet False s
      else
        fbind (super_nblocks s) (\<lambda>n s.
        if blockno \<ge> n then FRet False s
        else
          fbind (rd32 (bitmap_word blockno) s) (\<lambda>w s.
          FRet (w AND push_bit (unat (blockno mod 32)) 1 \<noteq> 0) s)))"

definition free_block :: "u32 \<Rightarrow> fsstate \<Rightarrow> unit fres" where
  "free_block blockno s =
     (if blockno = 0 then FPanic ''attempt to free zero block''
      else
        fbind (rd32 (bitmap_word blockno) s) (\<lambda>w s.
        wr32 (bitmap_word blockno) (w OR push_bit (unat (blockno mod 32)) 1) s))"

fun alloc_block_loop :: "nat \<Rightarrow> nat \<Rightarrow> fsstate \<Rightarrow> int fres" where
  "alloc_block_loop i 0 s = FRet (- E_NO_DISK) s"
| "alloc_block_loop i (Suc n) s =
     fbind (block_is_free (of_nat i) s) (\<lambda>free s.
     if free then
       fbind (rd32 (bitmap_word (of_nat i)) s) (\<lambda>w s.
       fbind (wr32 (bitmap_word (of_nat i)) (w AND NOT (push_bit (i mod 32) 1)) s) (\<lambda>_ s.
       fbind (diskaddr (of_nat i) s) (\<lambda>a s.
       fbind (flush_block a s) (\<lambda>_ s. FRet (int i) s))))
     else alloc_block_loop (Suc i) n s)"

definition alloc_block :: "fsstate \<Rightarrow> int fres" where
  "alloc_block s = fbind (super_nblocks s) (\<lambda>n s. alloc_block_loop 0 (unat n) s)"

fun check_bitmap_loop :: "nat list \<Rightarrow> fsstate \<Rightarrow> unit fres" where
  "check_bitmap_loop [] s = FRet () s"
| "check_bitmap_loop (b # bs) s =
     fbind (block_is_free (of_nat b) s) (\<lambda>free s.
     if free then FPanic ''assertion failed: !block_is_free'' else check_bitmap_loop bs s)"

text \<open>The bitmap blocks are \<open>2 + i\<close> for \<open>i * BLKBITSIZE < s_nblocks\<close>; then blocks 0 and 1.\<close>

definition check_bitmap :: "fsstate \<Rightarrow> unit fres" where
  "check_bitmap s =
     fbind (super_nblocks s) (\<lambda>n s.
     check_bitmap_loop (map (\<lambda>i. 2 + i) [0..<(unat n + 32767) div 32768] @ [0, 1]) s)"

text \<open>The choice of the disk, which only the driver sees, is left out.\<close>

definition fs_init :: "fsstate \<Rightarrow> unit fres" where
  "fs_init s =
     fbind (bc_init s) (\<lambda>_ s.
     fbind (diskaddr 1 s) (\<lambda>_ s.
     fbind (check_super (s\<lparr>super_set := True\<rparr>)) (\<lambda>_ s.
     fbind (diskaddr 2 s) (\<lambda>_ s.
     check_bitmap (s\<lparr>bitmap_set := True\<rparr>)))))"

section \<open>Blocks of a file\<close>

text \<open>
  \<open>alloc_block\<close> returns an \<open>int\<close> that is stored in an unsigned variable, so the tests for a
  negative block number never succeed.
\<close>

definition file_block_walk :: "u32 \<Rightarrow> u32 \<Rightarrow> bool \<Rightarrow> fsstate \<Rightarrow> (int \<times> u32) fres" where
  "file_block_walk f filebno alloc s =
     (if filebno < NDIRECT then FRet (0, f_direct f filebno) s
      else if filebno < NDIRECT + NINDIRECT then
        fbind (rd32 (f_indirect f) s) (\<lambda>ind s.
        if ind \<noteq> 0 then
          fbind (diskaddr ind s) (\<lambda>a s. FRet (0, a + 4 * (filebno - NDIRECT)) s)
        else if alloc then
          fbind (alloc_block s) (\<lambda>b s.
          let blockno = of_int b :: u32 in
          if blockno < 0 then FRet (- E_NO_DISK, 0) s
          else
            fbind (diskaddr blockno s) (\<lambda>a s.
            fbind (fzero a 1024 s) (\<lambda>_ s.
            fbind (wr32 (f_indirect f) blockno s) (\<lambda>_ s.
            fbind (diskaddr blockno s) (\<lambda>a s.
            FRet (0, a + 4 * (filebno - NDIRECT)) s)))))
        else FRet (- E_NOT_FOUND, 0) s)
      else FRet (- E_INVAL, 0) s)"

definition file_get_block :: "u32 \<Rightarrow> u32 \<Rightarrow> fsstate \<Rightarrow> (int \<times> u32) fres" where
  "file_get_block f filebno s =
     fbind (file_block_walk f filebno True s) (\<lambda>(r, pdiskbno) s.
     if r < 0 then FRet (r, 0) s
     else
       fbind (rd32 pdiskbno s) (\<lambda>b s.
       fbind (if b = 0
              then fbind (alloc_block s) (\<lambda>nb s. wr32 pdiskbno (of_int nb) s)
              else FRet () s) (\<lambda>_ s.
       fbind (rd32 pdiskbno s) (\<lambda>b s.
       if b < 0 then FRet (- E_NO_DISK, 0) s
       else fbind (diskaddr b s) (\<lambda>a s. FRet (0, a) s)))))"

section \<open>Directories and paths\<close>

text \<open>\<open>strcmp (f_name, name) == 0\<close> for a name without a zero byte.\<close>

fun name_eq :: "u32 \<Rightarrow> u8 list \<Rightarrow> fsstate \<Rightarrow> bool fres" where
  "name_eq a [] s = fbind (rd8 a s) (\<lambda>c s. FRet (c = 0) s)"
| "name_eq a (x # xs) s =
     fbind (rd8 a s) (\<lambda>c s. if c \<noteq> x then FRet False s else name_eq (a + 1) xs s)"

fun dir_scan_block :: "u32 \<Rightarrow> u8 list \<Rightarrow> nat \<Rightarrow> nat \<Rightarrow> fsstate \<Rightarrow> u32 option fres" where
  "dir_scan_block blk name j 0 s = FRet None s"
| "dir_scan_block blk name j (Suc n) s =
     fbind (name_eq (blk + of_nat j * 256) name s) (\<lambda>eq s.
     if eq then FRet (Some (blk + of_nat j * 256)) s else dir_scan_block blk name (Suc j) n s)"

fun dir_lookup_loop :: "u32 \<Rightarrow> u8 list \<Rightarrow> u32 \<Rightarrow> nat \<Rightarrow> fsstate \<Rightarrow> (int \<times> u32) fres" where
  "dir_lookup_loop dir name i 0 s = FRet (- E_NOT_FOUND, 0) s"
| "dir_lookup_loop dir name i (Suc n) s =
     fbind (file_get_block dir i s) (\<lambda>(r, blk) s.
     if r < 0 then FRet (r, 0) s
     else
       fbind (dir_scan_block blk name 0 BLKFILES s) (\<lambda>found s.
       case found of
         Some f \<Rightarrow> FRet (0, f) s
       | None \<Rightarrow> dir_lookup_loop dir name (i + 1) n s))"

definition dir_lookup :: "u32 \<Rightarrow> u8 list \<Rightarrow> fsstate \<Rightarrow> (int \<times> u32) fres" where
  "dir_lookup dir name s =
     fbind (rd32 (f_size dir) s) (\<lambda>sz s.
     if srem_blk sz \<noteq> 0 then FPanic ''assertion failed: (dir->f_size % BLKSIZE) == 0''
     else dir_lookup_loop dir name 0 (unat (sdiv_blk sz)) s)"

fun dir_free_slot :: "u32 \<Rightarrow> nat \<Rightarrow> nat \<Rightarrow> fsstate \<Rightarrow> u32 option fres" where
  "dir_free_slot blk j 0 s = FRet None s"
| "dir_free_slot blk j (Suc n) s =
     fbind (rd8 (blk + of_nat j * 256) s) (\<lambda>c s.
     if c = 0 then FRet (Some (blk + of_nat j * 256)) s else dir_free_slot blk (Suc j) n s)"

text \<open>The result of the scan also carries the index at which it stopped.\<close>

fun dir_alloc_loop :: "u32 \<Rightarrow> u32 \<Rightarrow> nat \<Rightarrow> fsstate \<Rightarrow> (int \<times> u32 option \<times> u32) fres" where
  "dir_alloc_loop dir i 0 s = FRet (0, None, i) s"
| "dir_alloc_loop dir i (Suc n) s =
     fbind (file_get_block dir i s) (\<lambda>(r, blk) s.
     if r < 0 then FRet (r, None, i) s
     else
       fbind (dir_free_slot blk 0 BLKFILES s) (\<lambda>found s.
       case found of
         Some f \<Rightarrow> FRet (0, Some f, i) s
       | None \<Rightarrow> dir_alloc_loop dir (i + 1) n s))"

definition dir_alloc_file :: "u32 \<Rightarrow> fsstate \<Rightarrow> (int \<times> u32) fres" where
  "dir_alloc_file dir s =
     fbind (rd32 (f_size dir) s) (\<lambda>sz s.
     if srem_blk sz \<noteq> 0 then FPanic ''assertion failed: (dir->f_size % BLKSIZE) == 0''
     else
       fbind (dir_alloc_loop dir 0 (unat (sdiv_blk sz)) s) (\<lambda>(r, found, i) s.
       if r < 0 then FRet (r, 0) s
       else
         case found of
           Some f \<Rightarrow> FRet (0, f) s
         | None \<Rightarrow>
             fbind (rd32 (f_size dir) s) (\<lambda>sz s.
             fbind (wr32 (f_size dir) (sz + BLKSIZE) s) (\<lambda>_ s.
             fbind (file_get_block dir i s) (\<lambda>(r, blk) s.
             if r < 0 then FRet (r, 0) s else FRet (0, blk) s)))))"

definition slash :: u8 where [jos_consts]: "slash = 0x2F"

definition skip_slash :: "u8 list \<Rightarrow> u8 list" where
  "skip_slash p = dropWhile (\<lambda>c. c = slash) p"

record walk_result =
  wr_ret :: int
  wr_dir :: u32
  wr_file :: u32
  wr_last :: "u8 list"

text \<open>
  The loop of \<open>walk_path\<close>: the path is what remains after leading slashes, \<open>f\<close> the file reached
  so far and \<open>dir\<close> the directory it was found in. A null pointer is 0.
\<close>

function walk_loop :: "u8 list \<Rightarrow> u32 \<Rightarrow> u32 \<Rightarrow> fsstate \<Rightarrow> walk_result fres" where
  "walk_loop path dir f s =
     (if path = [] then FRet \<lparr>wr_ret = 0, wr_dir = dir, wr_file = f, wr_last = []\<rparr> s
      else
        let dir = f;
            name = takeWhile (\<lambda>c. c \<noteq> slash) path;
            path' = skip_slash (dropWhile (\<lambda>c. c \<noteq> slash) path) in
        if length name \<ge> MAXNAMELEN
        then FRet \<lparr>wr_ret = - E_BAD_PATH, wr_dir = 0, wr_file = 0, wr_last = []\<rparr> s
        else
          fbind (rd32 (f_type dir) s) (\<lambda>ty s.
          if ty \<noteq> FTYPE_DIR
          then FRet \<lparr>wr_ret = - E_NOT_FOUND, wr_dir = 0, wr_file = 0, wr_last = []\<rparr> s
          else
            fbind (dir_lookup dir name s) (\<lambda>(r, f) s.
            if r < 0 then
              (if r = - E_NOT_FOUND \<and> path' = []
               then FRet \<lparr>wr_ret = r, wr_dir = dir, wr_file = 0, wr_last = name\<rparr> s
               else FRet \<lparr>wr_ret = r, wr_dir = 0, wr_file = 0, wr_last = []\<rparr> s)
            else walk_loop path' dir f s)))"
  by pat_completeness auto

lemma skip_slash_shorter:
  "path \<noteq> [] \<Longrightarrow> length (skip_slash (dropWhile (\<lambda>c. c \<noteq> slash) path)) < length path"
proof (cases path)
  case (Cons c cs)
  have "length (skip_slash (dropWhile (\<lambda>c. c \<noteq> slash) cs)) \<le> length cs"
    by (simp add: skip_slash_def le_trans [OF length_dropWhile_le length_dropWhile_le])
  moreover have "length (dropWhile (\<lambda>c. c = slash) cs) \<le> length cs" by (rule length_dropWhile_le)
  ultimately show ?thesis using Cons by (auto simp: skip_slash_def)
qed simp

termination walk_loop
  by (relation "measure (\<lambda>(path, _). length path)") (simp_all add: skip_slash_shorter)

declare walk_loop.simps [simp del]

definition walk_path :: "u8 list \<Rightarrow> fsstate \<Rightarrow> walk_result fres" where
  "walk_path path s = walk_loop (skip_slash path) 0 s_root s"

section \<open>File operations\<close>

definition file_open :: "u8 list \<Rightarrow> fsstate \<Rightarrow> (int \<times> u32) fres" where
  "file_open path s = fbind (walk_path path s) (\<lambda>w s. FRet (wr_ret w, wr_file w) s)"

text \<open>The loop of \<open>file_read\<close> copies to \<open>buf\<close> from position \<open>pos\<close> up to position \<open>endp\<close>.\<close>

definition chunk :: "u32 \<Rightarrow> u32 \<Rightarrow> u32" where
  "chunk pos endp = min (BLKSIZE - srem_blk pos) (endp - pos)"

lemma chunk_bounds:
  assumes "pos < endp"
  shows "0 < unat (chunk pos endp)" and "unat (chunk pos endp) \<le> unat (endp - pos)"
    and "unat (endp - (pos + chunk pos endp)) < unat (endp - pos)"
proof -
  let ?r = "srem_blk pos"
  have "BLKSIZE - ?r \<noteq> 0"
  proof
    assume "BLKSIZE - ?r = 0"
    then have e: "?r = 4096" by (simp add: BLKSIZE_def PGSIZE_def)
    show False
    proof (cases "sint pos < 0")
      case True
      then have "- ((- pos) mod 4096) = 4096" using e by (simp add: srem_blk_def BLKSIZE_def PGSIZE_def)
      then have "(- pos) mod 4096 = - 4096" by (metis minus_equation_iff)
      moreover have "unat ((- pos) mod 4096) < 4096" by (simp add: unat_mod)
      ultimately show False by simp
    next
      case False
      then have "pos mod 4096 = 4096" using e by (simp add: srem_blk_def BLKSIZE_def PGSIZE_def)
      moreover have "unat (pos mod 4096) < 4096" by (simp add: unat_mod)
      ultimately show False by simp
    qed
  qed
  moreover have "endp - pos \<noteq> 0" using assms by auto
  ultimately have nz: "chunk pos endp \<noteq> 0" by (auto simp: chunk_def min_def)
  then show pos: "0 < unat (chunk pos endp)" by (simp add: unat_gt_0)
  have le: "chunk pos endp \<le> endp - pos" by (simp add: chunk_def)
  then show le': "unat (chunk pos endp) \<le> unat (endp - pos)" by (simp add: word_le_nat_alt)
  have "unat (endp - (pos + chunk pos endp)) = unat ((endp - pos) - chunk pos endp)"
    by (simp add: diff_diff_eq)
  also have "\<dots> = unat (endp - pos) - unat (chunk pos endp)"
    using le by (simp add: unat_sub)
  finally show "unat (endp - (pos + chunk pos endp)) < unat (endp - pos)"
    using pos le' by linarith
qed

function file_read_loop :: "u32 \<Rightarrow> u32 \<Rightarrow> u32 \<Rightarrow> u32 \<Rightarrow> fsstate \<Rightarrow> int fres" where
  "file_read_loop f buf pos endp s =
     (if pos < endp then
        fbind (file_get_block f (sdiv_blk pos) s) (\<lambda>(r, blk) s.
        if r < 0 then FRet r s
        else
          fbind (fmemmove buf (blk + srem_blk pos) (unat (chunk pos endp)) s) (\<lambda>_ s.
          file_read_loop f (buf + chunk pos endp) (pos + chunk pos endp) endp s))
      else FRet 0 s)"
  by pat_completeness auto
termination
  by (relation "measure (\<lambda>(f, buf, pos, endp, s). unat (endp - pos))") (simp_all add: chunk_bounds)

function file_write_loop :: "u32 \<Rightarrow> u32 \<Rightarrow> u32 \<Rightarrow> u32 \<Rightarrow> fsstate \<Rightarrow> int fres" where
  "file_write_loop f buf pos endp s =
     (if pos < endp then
        fbind (file_get_block f (sdiv_blk pos) s) (\<lambda>(r, blk) s.
        if r < 0 then FRet r s
        else
          fbind (fmemmove (blk + srem_blk pos) buf (unat (chunk pos endp)) s) (\<lambda>_ s.
          file_write_loop f (buf + chunk pos endp) (pos + chunk pos endp) endp s))
      else FRet 0 s)"
  by pat_completeness auto
termination
  by (relation "measure (\<lambda>(f, buf, pos, endp, s). unat (endp - pos))") (simp_all add: chunk_bounds)

declare file_read_loop.simps [simp del] file_write_loop.simps [simp del]

definition file_read :: "u32 \<Rightarrow> u32 \<Rightarrow> u32 \<Rightarrow> u32 \<Rightarrow> fsstate \<Rightarrow> int fres" where
  "file_read f buf count offset s =
     fbind (rd32 (f_size f) s) (\<lambda>sz s.
     if sint offset \<ge> sint sz then FRet 0 s
     else
       let count = min count (sz - offset) in
       fbind (file_read_loop f buf offset (offset + count) s) (\<lambda>r s.
       if r < 0 then FRet r s else FRet (sint count) s))"

definition file_free_block :: "u32 \<Rightarrow> u32 \<Rightarrow> fsstate \<Rightarrow> int fres" where
  "file_free_block f filebno s =
     fbind (file_block_walk f filebno False s) (\<lambda>(r, ptr) s.
     if r < 0 then FRet r s
     else
       fbind (rd32 ptr s) (\<lambda>b s.
       if b \<noteq> 0 then fbind (free_block b s) (\<lambda>_ s. fbind (wr32 ptr 0 s) (\<lambda>_ s. FRet 0 s))
       else FRet 0 s))"

fun truncate_loop :: "u32 \<Rightarrow> u32 \<Rightarrow> nat \<Rightarrow> fsstate \<Rightarrow> unit fres" where
  "truncate_loop f bno 0 s = FRet () s"
| "truncate_loop f bno (Suc n) s =
     fbind (file_free_block f bno s) (\<lambda>_ s. truncate_loop f (bno + 1) n s)"

definition nblocks_of :: "u32 \<Rightarrow> u32" where
  "nblocks_of sz = sdiv_blk (sz + BLKSIZE - 1)"

definition file_truncate_blocks :: "u32 \<Rightarrow> u32 \<Rightarrow> fsstate \<Rightarrow> unit fres" where
  "file_truncate_blocks f newsize s =
     fbind (rd32 (f_size f) s) (\<lambda>sz s.
     let old_nblocks = nblocks_of sz; new_nblocks = nblocks_of newsize in
     fbind (truncate_loop f new_nblocks
              (if new_nblocks < old_nblocks then unat (old_nblocks - new_nblocks) else 0) s) (\<lambda>_ s.
     fbind (rd32 (f_indirect f) s) (\<lambda>ind s.
     if new_nblocks \<le> NDIRECT \<and> ind \<noteq> 0
     then fbind (free_block ind s) (\<lambda>_ s. wr32 (f_indirect f) 0 s)
     else FRet () s)))"

definition file_set_size :: "u32 \<Rightarrow> u32 \<Rightarrow> fsstate \<Rightarrow> int fres" where
  "file_set_size f newsize s =
     fbind (rd32 (f_size f) s) (\<lambda>sz s.
     fbind (if sint sz > sint newsize then file_truncate_blocks f newsize s else FRet () s) (\<lambda>_ s.
     fbind (wr32 (f_size f) newsize s) (\<lambda>_ s.
     fbind (flush_block f s) (\<lambda>_ s. FRet 0 s))))"

definition file_write :: "u32 \<Rightarrow> u32 \<Rightarrow> u32 \<Rightarrow> u32 \<Rightarrow> fsstate \<Rightarrow> int fres" where
  "file_write f buf count offset s =
     fbind (rd32 (f_size f) s) (\<lambda>sz s.
     fbind (if offset + count > sz then file_set_size f (offset + count) s else FRet 0 s) (\<lambda>r s.
     if r < 0 then FRet r s
     else
       fbind (file_write_loop f buf offset (offset + count) s) (\<lambda>r s.
       if r < 0 then FRet r s else FRet (sint count) s)))"

fun file_flush_loop :: "u32 \<Rightarrow> nat \<Rightarrow> nat \<Rightarrow> fsstate \<Rightarrow> unit fres" where
  "file_flush_loop f i 0 s = FRet () s"
| "file_flush_loop f i (Suc n) s =
     fbind (file_block_walk f (of_nat i) False s) (\<lambda>(r, pdiskbno) s.
     fbind (if r < 0 then FRet () s
            else
              fbind (rd32 pdiskbno s) (\<lambda>b s.
              if b = 0 then FRet () s
              else fbind (diskaddr b s) (\<lambda>a s. flush_block a s))) (\<lambda>_ s.
     file_flush_loop f (Suc i) n s))"

definition file_flush :: "u32 \<Rightarrow> fsstate \<Rightarrow> unit fres" where
  "file_flush f s =
     fbind (rd32 (f_size f) s) (\<lambda>sz s.
     fbind (file_flush_loop f 0 (nat (sint (nblocks_of sz))) s) (\<lambda>_ s.
     fbind (flush_block f s) (\<lambda>_ s.
     fbind (rd32 (f_indirect f) s) (\<lambda>ind s.
     if ind \<noteq> 0 then fbind (diskaddr ind s) (\<lambda>a s. flush_block a s) else FRet () s))))"

fun write_name :: "u32 \<Rightarrow> u8 list \<Rightarrow> fsstate \<Rightarrow> unit fres" where
  "write_name a [] s = wr8 a 0 s"
| "write_name a (x # xs) s = fbind (wr8 a x s) (\<lambda>_ s. write_name (a + 1) xs s)"

definition file_create :: "u8 list \<Rightarrow> fsstate \<Rightarrow> (int \<times> u32) fres" where
  "file_create path s =
     fbind (walk_path path s) (\<lambda>w s.
     if wr_ret w = 0 then FRet (- E_FILE_EXISTS, 0) s
     else if wr_ret w \<noteq> - E_NOT_FOUND \<or> wr_dir w = 0 then FRet (wr_ret w, 0) s
     else
       fbind (dir_alloc_file (wr_dir w) s) (\<lambda>(r, f) s.
       if r < 0 then FRet (r, 0) s
       else
         fbind (write_name f (wr_last w) s) (\<lambda>_ s.
         fbind (file_flush (wr_dir w) s) (\<lambda>_ s. FRet (0, f) s))))"

fun fs_sync_loop :: "nat \<Rightarrow> nat \<Rightarrow> fsstate \<Rightarrow> unit fres" where
  "fs_sync_loop i 0 s = FRet () s"
| "fs_sync_loop i (Suc n) s =
     fbind (diskaddr (of_nat i) s) (\<lambda>a s. fbind (flush_block a s) (\<lambda>_ s. fs_sync_loop (Suc i) n s))"

definition fs_sync :: "fsstate \<Rightarrow> unit fres" where
  "fs_sync s = fbind (super_nblocks s) (\<lambda>n s. fs_sync_loop 1 (unat n - 1) s)"

end
