(* ===== verification/Fs_Cache.thy ===== *)
theory Fs_Cache
  imports Fs Allocator
begin

text \<open>
  The block cache of the file server is transparent: what the server reads and writes through
  demand-paged memory is what it would read and write in a flat array of pages. The view of a
  state is that array: the cached page where there is one, the disk block otherwise.
\<close>

section \<open>Addresses in the block cache\<close>

definition MAXBLK :: nat where "MAXBLK = 0xC0000"

text \<open>Byte \<open>k\<close> of block \<open>b\<close>.\<close>

definition blk_addr :: "nat \<Rightarrow> nat \<Rightarrow> u32" where
  "blk_addr b k = DISKMAP + of_nat (b * 4096 + k)"

lemma unat_blk_addr:
  assumes "b < MAXBLK" "k < 4096"
  shows "unat (blk_addr b k) = 0x10000000 + b * 4096 + k"
proof -
  have lt: "b * 4096 + k < 0xC0000000" using assms by (simp add: MAXBLK_def)
  then have "unat (of_nat (b * 4096 + k) :: u32) = b * 4096 + k"
    by (simp add: unat_of_nat take_bit_nat_eq_self del: of_nat_add of_nat_mult)
  then show ?thesis
    using lt unfolding blk_addr_def DISKMAP_def by (subst unat_add_no_wrap) (simp_all del: of_nat_add of_nat_mult)
qed

lemma blk_addr_parts:
  assumes "b < MAXBLK" "k < 4096"
  shows "va_pg (blk_addr b k) = blk_pg b" "va_wd (blk_addr b k) = k div 4"
    and "unat ((blk_addr b k - DISKMAP) div BLKSIZE) = b"
    and "\<not> blk_addr b k < DISKMAP" "\<not> DISKMAP + DISKSIZE \<le> blk_addr b k"
proof -
  note u = unat_blk_addr [OF assms]
  have e: "0x10000000 + b * 4096 + k = k + (0x10000 + b) * 4096" by simp
  have d: "(0x10000000 + b * 4096 + k) div 4096 = 0x10000 + b" using assms(2) by simp
  show "va_pg (blk_addr b k) = blk_pg b"
    by (simp add: va_pg_def unat_PGNUM u d blk_pg_def)
  have "(0x10000000 + b * 4096 + k) mod 4096 = k" using assms(2) unfolding e mod_mult_self1 by simp
  then show "va_wd (blk_addr b k) = k div 4"
    by (simp add: va_wd_def unat_PGOFF u)
  have lt: "b * 4096 + k < 0xC0000000" using assms by (simp add: MAXBLK_def)
  then have "unat (of_nat (b * 4096 + k) :: u32) = b * 4096 + k"
    by (simp add: unat_of_nat take_bit_nat_eq_self del: of_nat_add of_nat_mult)
  then have "unat ((blk_addr b k - DISKMAP) div BLKSIZE) = (b * 4096 + k) div 4096"
    by (simp add: blk_addr_def unat_div jos_consts del: of_nat_add of_nat_mult)
  then show "unat ((blk_addr b k - DISKMAP) div BLKSIZE) = b" using assms(2) by simp
  show "\<not> blk_addr b k < DISKMAP" "\<not> DISKMAP + DISKSIZE \<le> blk_addr b k"
    using lt u by (simp_all add: word_less_nat_alt word_le_nat_alt jos_consts)
qed

lemma blk_va_addr: "blk_va b = blk_addr b 0"
  by (simp add: blk_va_def blk_addr_def jos_consts)

lemma blk_addr_plus: "blk_addr b k + of_nat j = blk_addr b (k + j)"
  by (simp add: blk_addr_def)

text \<open>The block and the word of the bitmap in which block \<open>b\<close> has its bit.\<close>

definition bm_blk :: "nat \<Rightarrow> nat" where "bm_blk b = 2 + b div 32768"
definition bm_wd :: "nat \<Rightarrow> nat" where "bm_wd b = b div 32 mod 1024"

lemma bm_addr: "blk_va 2 + of_nat (b div 32) * 4 = blk_addr (bm_blk b) (bm_wd b * 4)"
proof -
  have "b div 32 = b div 32768 * 1024 + b div 32 mod 1024"
    using div_mult_mod_eq [of "b div 32" 1024] by (simp add: div_mult2_eq [symmetric])
  then have "2 * 4096 + b div 32 * 4 = bm_blk b * 4096 + bm_wd b * 4"
    by (simp add: bm_blk_def bm_wd_def)
  moreover have "blk_va 2 + of_nat (b div 32) * 4 = DISKMAP + of_nat (2 * 4096 + b div 32 * 4)"
    by (simp add: blk_va_def jos_consts)
  ultimately show ?thesis by (simp add: blk_addr_def del: of_nat_add of_nat_mult)
qed

section \<open>The view of a state\<close>

definition on_disk :: "fsstate \<Rightarrow> nat \<Rightarrow> nat \<Rightarrow> u32" where
  "on_disk s p = (if p < 0x10000 then (\<lambda>_. 0) else disk s (p - 0x10000))"

lemma on_disk_blk [simp]: "on_disk s (blk_pg b) = disk s b"
  by (simp add: on_disk_def blk_pg_def)

definition vpage :: "fsstate \<Rightarrow> nat \<Rightarrow> nat \<Rightarrow> u32" where
  "vpage s p = (if mapped s p then page s p else on_disk s p)"

definition nblk :: "fsstate \<Rightarrow> nat" where "nblk s = unat (vpage s (blk_pg 1) 1)"

definition free_bit :: "fsstate \<Rightarrow> nat \<Rightarrow> bool" where
  "free_bit s b \<longleftrightarrow> bit (vpage s (blk_pg (bm_blk b)) (bm_wd b)) (b mod 32)"

text \<open>The first block behind the bitmap.\<close>

definition bm_end :: "nat \<Rightarrow> nat" where "bm_end n = 2 + (n + 32767) div 32768"

text \<open>
  The state of the running server: the superblock is cached, the disk has no bad blocks, the
  reserved blocks exist and are in use, and a page that is not dirty agrees with the disk.
\<close>

definition fs_ok :: "fsstate \<Rightarrow> bool" where
  "fs_ok s \<longleftrightarrow>
     super_set s \<and> bitmap_set s \<and> mapped s (blk_pg 1) \<and> nblk s \<le> MAXBLK \<and> bm_end (nblk s) \<le> nblk s
     \<and> (\<forall>b < nblk s. \<not> disk_bad s b) \<and> (\<forall>b < bm_end (nblk s). \<not> free_bit s b)
     \<and> (\<forall>b. mapped s (blk_pg b) \<longrightarrow> \<not> dirty s (blk_pg b) \<longrightarrow> page s (blk_pg b) = disk s b)"

lemma fs_okD:
  assumes "fs_ok s"
  shows "super_set s" "bitmap_set s" "mapped s (blk_pg 1)" "nblk s \<le> MAXBLK" "bm_end (nblk s) \<le> nblk s"
    "b < nblk s \<Longrightarrow> \<not> disk_bad s b" "b < bm_end (nblk s) \<Longrightarrow> \<not> free_bit s b"
    "mapped s (blk_pg b) \<Longrightarrow> \<not> dirty s (blk_pg b) \<Longrightarrow> page s (blk_pg b) = disk s b"
  using assms by (auto simp: fs_ok_def)

lemma bm_blk_bounds:
  assumes "fs_ok s" "b < nblk s"
  shows "bm_blk b < bm_end (nblk s)" "bm_blk b < nblk s" "bm_blk b < MAXBLK" "bm_wd b < 1024"
    and "bm_blk (bm_blk b) = 2"
proof -
  have "b div 32768 < (nblk s + 32767) div 32768"
    using assms(2) div_le_mono [of "b + 32768" "nblk s + 32767" 32768] by simp
  then show lt: "bm_blk b < bm_end (nblk s)" by (simp add: bm_blk_def bm_end_def)
  then show "bm_blk b < nblk s" "bm_blk b < MAXBLK" using fs_okD(4,5) [OF assms(1)] by simp_all
  have "b div 32768 < 24" using assms(2) fs_okD(4) [OF assms(1)] by (simp add: MAXBLK_def)
  then show "bm_blk (bm_blk b) = 2" by (simp add: bm_blk_def)
  show "bm_wd b < 1024" by (simp add: bm_wd_def)
qed

text \<open>\<open>t\<close> is \<open>s\<close> after some pages have been brought in from the disk.\<close>

definition loaded :: "fsstate \<Rightarrow> fsstate \<Rightarrow> bool" where
  "loaded s t \<longleftrightarrow>
     t = s\<lparr>page := page t, mapped := mapped t, dirty := dirty t\<rparr>
     \<and> (\<forall>p. mapped s p \<longrightarrow> mapped t p \<and> page t p = page s p \<and> dirty t p = dirty s p)
     \<and> (\<forall>p. \<not> mapped s p \<longrightarrow> mapped t p \<longrightarrow> page t p = on_disk s p \<and> \<not> dirty t p)"

lemma loaded_refl [simp]: "loaded s s"
  by (simp add: loaded_def)

lemma loaded_fields:
  assumes "loaded s t"
  shows "disk t = disk s" "disk_bad t = disk_bad s" "super_set t = super_set s" "bitmap_set t = bitmap_set s"
    "opentab t = opentab s" "pg_refs t = pg_refs s"
    and "mapped s p \<Longrightarrow> mapped t p" "mapped s p \<Longrightarrow> page t p = page s p" "mapped s p \<Longrightarrow> dirty t p = dirty s p"
    and "\<not> mapped s p \<Longrightarrow> mapped t p \<Longrightarrow> page t p = on_disk s p \<and> \<not> dirty t p"
proof -
  have t: "t = s\<lparr>page := page t, mapped := mapped t, dirty := dirty t\<rparr>" using assms by (simp add: loaded_def)
  show "disk t = disk s" by (subst t) simp
  show "disk_bad t = disk_bad s" by (subst t) simp
  show "super_set t = super_set s" by (subst t) simp
  show "bitmap_set t = bitmap_set s" by (subst t) simp
  show "opentab t = opentab s" by (subst t) simp
  show "pg_refs t = pg_refs s" by (subst t) simp
qed (use assms in \<open>auto simp: loaded_def\<close>)

lemma loaded_view:
  assumes "loaded s t"
  shows "vpage t = vpage s" "nblk t = nblk s" "free_bit t = free_bit s"
proof -
  show v: "vpage t = vpage s"
    using loaded_fields [OF assms] by (auto simp: vpage_def on_disk_def fun_eq_iff)
  show "nblk t = nblk s" by (simp add: nblk_def v)
  show "free_bit t = free_bit s" by (simp add: free_bit_def v fun_eq_iff)
qed

lemma loaded_ok: "loaded s t \<Longrightarrow> fs_ok s \<Longrightarrow> fs_ok t"
  unfolding fs_ok_def [of t]
  using loaded_fields [of s t] loaded_view [of s t] fs_okD [of s] on_disk_blk by metis

lemma loaded_trans:
  assumes "loaded s t" "loaded t u"
  shows "loaded s u"
proof -
  have t: "t = s\<lparr>page := page t, mapped := mapped t, dirty := dirty t\<rparr>" using assms(1) by (simp add: loaded_def)
  have u: "u = t\<lparr>page := page u, mapped := mapped u, dirty := dirty u\<rparr>" using assms(2) by (simp add: loaded_def)
  have "u = s\<lparr>page := page u, mapped := mapped u, dirty := dirty u\<rparr>"
    by (subst u, subst t) simp
  moreover have "mapped u p \<and> page u p = page s p \<and> dirty u p = dirty s p" if "mapped s p" for p
    using that loaded_fields(7-9) [OF assms(1)] loaded_fields(7-9) [OF assms(2)] by simp
  moreover have "page u p = on_disk s p \<and> \<not> dirty u p" if "\<not> mapped s p" "mapped u p" for p
    using that loaded_fields(1,10) [OF assms(1)] loaded_fields(8-10) [OF assms(2)]
    by (cases "mapped t p") (auto simp: on_disk_def)
  ultimately show ?thesis unfolding loaded_def by blast
qed

section \<open>Page faults\<close>

text \<open>The effect of the page fault handler on block \<open>b\<close>.\<close>

definition load_block :: "nat \<Rightarrow> fsstate \<Rightarrow> fsstate" where
  "load_block b s = s\<lparr>mapped := (mapped s)(blk_pg b := True), page := (page s)(blk_pg b := disk s b),
     dirty := (dirty s)(blk_pg b := False)\<rparr>"

lemma load_block_loaded: "\<not> mapped s (blk_pg b) \<Longrightarrow> loaded s (load_block b s)"
  by (auto simp: loaded_def load_block_def)

lemma touch_mapped: "mapped s (va_pg a) \<Longrightarrow> touch k a s = FRet () s"
  by (cases k) simp_all

lemma touch_super: "fs_ok s \<Longrightarrow> touch k (blk_va 1) s = FRet () s"
  using blk_addr_parts(1) [of 1 0] fs_okD(3) [of s] by (intro touch_mapped) (simp add: blk_va_addr MAXBLK_def)

lemma super_word: "fs_ok s \<Longrightarrow> page s (blk_pg 1) 1 = of_nat (nblk s)"
  using fs_okD(3) [of s] by (simp add: nblk_def vpage_def)

lemma blk_less_iff: "fs_ok s \<Longrightarrow> b < MAXBLK \<Longrightarrow> (of_nat (nblk s) :: u32) \<le> of_nat b \<longleftrightarrow> nblk s \<le> b"
  using fs_okD(4) [of s] by (simp add: word_le_nat_alt unat_of_nat take_bit_nat_eq_self MAXBLK_def)

text \<open>One level of the handler, given that the bitmap block can be touched.\<close>

lemma touch_step:
  assumes ok: "fs_ok s" and b: "b < nblk s" "\<not> free_bit s b" and k: "k < 4096"
    and un: "\<not> mapped s (blk_pg b)"
    and bm: "touch n (blk_addr (bm_blk b) (bm_wd b * 4)) (load_block b s) = FRet () t"
    and t: "loaded (load_block b s) t" "mapped t (blk_pg (bm_blk b))"
  shows "touch (Suc n) (blk_addr b k) s = FRet () t" "loaded s t" "mapped t (blk_pg b)"
proof -
  let ?s = "load_block b s"
  have lt: "b < MAXBLK" using b fs_okD(4) [OF ok] by simp
  note P = blk_addr_parts [OF lt k]
  note B = bm_blk_bounds [OF ok b(1)]
  have bp: "va_pg (blk_addr (bm_blk b) (bm_wd b * 4)) = blk_pg (bm_blk b)"
    "va_wd (blk_addr (bm_blk b) (bm_wd b * 4)) = bm_wd b"
    using blk_addr_parts [OF B(3), of "bm_wd b * 4"] B(4) by simp_all
  note L = load_block_loaded [OF un]
  have ok': "fs_ok ?s" by (rule loaded_ok [OF L ok])
  have nb: "nblk ?s = nblk s" by (rule loaded_view(2) [OF L])
  have "\<not> free_bit t b" using b(2) loaded_view(3) [OF L] loaded_view(3) [OF t(1)] by simp
  then have fb: "\<not> bit (page t (blk_pg (bm_blk b)) (bm_wd b)) (b mod 32)"
    using t(2) by (simp add: free_bit_def vpage_def)
  have ld: "s\<lparr>mapped := (mapped s)(blk_pg b := True), page := (page s)(blk_pg b := disk s b), dirty := (dirty s)(blk_pg b := False)\<rparr> = ?s"
    by (simp add: load_block_def)
  show "touch (Suc n) (blk_addr b k) s = FRet () t"
    using un P(1,3-5) b(1) lt touch_super [OF ok] touch_super [OF ok'] super_word [OF ok] super_word [OF ok']
      blk_less_iff [OF ok lt] fs_okD(1,2,6) [OF ok] ld bm bp fb nb
    by (simp add: ide_read_def Let_def bm_addr)
  show "loaded s t" by (rule loaded_trans [OF L t(1)])
  show "mapped t (blk_pg b)" using loaded_fields(7) [OF t(1), of "blk_pg b"] by (simp add: load_block_def)
qed

lemma touch_via:
  assumes ok: "fs_ok s" and b: "b < nblk s" "\<not> free_bit s b" and k: "k < 4096"
    and bm: "\<And>u. fs_ok u \<Longrightarrow> loaded s u \<Longrightarrow> mapped u (blk_pg b) \<Longrightarrow>
      \<exists>t. touch n (blk_addr (bm_blk b) (bm_wd b * 4)) u = FRet () t \<and> loaded u t \<and> mapped t (blk_pg (bm_blk b))"
  shows "\<exists>t. touch (Suc n) (blk_addr b k) s = FRet () t \<and> loaded s t \<and> mapped t (blk_pg b)"
proof (cases "mapped s (blk_pg b)")
  case True
  then show ?thesis using blk_addr_parts(1) [of b k] b k fs_okD(4) [OF ok] touch_mapped [of s] by auto
next
  case False
  note L = load_block_loaded [OF False]
  obtain t where "touch n (blk_addr (bm_blk b) (bm_wd b * 4)) (load_block b s) = FRet () t"
    "loaded (load_block b s) t" "mapped t (blk_pg (bm_blk b))"
    using bm [OF loaded_ok [OF L ok] L] by (auto simp: load_block_def)
  from touch_step [OF ok b k False this] show ?thesis by blast
qed

lemma three_blocks: "fs_ok s \<Longrightarrow> 3 \<le> bm_end (nblk s)"
proof -
  assume "fs_ok s"
  then have "bm_end (nblk s) \<le> nblk s" by (rule fs_okD)
  then have "0 < nblk s" by (simp add: bm_end_def)
  then show ?thesis using div_le_mono [of 32768 "nblk s + 32767" 32768] by (simp add: bm_end_def)
qed

text \<open>Three levels of page faults are enough: a block, its bitmap block, the first bitmap block.\<close>

lemma touch_first_bitmap:
  assumes "fs_ok s" "k < 4096"
  shows "\<exists>t. touch (Suc n) (blk_addr 2 k) s = FRet () t \<and> loaded s t \<and> mapped t (blk_pg 2)"
proof (rule touch_via [OF assms(1) _ _ assms(2)])
  show "2 < nblk s" using three_blocks [OF assms(1)] fs_okD(5) [OF assms(1)] by simp
  show "\<not> free_bit s 2" using three_blocks [OF assms(1)] fs_okD(7) [OF assms(1), of 2] by simp
  have "bm_blk 2 = 2" "bm_wd 2 = 0" by (simp_all add: bm_blk_def bm_wd_def)
  moreover have "va_pg (blk_addr 2 0) = blk_pg 2" by (intro blk_addr_parts) (simp_all add: MAXBLK_def)
  ultimately show "\<exists>t. touch n (blk_addr (bm_blk 2) (bm_wd 2 * 4)) u = FRet () t \<and> loaded u t \<and> mapped t (blk_pg (bm_blk 2))"
    if "mapped u (blk_pg 2)" for u
    using that touch_mapped [of u] by simp
qed

lemma touch_bitmap:
  assumes "fs_ok s" "b < nblk s" "k < 4096"
  shows "\<exists>t. touch (Suc (Suc n)) (blk_addr (bm_blk b) k) s = FRet () t \<and> loaded s t \<and> mapped t (blk_pg (bm_blk b))"
proof (rule touch_via [OF assms(1) _ _ assms(3)])
  note B = bm_blk_bounds [OF assms(1,2)]
  show "bm_blk b < nblk s" by (rule B)
  show "\<not> free_bit s (bm_blk b)" by (rule fs_okD(7) [OF assms(1) B(1)])
  show "\<exists>t. touch (Suc n) (blk_addr (bm_blk (bm_blk b)) (bm_wd (bm_blk b) * 4)) u = FRet () t \<and> loaded u t
      \<and> mapped t (blk_pg (bm_blk (bm_blk b)))" if "fs_ok u" for u
    unfolding B(5) using that by (intro touch_first_bitmap) (simp_all add: bm_wd_def)
qed

lemma touch_block:
  assumes "fs_ok s" "b < nblk s" "\<not> free_bit s b" "k < 4096"
  shows "\<exists>t. touch LEVELS (blk_addr b k) s = FRet () t \<and> loaded s t \<and> mapped t (blk_pg b)"
proof -
  have l: "LEVELS = Suc (Suc (Suc 1))" by (simp add: LEVELS_def)
  show ?thesis
    unfolding l
  proof (rule touch_via [OF assms])
    show "\<exists>t. touch (Suc (Suc 1)) (blk_addr (bm_blk b) (bm_wd b * 4)) u = FRet () t \<and> loaded u t \<and> mapped t (blk_pg (bm_blk b))"
      if "fs_ok u" "loaded s u" for u
      using that assms(2) loaded_view(2) [of s u] by (intro touch_bitmap) (simp_all add: bm_wd_def)
  qed
qed

section \<open>Memory accesses of the server\<close>

text \<open>A page that the server can use: one that is mapped, or a block that is in use.\<close>

definition usable_pg :: "fsstate \<Rightarrow> nat \<Rightarrow> bool" where
  "usable_pg s p \<longleftrightarrow> mapped s p \<or> (\<exists>b < nblk s. p = blk_pg b \<and> \<not> free_bit s b)"

lemma blk_addr_of:
  assumes "va_pg a = blk_pg b"
  shows "a = blk_addr b (unat a mod 4096)"
proof -
  have "unat a div 4096 = 0x10000 + b" using assms by (simp add: va_pg_def unat_PGNUM blk_pg_def)
  then have "unat a = 0x10000000 + (b * 4096 + unat a mod 4096)"
    using div_mult_mod_eq [of "unat a" 4096] by simp
  moreover have "a = of_nat (unat a)" by simp
  ultimately have "a = of_nat (0x10000000 + (b * 4096 + unat a mod 4096))" by metis
  then show ?thesis by (simp add: blk_addr_def DISKMAP_def)
qed

lemma touch_ok:
  assumes "fs_ok s" "usable_pg s (va_pg a)"
  obtains t where "touch LEVELS a s = FRet () t" "loaded s t" "mapped t (va_pg a)"
proof (cases "mapped s (va_pg a)")
  case True
  then show thesis using that [of s] touch_mapped [of s a] by simp
next
  case False
  then obtain b where b: "b < nblk s" "va_pg a = blk_pg b" "\<not> free_bit s b"
    using assms(2) by (auto simp: usable_pg_def)
  have "\<exists>t. touch LEVELS (blk_addr b (unat a mod 4096)) s = FRet () t \<and> loaded s t \<and> mapped t (blk_pg b)"
    using b by (intro touch_block [OF assms(1)]) simp_all
  then show thesis using that b(2) blk_addr_of [OF b(2)] by metis
qed

lemma loaded_usable: "loaded s t \<Longrightarrow> usable_pg s p \<Longrightarrow> usable_pg t p"
  using loaded_fields(7) [of s t] loaded_view [of s t] by (auto simp: usable_pg_def)

lemma rd32_ok:
  assumes "fs_ok s" "usable_pg s (va_pg a)"
  obtains t where "rd32 a s = FRet (vpage s (va_pg a) (va_wd a)) t" "loaded s t"
proof -
  obtain t where t: "touch LEVELS a s = FRet () t" "loaded s t" "mapped t (va_pg a)"
    by (rule touch_ok [OF assms])
  have "page t (va_pg a) = vpage s (va_pg a)"
    using t(3) loaded_view(1) [OF t(2)] by (metis vpage_def)
  then show thesis using t that [of t] by (simp add: rd32_def)
qed

text \<open>The effect of a store on the view; other fields stay as they are.\<close>

definition stored :: "nat \<Rightarrow> nat \<Rightarrow> u32 \<Rightarrow> fsstate \<Rightarrow> fsstate \<Rightarrow> bool" where
  "stored p i v s t \<longleftrightarrow>
     (\<exists>u. loaded s u \<and> mapped u p \<and>
        t = u\<lparr>page := (page u)(p := (page u p)(i := v)), dirty := (dirty u)(p := True)\<rparr>)"

lemma wr32_ok:
  assumes "fs_ok s" "usable_pg s (va_pg a)"
  obtains t where "wr32 a v s = FRet () t" "stored (va_pg a) (va_wd a) v s t"
proof -
  obtain u where u: "touch LEVELS a s = FRet () u" "loaded s u" "mapped u (va_pg a)"
    by (rule touch_ok [OF assms])
  show thesis
    by (rule that [of "u\<lparr>page := (page u)(va_pg a := (page u (va_pg a))(va_wd a := v)), dirty := (dirty u)(va_pg a := True)\<rparr>"])
       (use u in \<open>auto simp: wr32_def stored_def\<close>)
qed

text \<open>The superblock and the bitmap.\<close>

definition meta_page :: "fsstate \<Rightarrow> nat \<Rightarrow> bool" where
  "meta_page s p \<longleftrightarrow> (\<exists>b. 1 \<le> b \<and> b < bm_end (nblk s) \<and> p = blk_pg b)"

text \<open>What every operation of the server keeps.\<close>

definition evolves :: "fsstate \<Rightarrow> fsstate \<Rightarrow> bool" where
  "evolves s t \<longleftrightarrow> super_set t = super_set s \<and> bitmap_set t = bitmap_set s \<and> disk_bad t = disk_bad s
     \<and> opentab t = opentab s \<and> pg_refs t = pg_refs s \<and> (\<forall>p. mapped s p \<longrightarrow> mapped t p)"

lemma evolves_refl [simp]: "evolves s s"
  by (simp add: evolves_def)

lemma evolves_trans: "evolves s t \<Longrightarrow> evolves t u \<Longrightarrow> evolves s u"
  by (simp add: evolves_def)

lemma loaded_evolves: "loaded s t \<Longrightarrow> evolves s t"
  using loaded_fields [of s t] by (simp add: evolves_def)

lemma view_fields:
  assumes "fs_ok s" "\<And>p. meta_page s p \<Longrightarrow> vpage t p = vpage s p"
  shows "nblk t = nblk s" "b < nblk s \<Longrightarrow> free_bit t b = free_bit s b"
proof -
  have "meta_page s (blk_pg 1)" using three_blocks [OF assms(1)] by (auto simp: meta_page_def)
  then show "nblk t = nblk s" using assms(2) by (simp add: nblk_def)
  assume "b < nblk s"
  then have "meta_page s (blk_pg (bm_blk b))"
    using bm_blk_bounds(1) [OF assms(1)] by (auto simp: meta_page_def bm_blk_def)
  then show "free_bit t b = free_bit s b" using assms(2) by (simp add: free_bit_def)
qed

lemma evolves_ok:
  assumes "fs_ok s" "evolves s t" and view: "\<And>p. meta_page s p \<Longrightarrow> vpage t p = vpage s p"
    and clean: "\<And>b. mapped t (blk_pg b) \<Longrightarrow> \<not> dirty t (blk_pg b) \<Longrightarrow> page t (blk_pg b) = disk t b"
  shows "fs_ok t" "usable_pg s p \<Longrightarrow> usable_pg t p"
proof -
  note V = view_fields [of s t, OF assms(1) view]
  have "\<not> free_bit t b" if "b < bm_end (nblk s)" for b
    using that V(2) [of b] fs_okD(5,7) [OF assms(1)] by simp
  then show "fs_ok t"
    using assms(1,2) clean V(1) by (simp add: fs_ok_def evolves_def)
  show "usable_pg s p \<Longrightarrow> usable_pg t p"
    using assms(2) V by (auto simp: usable_pg_def evolves_def)
qed

lemma stored_view:
  assumes "stored p i v s t"
  shows "vpage t = (vpage s)(p := (vpage s p)(i := v))" "evolves s t"
proof -
  obtain u where u: "loaded s u" "mapped u p"
    and t: "t = u\<lparr>page := (page u)(p := (page u p)(i := v)), dirty := (dirty u)(p := True)\<rparr>"
    using assms by (auto simp: stored_def)
  have "vpage t = (vpage u)(p := (vpage u p)(i := v))" using u(2) by (auto simp: vpage_def on_disk_def fun_eq_iff t)
  then show "vpage t = (vpage s)(p := (vpage s p)(i := v))" by (simp add: loaded_view(1) [OF u(1)])
  have "evolves u t" by (simp add: evolves_def t)
  then show "evolves s t" using loaded_evolves [OF u(1)] evolves_trans by blast
qed

lemma stored_clean:
  assumes "stored p i v s t" "fs_ok s" "mapped t (blk_pg b)" "\<not> dirty t (blk_pg b)"
  shows "page t (blk_pg b) = disk t b"
proof -
  obtain u where u: "loaded s u"
    and t: "t = u\<lparr>page := (page u)(p := (page u p)(i := v)), dirty := (dirty u)(p := True)\<rparr>"
    using assms(1) by (auto simp: stored_def)
  have "blk_pg b \<noteq> p" using assms(4) by (auto simp: t)
  then show ?thesis using assms(3,4) fs_okD(8) [OF loaded_ok [OF u assms(2)], of b] by (simp add: t)
qed

lemma stored_ok:
  assumes "stored p i v s t" "fs_ok s" "\<not> meta_page s p"
  shows "fs_ok t" "nblk t = nblk s" "b < nblk s \<Longrightarrow> free_bit t b = free_bit s b"
    "usable_pg s q \<Longrightarrow> usable_pg t q"
proof -
  have v: "vpage t q = vpage s q" if "meta_page s q" for q
    using that assms(3) stored_view(1) [OF assms(1)] by auto
  show "nblk t = nblk s" "b < nblk s \<Longrightarrow> free_bit t b = free_bit s b"
    using view_fields [of s t, OF assms(2) v] by auto
  show "fs_ok t" "usable_pg s q \<Longrightarrow> usable_pg t q"
    using evolves_ok [of s t, OF assms(2) stored_view(2) [OF assms(1)] v stored_clean [OF assms(1,2)]] by auto
qed

section \<open>Flushing\<close>

lemma flush_ok:
  assumes ok: "fs_ok s" and b: "b < nblk s" and k: "k < 4096"
  obtains t where "flush_block (blk_addr b k) s = FRet () t" "vpage t = vpage s" "evolves s t" "fs_ok t"
    "disk t b = vpage s (blk_pg b)" "\<And>c. c \<noteq> b \<Longrightarrow> disk t c = disk s c" "\<not> (mapped t (blk_pg b) \<and> dirty t (blk_pg b))"
proof -
  have lt: "b < MAXBLK" using b fs_okD(4) [OF ok] by simp
  note P = blk_addr_parts [OF lt k]
  have "(0x10000000 + b * 4096 + k) div 4096 = 0x10000 + b" using k by simp
  then have "unat (ROUNDDOWN (blk_addr b k) PGSIZE) = (0x10000 + b) * 4096"
    by (simp add: unat_ROUNDDOWN_mult unat_blk_addr [OF lt k] PGSIZE_def)
  then have pg: "va_pg (ROUNDDOWN (blk_addr b k) PGSIZE) = blk_pg b"
    by (simp add: va_pg_def unat_PGNUM blk_pg_def)
  show thesis
  proof (cases "mapped s (blk_pg b) \<and> dirty s (blk_pg b)")
    case False
    then have "flush_block (blk_addr b k) s = FRet () s"
      using P by (auto simp: flush_block_def Let_def va_is_mapped_def va_is_dirty_def pg)
    moreover have "disk s b = vpage s (blk_pg b)"
      using False fs_okD(8) [OF ok, of b] by (auto simp: vpage_def)
    ultimately show thesis using False ok that [of s] by simp
  next
    case True
    define t where "t = s\<lparr>disk := (disk s)(b := page s (blk_pg b)), dirty := (dirty s)(blk_pg b := False)\<rparr>"
    have "flush_block (blk_addr b k) s = FRet () t"
      using P True fs_okD(6) [OF ok b]
      by (simp add: flush_block_def Let_def va_is_mapped_def va_is_dirty_def pg ide_write_def t_def)
    moreover have v: "vpage t = vpage s" using True by (auto simp: vpage_def t_def fun_eq_iff blk_pg_def on_disk_def)
    moreover have e: "evolves s t" by (simp add: evolves_def t_def)
    moreover have "page t (blk_pg c) = disk t c" if "mapped t (blk_pg c)" "\<not> dirty t (blk_pg c)" for c
      using that fs_okD(8) [OF ok, of c] by (cases "c = b") (auto simp: t_def blk_pg_def split: if_splits)
    then have "fs_ok t" using evolves_ok(1) [OF ok e] v by simp
    ultimately show thesis using True that [of t] by (simp add: t_def vpage_def)
  qed
qed

end
