(* ===== verification/Fs_Spec.thy ===== *)
theory Fs_Spec
  imports Fs_Cache
begin

text \<open>
  Properties of the file system: the block cache implements an array of blocks, \<open>fs_sync\<close> makes
  it durable, and the free-block bitmap implements the allocator contract.
\<close>

section \<open>Block addresses\<close>

lemma super_nblocks_ok: "fs_ok s \<Longrightarrow> super_nblocks s = FRet (of_nat (nblk s)) s"
proof -
  assume ok: "fs_ok s"
  have a: "blk_va 1 + 4 = blk_addr 1 4" by (simp add: blk_va_addr blk_addr_def)
  have "va_pg (blk_addr 1 4) = blk_pg 1" "va_wd (blk_addr 1 4) = 1"
    using blk_addr_parts [of 1 4] by (simp_all add: MAXBLK_def)
  then show ?thesis
    using touch_mapped [of s "blk_addr 1 4"] fs_okD(3) [OF ok] super_word [OF ok]
    by (simp add: super_nblocks_def rd32_def a del: One_nat_def)
qed

lemma diskaddr_ok:
  assumes "fs_ok s" "0 < b" "b < nblk s"
  shows "diskaddr (of_nat b) s = FRet (blk_addr b 0) s"
proof -
  have lt: "b < MAXBLK" using assms fs_okD(4) [OF assms(1)] by simp
  then have "(of_nat b :: u32) \<noteq> 0"
    using assms(2) by (simp add: MAXBLK_def word_unat_eq_iff unat_of_nat take_bit_nat_eq_self)
  moreover have "DISKMAP + of_nat b * BLKSIZE = blk_addr b 0" by (simp add: blk_addr_def jos_consts)
  ultimately show ?thesis
    using super_nblocks_ok [OF assms(1)] fs_okD(1) [OF assms(1)] blk_less_iff [OF assms(1) lt] assms(3)
    by (simp add: diskaddr_def)
qed

section \<open>The cache as an array of blocks\<close>

datatype cache_op = Load nat nat | Store nat nat u32 | Flush nat

fun op_block :: "cache_op \<Rightarrow> nat" where
  "op_block (Load b i) = b"
| "op_block (Store b i v) = b"
| "op_block (Flush b) = b"

fun op_word :: "cache_op \<Rightarrow> nat" where
  "op_word (Load b i) = i"
| "op_word (Store b i v) = i"
| "op_word (Flush b) = 0"

text \<open>The operations of the server on its mapped disk, and those on an array.\<close>

fun cache_run :: "cache_op list \<Rightarrow> fsstate \<Rightarrow> u32 list fres" where
  "cache_run [] s = FRet [] s"
| "cache_run (Load b i # ops) s =
     fbind (rd32 (blk_addr b (4 * i)) s) (\<lambda>v s. fbind (cache_run ops s) (\<lambda>vs s. FRet (v # vs) s))"
| "cache_run (Store b i v # ops) s = fbind (wr32 (blk_addr b (4 * i)) v s) (\<lambda>_ s. cache_run ops s)"
| "cache_run (Flush b # ops) s = fbind (flush_block (blk_addr b 0) s) (\<lambda>_ s. cache_run ops s)"

fun array_run :: "cache_op list \<Rightarrow> (nat \<Rightarrow> nat \<Rightarrow> u32) \<Rightarrow> u32 list \<times> (nat \<Rightarrow> nat \<Rightarrow> u32)" where
  "array_run [] a = ([], a)"
| "array_run (Load b i # ops) a = (let (vs, a') = array_run ops a in (a b i # vs, a'))"
| "array_run (Store b i v # ops) a = array_run ops (a(b := (a b)(i := v)))"
| "array_run (Flush b # ops) a = array_run ops a"

definition blocks :: "fsstate \<Rightarrow> nat \<Rightarrow> nat \<Rightarrow> u32" where
  "blocks s b = vpage s (blk_pg b)"

text \<open>A block that is in use and not one of the reserved ones.\<close>

definition data_block :: "fsstate \<Rightarrow> nat \<Rightarrow> bool" where
  "data_block s b \<longleftrightarrow> bm_end (nblk s) \<le> b \<and> b < nblk s \<and> \<not> free_bit s b"

lemma data_block_page:
  assumes "fs_ok s" "data_block s b"
  shows "usable_pg s (blk_pg b)" "\<not> meta_page s (blk_pg b)" "b < MAXBLK" "0 < b"
  using assms fs_okD(4) [OF assms(1)] three_blocks [OF assms(1)]
  by (auto simp: data_block_def usable_pg_def meta_page_def blk_pg_def)

lemma cache_run_ok:
  assumes "fs_ok s" "\<forall>x \<in> set ops. data_block s (op_block x) \<and> op_word x < 1024"
  shows "\<exists>t. cache_run ops s = FRet (fst (array_run ops (blocks s))) t \<and> fs_ok t
    \<and> blocks t = snd (array_run ops (blocks s))"
  using assms
proof (induction ops arbitrary: s)
  case Nil
  then show ?case by simp
next
  case (Cons x ops)
  note ok = Cons.prems(1)
  have d: "data_block s (op_block x)" "op_word x < 1024" using Cons.prems(2) by auto
  note P = data_block_page [OF ok d(1)]
  have parts: "va_pg (blk_addr (op_block x) (4 * op_word x)) = blk_pg (op_block x)"
    "va_wd (blk_addr (op_block x) (4 * op_word x)) = op_word x"
    using blk_addr_parts [OF P(3), of "4 * op_word x"] d(2) by simp_all
  have rest: "\<forall>y \<in> set ops. data_block t (op_block y) \<and> op_word y < 1024"
    if "nblk t = nblk s" "\<And>b. b < nblk s \<Longrightarrow> free_bit t b = free_bit s b" for t
    using Cons.prems(2) that by (auto simp: data_block_def)
  show ?case
  proof (cases x)
    case (Load b i)
    obtain t where t: "rd32 (blk_addr b (4 * i)) s = FRet (blocks s b i) t" "loaded s t"
      using rd32_ok [OF ok, of "blk_addr b (4 * i)"] P(1) parts Load by (auto simp: blocks_def)
    have "blocks t = blocks s" by (simp add: blocks_def fun_eq_iff loaded_view [OF t(2)])
    with Cons.IH [OF loaded_ok [OF t(2) ok] rest] t loaded_view [OF t(2)] show ?thesis
      by (auto simp: Load split: prod.splits)
  next
    case (Store b i v)
    obtain t where t: "wr32 (blk_addr b (4 * i)) v s = FRet () t" "stored (blk_pg b) i v s t"
      using wr32_ok [OF ok, of "blk_addr b (4 * i)" v] P(1) parts Store by auto
    have nm: "\<not> meta_page s (blk_pg b)" using P(2) Store by simp
    have "blocks t = (blocks s)(b := (blocks s b)(i := v))"
      using stored_view(1) [OF t(2)] by (auto simp: blocks_def blk_pg_def fun_eq_iff)
    with Cons.IH [OF stored_ok(1) [OF t(2) ok nm] rest] t(1) stored_ok(2,3) [OF t(2) ok nm] show ?thesis
      by (simp add: Store fun_upd_def)
  next
    case (Flush b)
    obtain t where t: "flush_block (blk_addr b 0) s = FRet () t" "vpage t = vpage s" "fs_ok t"
      using flush_ok [OF ok, of b 0] d(1) Flush by (auto simp: data_block_def)
    have "blocks t = blocks s" "nblk t = nblk s" "free_bit t = free_bit s"
      by (simp_all add: blocks_def nblk_def free_bit_def t(2) fun_eq_iff)
    with Cons.IH [OF t(3) rest] t(1) show ?thesis by (simp add: Flush)
  qed
qed

text \<open>
  A disk of six blocks: the superblock is cached, blocks 0 to 3 are in use, 4 and 5 are free.
\<close>

definition small_disk :: "nat \<Rightarrow> nat \<Rightarrow> u32" where
  "small_disk b i = (if b = 1 \<and> i = 1 then 6 else if b = 2 \<and> i = 0 then 0x30 else of_nat (1000 * b + i))"

definition small_fs :: fsstate where
  "small_fs = \<lparr>disk = small_disk, disk_bad = (\<lambda>_. False), page = (\<lambda>_. small_disk 1), mapped = (\<lambda>p. p = blk_pg 1),
     dirty = (\<lambda>_. False), super_set = True, bitmap_set = True,
     opentab = (\<lambda>_. \<lparr>o_fileid = 0, o_file = 0, o_mode = 0, o_fd = 0\<rparr>), pg_refs = (\<lambda>_. 0)\<rparr>"

lemma small_fs_view: "vpage small_fs (blk_pg b) = small_disk b"
  by (auto simp: vpage_def small_fs_def on_disk_def blk_pg_def)

lemma small_fs_nblk [simp]: "nblk small_fs = 6"
  by (simp add: nblk_def small_fs_view small_disk_def)

lemma small_fs_free: "b < 32 \<Longrightarrow> free_bit small_fs b \<longleftrightarrow> b = 4 \<or> b = 5"
proof -
  assume "b < 32"
  then have "bm_blk b = 2" "bm_wd b = 0" "b mod 32 = b" by (simp_all add: bm_blk_def bm_wd_def)
  moreover have "\<forall>b \<in> set [0..<32]. bit (0x30 :: u32) b \<longleftrightarrow> b = 4 \<or> b = 5" by code_simp
  ultimately show ?thesis using \<open>b < 32\<close> by (simp add: free_bit_def small_fs_view small_disk_def)
qed

lemma small_fs_ok: "fs_ok small_fs"
  unfolding fs_ok_def
proof (intro conjI allI impI)
  have e: "bm_end 6 = 3" by (simp add: bm_end_def)
  show "bm_end (nblk small_fs) \<le> nblk small_fs" by (simp add: e)
  show "\<not> free_bit small_fs b" if "b < bm_end (nblk small_fs)" for b
    using that small_fs_free [of b] by (simp add: e)
  show "nblk small_fs \<le> MAXBLK" by (simp add: MAXBLK_def)
qed (auto simp: small_fs_def blk_pg_def)



section \<open>Durability\<close>

lemma fs_sync_loop_ok:
  assumes "fs_ok s" "0 < i" "i + n = nblk s"
  shows "\<exists>t. fs_sync_loop i n s = FRet () t \<and> fs_ok t \<and> vpage t = vpage s \<and> evolves s t
    \<and> (\<forall>b. disk t b = (if i \<le> b \<and> b < nblk s then blocks s b else disk s b))"
  using assms
proof (induction n arbitrary: i s)
  case 0
  then show ?case by auto
next
  case (Suc n)
  then have i: "i < nblk s" by simp
  obtain u where u: "flush_block (blk_addr i 0) s = FRet () u" "vpage u = vpage s" "evolves s u" "fs_ok u"
    "disk u i = vpage s (blk_pg i)" "\<And>c. c \<noteq> i \<Longrightarrow> disk u c = disk s c"
    using flush_ok [OF Suc.prems(1) i, of 0] by auto
  have n: "nblk u = nblk s" by (simp add: nblk_def u(2))
  obtain t where t: "fs_sync_loop (Suc i) n u = FRet () t" "fs_ok t" "vpage t = vpage u" "evolves u t"
    "\<And>b. disk t b = (if Suc i \<le> b \<and> b < nblk s then blocks u b else disk u b)"
    using Suc.IH [OF u(4), of "Suc i"] Suc.prems(3) n by auto
  have "disk t b = (if i \<le> b \<and> b < nblk s then blocks s b else disk s b)" for b
    using t(5) [of b] u(5,6) i by (cases "b = i") (auto simp: blocks_def u(2))
  then show ?case
    using t u diskaddr_ok [OF Suc.prems(1,2) i] evolves_trans [OF u(3) t(4)] by auto
qed

text \<open>
  \<open>fs_sync\<close> makes the file system durable (C19). It succeeds, does not change what the server sees, and
  afterwards every block of the disk but the boot block holds what the server sees.
\<close>

theorem fs_sync_durable:
  assumes "fs_ok s"
  shows "\<exists>t. fs_sync s = FRet () t \<and> fs_ok t \<and> blocks t = blocks s \<and>
    (\<forall>b. 1 \<le> b \<and> b < nblk s \<longrightarrow> disk t b = blocks s b)"
proof -
  have "1 + (nblk s - 1) = nblk s" using three_blocks [OF assms] fs_okD(5) [OF assms] by simp
  moreover have "unat (of_nat (nblk s) :: u32) = nblk s"
    using fs_okD(4) [OF assms] by (simp add: MAXBLK_def unat_of_nat take_bit_nat_eq_self)
  ultimately show ?thesis
    using fs_sync_loop_ok [OF assms, of 1 "nblk s - 1"] super_nblocks_ok [OF assms]
    by (auto simp: fs_sync_def blocks_def fun_eq_iff)
qed

theorem fs_sync_durable_witness:
  "\<exists>t u. cache_run [Store 3 1 7] small_fs = FRet [] t \<and> fs_sync t = FRet () u \<and> disk u 3 1 = 7"
proof -
  have "data_block small_fs 3" using small_fs_free [of 3] by (simp add: data_block_def bm_end_def)
  then obtain t where t: "cache_run [Store 3 1 7] small_fs = FRet [] t" "fs_ok t"
    "blocks t = (blocks small_fs)(3 := (blocks small_fs 3)(1 := 7))"
    using cache_run_ok [OF small_fs_ok, of "[Store 3 1 7]"] by (auto simp: fun_upd_def)
  have "blocks small_fs 1 1 = 6" by (simp add: blocks_def small_fs_view small_disk_def)
  then have "nblk t = 6" using t(3) by (simp add: nblk_def blocks_def fun_eq_iff)
  then show ?thesis using fs_sync_durable [OF t(2)] t by auto
qed

section \<open>The free-block bitmap\<close>

lemma bitmap_word_addr:
  assumes "b < MAXBLK"
  shows "bitmap_word (of_nat b) = blk_addr (bm_blk b) (bm_wd b * 4)" "unat (of_nat b mod 32 :: u32) = b mod 32"
proof -
  have u: "unat (of_nat b :: u32) = b" using assms by (simp add: MAXBLK_def unat_of_nat take_bit_nat_eq_self)
  then have "(of_nat b :: u32) div 32 = of_nat (b div 32)" "unat (of_nat b mod 32 :: u32) = b mod 32"
    using assms
    by (simp_all add: word_unat_eq_iff unat_div unat_mod MAXBLK_def unat_of_nat take_bit_nat_eq_self less_mult_imp_div_less)
  then show "bitmap_word (of_nat b) = blk_addr (bm_blk b) (bm_wd b * 4)" "unat (of_nat b mod 32 :: u32) = b mod 32"
    by (simp_all add: bitmap_word_def bm_addr)
qed

lemma bitmap_access:
  assumes "fs_ok s" "b < nblk s"
  shows "va_pg (blk_addr (bm_blk b) (bm_wd b * 4)) = blk_pg (bm_blk b)"
    "va_wd (blk_addr (bm_blk b) (bm_wd b * 4)) = bm_wd b" "usable_pg s (blk_pg (bm_blk b))" "b < MAXBLK"
proof -
  note B = bm_blk_bounds [OF assms]
  show "va_pg (blk_addr (bm_blk b) (bm_wd b * 4)) = blk_pg (bm_blk b)"
    "va_wd (blk_addr (bm_blk b) (bm_wd b * 4)) = bm_wd b"
    using blk_addr_parts [OF B(3), of "bm_wd b * 4"] B(4) by simp_all
  show "usable_pg s (blk_pg (bm_blk b))" using B(2) fs_okD(7) [OF assms(1) B(1)] by (auto simp: usable_pg_def)
  show "b < MAXBLK" using assms fs_okD(4) [OF assms(1)] by simp
qed

lemma bitmap_rd:
  assumes "fs_ok s" "b < nblk s"
  obtains t where "rd32 (bitmap_word (of_nat b)) s = FRet (blocks s (bm_blk b) (bm_wd b)) t" "loaded s t"
proof -
  note A = bitmap_access [OF assms]
  obtain t where "rd32 (blk_addr (bm_blk b) (bm_wd b * 4)) s = FRet (vpage s (blk_pg (bm_blk b)) (bm_wd b)) t" "loaded s t"
    using rd32_ok [OF assms(1), of "blk_addr (bm_blk b) (bm_wd b * 4)"] A by auto
  then show thesis using that [of t] bitmap_word_addr(1) [OF A(4)] by (simp add: blocks_def)
qed

lemma block_is_free_ok:
  assumes "fs_ok s" "b < nblk s"
  obtains t where "block_is_free (of_nat b) s = FRet (free_bit s b) t" "loaded s t"
proof -
  note A = bitmap_access [OF assms]
  obtain t where t: "rd32 (bitmap_word (of_nat b)) s = FRet (blocks s (bm_blk b) (bm_wd b)) t" "loaded s t"
    by (rule bitmap_rd [OF assms])
  have "block_is_free (of_nat b) s = FRet (free_bit s b) t"
    using t(1) super_nblocks_ok [OF assms(1)] fs_okD(1) [OF assms(1)] blk_less_iff [OF assms(1) A(4)] assms(2)
      bitmap_word_addr(2) [OF A(4)]
    by (simp add: block_is_free_def free_bit_def blocks_def bit_iff_and_push_bit_not_eq_0)
  then show thesis using that t(2) by blast
qed

lemma bm_inj:
  assumes "bm_blk c = bm_blk b" "bm_wd c = bm_wd b" "c mod 32 = b mod 32"
  shows "c = b"
proof -
  have e: "x div 32 = x div 32768 * 1024 + bm_wd x" for x
    using div_mult_mod_eq [of "x div 32" 1024] by (simp add: bm_wd_def div_mult2_eq [symmetric])
  have "c div 32 = b div 32" using assms(1,2) e [of c] e [of b] by (simp add: bm_blk_def)
  then show ?thesis using assms(3) by (metis div_mult_mod_eq)
qed

text \<open>Changing the bit of one block.\<close>

lemma bitmap_stored:
  assumes st: "stored (blk_pg (bm_blk b)) (bm_wd b) w s t" and ok: "fs_ok s" and b: "b < nblk s"
    and w: "\<And>j. j < 32 \<Longrightarrow> bit w j \<longleftrightarrow> (if j = b mod 32 then f else bit (blocks s (bm_blk b) (bm_wd b)) j)"
    and f: "f \<Longrightarrow> bm_end (nblk s) \<le> b"
  shows "nblk t = nblk s" "free_bit t c \<longleftrightarrow> (if c = b then f else free_bit s c)" "fs_ok t"
    "p \<noteq> blk_pg (bm_blk b) \<Longrightarrow> vpage t p = vpage s p"
proof -
  note V = stored_view [OF st]
  show "vpage t p = vpage s p" if "p \<noteq> blk_pg (bm_blk b)" for p
    using that V(1) by simp
  show n: "nblk t = nblk s" using V(1) by (simp add: nblk_def blk_pg_def bm_blk_def)
  show fb: "free_bit t c \<longleftrightarrow> (if c = b then f else free_bit s c)" for c
  proof (cases "bm_blk c = bm_blk b \<and> bm_wd c = bm_wd b")
    case True
    then have "c = b \<longleftrightarrow> c mod 32 = b mod 32" using bm_inj by blast
    then show ?thesis using True V(1) w [of "c mod 32"] by (auto simp: free_bit_def blocks_def)
  next
    case False
    then have "vpage t (blk_pg (bm_blk c)) (bm_wd c) = vpage s (blk_pg (bm_blk c)) (bm_wd c)"
      using V(1) by (auto simp: blk_pg_def)
    then show ?thesis using False by (auto simp: free_bit_def)
  qed
  show "fs_ok t"
    using ok V(2) n fb f stored_clean [OF st ok] by (auto simp: fs_ok_def evolves_def)
qed

text \<open>What \<open>alloc_block\<close> does when it looks at the blocks from \<open>i\<close> on.\<close>

definition alloc_result :: "nat \<Rightarrow> fsstate \<Rightarrow> int \<Rightarrow> fsstate \<Rightarrow> bool" where
  "alloc_result i s r t \<longleftrightarrow>
     fs_ok t \<and> nblk t = nblk s \<and> evolves s t \<and> (\<forall>c. r \<noteq> int c \<longrightarrow> disk t c = disk s c) \<and>
     (r = - E_NO_DISK \<and> (\<forall>c. i \<le> c \<and> c < nblk s \<longrightarrow> \<not> free_bit s c) \<and> vpage t = vpage s \<or>
      (\<exists>b. i \<le> b \<and> b < nblk s \<and> r = int b \<and> free_bit s b \<and> (\<forall>c. i \<le> c \<and> c < b \<longrightarrow> \<not> free_bit s c)
         \<and> (\<forall>c. free_bit t c \<longleftrightarrow> free_bit s c \<and> c \<noteq> b) \<and> (\<forall>p. p \<noteq> blk_pg (bm_blk b) \<longrightarrow> vpage t p = vpage s p)))"

lemma alloc_found:
  assumes ok: "fs_ok s" and i: "i < nblk s" "free_bit s i"
  shows "\<exists>t. fbind (rd32 (bitmap_word (of_nat i)) s) (\<lambda>w s.
       fbind (wr32 (bitmap_word (of_nat i)) (w AND NOT (push_bit (i mod 32) 1)) s) (\<lambda>_ s.
       fbind (diskaddr (of_nat i) s) (\<lambda>a s.
       fbind (flush_block a s) (\<lambda>_ s. FRet (int i) s)))) = FRet (int i) t \<and> alloc_result i s (int i) t"
proof -
  note A = bitmap_access [OF ok i(1)]
  have w: "bitmap_word (of_nat i) = blk_addr (bm_blk i) (bm_wd i * 4)" by (rule bitmap_word_addr [OF A(4)])
  have pos: "bm_end (nblk s) \<le> i" using i fs_okD(7) [OF ok, of i] by (meson not_less)
  let ?w = "blocks s (bm_blk i) (bm_wd i)"
  obtain s1 where s1: "rd32 (bitmap_word (of_nat i)) s = FRet ?w s1" "loaded s s1"
    by (rule bitmap_rd [OF ok i(1)])
  note L = loaded_view [OF s1(2)] and ok1 = loaded_ok [OF s1(2) ok]
  obtain s2 where s2: "wr32 (bitmap_word (of_nat i)) (?w AND NOT (push_bit (i mod 32) 1)) s1 = FRet () s2"
    "stored (blk_pg (bm_blk i)) (bm_wd i) (?w AND NOT (push_bit (i mod 32) 1)) s1 s2"
    using wr32_ok [OF ok1, of "blk_addr (bm_blk i) (bm_wd i * 4)"] A loaded_usable [OF s1(2)] by (auto simp: w)
  have i1: "i < nblk s1" using i L by simp
  have bits: "bit (?w AND NOT (push_bit (i mod 32) 1)) j \<longleftrightarrow>
      (if j = i mod 32 then False else bit (blocks s1 (bm_blk i) (bm_wd i)) j)" if "j < 32" for j
    using that by (auto simp: bit_simps blocks_def L(1))
  note S = bitmap_stored [OF s2(2) ok1 i1 bits]
  have i2: "0 < i" "i < nblk s2" using pos three_blocks [OF ok] S(1) i1 by auto
  obtain t where t: "flush_block (blk_addr i 0) s2 = FRet () t" "vpage t = vpage s2" "evolves s2 t" "fs_ok t"
    "\<And>c. c \<noteq> i \<Longrightarrow> disk t c = disk s2 c"
    using flush_ok [OF S(3) i2(2), of 0] by auto
  have d: "disk s2 = disk s" using s2(2) loaded_fields(1) [OF s1(2)] by (auto simp: stored_def loaded_fields)
  have "evolves s t"
    using loaded_evolves [OF s1(2)] stored_view(2) [OF s2(2)] t(3) evolves_trans by blast
  then have "alloc_result i s (int i) t"
    using t S(1,2,4) i L d by (auto simp: alloc_result_def nblk_def free_bit_def)
  then show ?thesis using s1(1) s2(1) diskaddr_ok [OF S(3) i2] t(1) by auto
qed

lemma alloc_result_loaded:
  assumes "loaded s u" "\<not> free_bit s i" "alloc_result (Suc i) u r t"
  shows "alloc_result i s r t"
proof -
  have le: "i \<le> c \<longleftrightarrow> c = i \<or> Suc i \<le> c" for c by auto
  show ?thesis
    using assms(3) assms(2) loaded_view [OF assms(1)] loaded_fields(1) [OF assms(1)]
      evolves_trans [OF loaded_evolves [OF assms(1)], of t]
    unfolding alloc_result_def le by (auto 4 3)
qed

lemma alloc_block_loop_ok:
  assumes "fs_ok s" "i + n = nblk s"
  shows "\<exists>r t. alloc_block_loop i n s = FRet r t \<and> alloc_result i s r t"
  using assms
proof (induction n arbitrary: i s)
  case 0
  then show ?case by (auto simp: alloc_result_def)
next
  case (Suc n)
  then have i: "i < nblk s" by simp
  obtain u where u: "block_is_free (of_nat i) s = FRet (free_bit s i) u" "loaded s u"
    by (rule block_is_free_ok [OF Suc.prems(1) i])
  note L = loaded_view [OF u(2)] and ok = loaded_ok [OF u(2) Suc.prems(1)]
  show ?case
  proof (cases "free_bit s i")
    case True
    then obtain t where "alloc_block_loop i (Suc n) s = FRet (int i) t" "alloc_result i u (int i) t"
      using alloc_found [OF ok, of i] i L u(1) by auto
    moreover from this(2) have "alloc_result i s (int i) t"
      using L loaded_fields(1) [OF u(2)] evolves_trans [OF loaded_evolves [OF u(2)], of t] by (simp add: alloc_result_def)
    ultimately show ?thesis by blast
  next
    case False
    then show ?thesis
      using Suc.IH [OF ok, of "Suc i"] Suc.prems(2) L u alloc_result_loaded [OF u(2) False] by auto
  qed
qed

lemma alloc_block_ok: "fs_ok s \<Longrightarrow> \<exists>r t. alloc_block s = FRet r t \<and> alloc_result 0 s r t"
proof -
  assume ok: "fs_ok s"
  have "unat (of_nat (nblk s) :: u32) = nblk s"
    using fs_okD(4) [OF ok] by (simp add: MAXBLK_def unat_of_nat take_bit_nat_eq_self)
  then show ?thesis using alloc_block_loop_ok [OF ok, of 0 "nblk s"] super_nblocks_ok [OF ok] by (simp add: alloc_block_def)
qed

lemma free_block_ok:
  assumes ok: "fs_ok s" and b: "data_block s b"
  shows "\<exists>t. free_block (of_nat b) s = FRet () t \<and> fs_ok t \<and> nblk t = nblk s \<and> evolves s t
    \<and> (\<forall>c. free_bit t c \<longleftrightarrow> free_bit s c \<or> c = b) \<and> (\<forall>p. p \<noteq> blk_pg (bm_blk b) \<longrightarrow> vpage t p = vpage s p)"
proof -
  have lt: "b < nblk s" "bm_end (nblk s) \<le> b" using b by (simp_all add: data_block_def)
  note A = bitmap_access [OF ok lt(1)]
  have w: "bitmap_word (of_nat b) = blk_addr (bm_blk b) (bm_wd b * 4)" "unat (of_nat b mod 32 :: u32) = b mod 32"
    by (rule bitmap_word_addr [OF A(4)])+
  let ?w = "blocks s (bm_blk b) (bm_wd b)"
  obtain s1 where s1: "rd32 (bitmap_word (of_nat b)) s = FRet ?w s1" "loaded s s1"
    by (rule bitmap_rd [OF ok lt(1)])
  note L = loaded_view [OF s1(2)] and ok1 = loaded_ok [OF s1(2) ok]
  obtain t where t: "wr32 (bitmap_word (of_nat b)) (?w OR push_bit (b mod 32) 1) s1 = FRet () t"
    "stored (blk_pg (bm_blk b)) (bm_wd b) (?w OR push_bit (b mod 32) 1) s1 t"
    using wr32_ok [OF ok1, of "blk_addr (bm_blk b) (bm_wd b * 4)"] A loaded_usable [OF s1(2)] by (auto simp: w)
  have b1: "b < nblk s1" using lt L by simp
  have bits: "bit (?w OR push_bit (b mod 32) 1) j \<longleftrightarrow>
      (if j = b mod 32 then True else bit (blocks s1 (bm_blk b) (bm_wd b)) j)" if "j < 32" for j
    using that by (auto simp: bit_simps blocks_def L(1))
  note S = bitmap_stored [OF t(2) ok1 b1 bits]
  have "(of_nat b :: u32) \<noteq> 0"
    using A(4) data_block_page(4) [OF ok b] by (simp add: MAXBLK_def word_unat_eq_iff unat_of_nat take_bit_nat_eq_self)
  then have "free_block (of_nat b) s = FRet () t" using s1(1) t(1) by (simp add: free_block_def w(2))
  moreover have "evolves s t" using loaded_evolves [OF s1(2)] stored_view(2) [OF t(2)] evolves_trans by blast
  ultimately show ?thesis using S lt L by auto
qed

text \<open>
  Disk blocks are allocated correctly (C20). \<open>alloc_block\<close> returns the first free block, marks it in use,
  and changes nothing but its bit in the bitmap; only when no block is free it returns
  -E_NO_DISK, and then nothing changes. A block that is given out is never a reserved one.
\<close>

theorem alloc_block_correct:
  assumes "fs_ok s"
  shows "\<exists>r t. alloc_block s = FRet r t \<and> fs_ok t \<and> nblk t = nblk s \<and>
    (if \<exists>b < nblk s. free_bit s b
     then \<exists>b. r = int b \<and> free_bit s b \<and> (\<forall>c < b. \<not> free_bit s c) \<and> data_block t b \<and>
       (\<forall>c. free_bit t c \<longleftrightarrow> free_bit s c \<and> c \<noteq> b) \<and> (\<forall>c. c \<noteq> bm_blk b \<longrightarrow> blocks t c = blocks s c)
     else r = - E_NO_DISK \<and> blocks t = blocks s)"
proof -
  obtain r t where t: "alloc_block s = FRet r t" "alloc_result 0 s r t" using alloc_block_ok [OF assms] by blast
  have "bm_end (nblk s) \<le> b" if "free_bit s b" for b using that fs_okD(7) [OF assms, of b] by (meson not_less)
  then show ?thesis using t unfolding alloc_result_def data_block_def blocks_def
    by (intro exI [of _ r] exI [of _ t]) (auto simp: fun_eq_iff blk_pg_def)
qed

theorem alloc_block_correct_witness: "\<exists>t. alloc_block small_fs = FRet 4 t \<and> data_block t 4"
proof -
  have "\<exists>b < nblk small_fs. free_bit small_fs b" using small_fs_free [of 4] by (intro exI [of _ 4]) simp
  then obtain b t where b: "alloc_block small_fs = FRet (int b) t" "free_bit small_fs b"
    "\<forall>c < b. \<not> free_bit small_fs c" "data_block t b" "nblk t = 6"
    using alloc_block_correct [OF small_fs_ok] by auto
  have "b < 32" using b(4,5) by (simp add: data_block_def)
  then have "b = 4" using b(2,3) small_fs_free [of b] small_fs_free [of 4] by auto
  then show ?thesis using b by auto
qed

text \<open>
  The bitmap on the disk lags behind. When memory and disk agree, as after \<open>fs_sync\<close>, and a block is
  free, the block that \<open>alloc_block\<close> gives out is still marked free on the disk afterwards:
  the function flushes the new block itself instead of the bitmap.
\<close>

theorem alloc_block_bitmap_lags:
  assumes "fs_ok s" and "\<exists>b < nblk s. free_bit s b" and "\<forall>b. 1 \<le> b \<and> b < nblk s \<longrightarrow> disk s b = blocks s b"
  shows "\<exists>b t. alloc_block s = FRet (int b) t \<and> \<not> free_bit t b \<and> bit (disk t (bm_blk b) (bm_wd b)) (b mod 32)"
proof -
  obtain r t where t: "alloc_block s = FRet r t" "alloc_result 0 s r t" using alloc_block_ok [OF assms(1)] by blast
  then obtain b where b: "r = int b" "b < nblk s" "free_bit s b" "\<not> free_bit t b"
    and d: "\<And>c. c \<noteq> b \<Longrightarrow> disk t c = disk s c"
    using assms(2) by (auto simp: alloc_result_def)
  note B = bm_blk_bounds [OF assms(1) b(2)]
  have "bm_blk b \<noteq> b" using B(1) b(3) fs_okD(7) [OF assms(1), of b] by auto
  then have "disk t (bm_blk b) = blocks s (bm_blk b)"
    using d assms(3) B(2) by (simp add: bm_blk_def)
  then show ?thesis using t(1) b by (auto simp: free_bit_def blocks_def)
qed

theorem alloc_block_bitmap_lags_witness: "\<exists>t. alloc_block small_fs = FRet 4 t \<and> bit (disk t 2 0) 4"
proof -
  have d: "\<forall>b. 1 \<le> b \<and> b < nblk small_fs \<longrightarrow> disk small_fs b = blocks small_fs b"
    by (simp add: blocks_def small_fs_view) (simp add: small_fs_def)
  have "\<exists>b < nblk small_fs. free_bit small_fs b" using small_fs_free [of 4] by (intro exI [of _ 4]) simp
  from alloc_block_bitmap_lags [OF small_fs_ok this d] obtain b t where
    b: "alloc_block small_fs = FRet (int b) t" "bit (disk t (bm_blk b) (bm_wd b)) (b mod 32)" by blast
  obtain r u where u: "alloc_block small_fs = FRet r u" "alloc_result 0 small_fs r u" using alloc_block_ok [OF small_fs_ok] by blast
  have "b < 6" "free_bit small_fs b" "\<forall>c < b. \<not> free_bit small_fs c"
    using b(1) u \<open>\<exists>b < nblk small_fs. free_bit small_fs b\<close> by (auto simp: alloc_result_def)
  then have "b = 4" using small_fs_free [of b] small_fs_free [of 4] by auto
  then show ?thesis using b by (auto simp: bm_blk_def bm_wd_def)
qed

section \<open>The allocator contract\<close>

text \<open>The server's results seen as success or failure, and a negative number as failure.\<close>

definition alloc_blk :: "fsstate \<Rightarrow> (nat option \<times> fsstate) option" where
  "alloc_blk s = (case alloc_block s of FRet r t \<Rightarrow> Some (if r < 0 then None else Some (nat r), t) | FPanic m \<Rightarrow> None)"

definition release_blk :: "nat \<Rightarrow> fsstate \<Rightarrow> fsstate option" where
  "release_blk b s = (case free_block (of_nat b) s of FRet _ t \<Rightarrow> Some t | FPanic m \<Rightarrow> None)"

definition free_blocks :: "fsstate \<Rightarrow> nat set" where
  "free_blocks s = {b. b < nblk s \<and> free_bit s b}"

interpretation blks: allocator alloc_blk release_blk free_blocks "\<lambda>b s. data_block s b" fs_ok
proof unfold_locales
  fix s assume ok: "fs_ok s"
  show "finite (free_blocks s)" by (simp add: free_blocks_def)
  obtain r t where t: "alloc_block s = FRet r t" "alloc_result 0 s r t" using alloc_block_ok [OF ok] by blast
  have pos: "bm_end (nblk s) \<le> b" if "free_bit s b" for b using that fs_okD(7) [OF ok, of b] by (meson not_less)
  {
    assume "free_blocks s = {}"
    then show "\<exists>s'. alloc_blk s = Some (None, s') \<and> free_blocks s' = {} \<and> fs_ok s'
        \<and> (\<forall>q. data_block s q \<longrightarrow> data_block s' q)"
      using t by (auto simp: alloc_blk_def alloc_result_def free_blocks_def data_block_def free_bit_def E_NO_DISK_def)
  }
  {
    assume "free_blocks s \<noteq> {}"
    then obtain b where "r = int b" "b < nblk s" "free_bit s b" "\<And>c. free_bit t c \<longleftrightarrow> free_bit s c \<and> c \<noteq> b"
      "fs_ok t" "nblk t = nblk s"
      using t(2) by (auto simp: alloc_result_def free_blocks_def)
    then show "\<exists>r s'. alloc_blk s = Some (Some r, s') \<and> r \<in> free_blocks s \<and> free_blocks s' = free_blocks s - {r}
        \<and> fs_ok s' \<and> data_block s' r \<and> (\<forall>q. data_block s q \<longrightarrow> data_block s' q)"
      using t(1) pos by (intro exI [of _ b] exI [of _ t]) (auto simp: alloc_blk_def free_blocks_def data_block_def)
  }
  fix b assume b: "data_block s b"
  then show "b \<notin> free_blocks s" by (simp add: free_blocks_def data_block_def)
  show "\<exists>s'. release_blk b s = Some s' \<and> free_blocks s' = insert b (free_blocks s) \<and> fs_ok s'
      \<and> (\<forall>q. q \<noteq> b \<longrightarrow> data_block s q \<longrightarrow> data_block s' q)"
    using free_block_ok [OF ok b] b by (auto simp: release_blk_def free_blocks_def data_block_def)
qed

text \<open>
  No disk block leaks and none is given out twice (C21). From every state of the running server exactly as
  many allocations succeed as blocks are free, they yield different free blocks, and freeing
  these blocks gives back the same set of free blocks.
\<close>

theorem blocks_do_not_leak:
  assumes "fs_ok s"
  shows "(k \<le> card (free_blocks s) \<longrightarrow>
      (\<exists>bs t u. alloc_many alloc_blk k s = Some (bs, t) \<and> length bs = k \<and> distinct bs \<and> set bs \<subseteq> free_blocks s \<and>
         release_all release_blk bs t = Some u \<and> free_blocks u = free_blocks s \<and> fs_ok u)) \<and>
    (card (free_blocks s) < k \<longrightarrow> alloc_many alloc_blk k s = None)"
  using blks.alloc_release_restores [OF assms, of k] blks.alloc_many_ok [OF assms, of k]
    blks.alloc_many_exhausts [OF assms, of k] by fastforce

theorem blocks_do_not_leak_witness:
  "\<exists>bs t u. alloc_many alloc_blk 2 small_fs = Some (bs, t) \<and> set bs = {4, 5} \<and>
     release_all release_blk bs t = Some u \<and> free_blocks u = {4, 5}"
proof -
  have f: "free_blocks small_fs = {4, 5}" using small_fs_free by (auto simp: free_blocks_def)
  obtain bs t u where b: "alloc_many alloc_blk 2 small_fs = Some (bs, t)" "length bs = 2" "distinct bs"
    "set bs \<subseteq> {4, 5}" "release_all release_blk bs t = Some u" "free_blocks u = {4, 5}"
    using blocks_do_not_leak [OF small_fs_ok, of 2] by (auto simp: f)
  have "card (set bs) = 2" using b(2,3) by (simp add: distinct_card)
  then have "set bs = {4, 5}" using b(4) card_subset_eq [of "{4, 5}" "set bs"] by simp
  then show ?thesis using b by blast
qed

end
