(* ===== verification/Fs_File.thy ===== *)
theory Fs_File
  imports Fs_Spec
begin

text \<open>
  Reading and writing of files: what \<open>file_read\<close> and \<open>file_write\<close> do to the bytes of a file whose
  blocks are allocated, and what happens when the disk is full.
\<close>

section \<open>Words and bytes of the server's memory\<close>

definition vword :: "fsstate \<Rightarrow> u32 \<Rightarrow> u32" where
  "vword s a = vpage s (va_pg a) (va_wd a)"

definition vbyte :: "fsstate \<Rightarrow> u32 \<Rightarrow> u8" where
  "vbyte s a = get_byte (vword s a) (unat a mod 4)"

text \<open>\<open>t\<close> agrees with \<open>s\<close> on all pages outside \<open>P\<close>, and on the metadata.\<close>

definition kept :: "nat set \<Rightarrow> fsstate \<Rightarrow> fsstate \<Rightarrow> bool" where
  "kept P s t \<longleftrightarrow> fs_ok t \<and> evolves s t \<and> nblk t = nblk s \<and> (\<forall>b < nblk s. free_bit t b \<longleftrightarrow> free_bit s b)
     \<and> (\<forall>p. p \<notin> P \<longrightarrow> vpage t p = vpage s p)"

lemma kept_refl: "fs_ok s \<Longrightarrow> kept P s s"
  by (simp add: kept_def)

lemma kept_trans: "kept P s t \<Longrightarrow> kept P t u \<Longrightarrow> kept P s u"
  using evolves_trans by (auto simp: kept_def)

lemma kept_mono: "kept P s t \<Longrightarrow> P \<subseteq> Q \<Longrightarrow> kept Q s t"
  by (auto simp: kept_def)

lemma keptD:
  assumes "kept P s t"
  shows "fs_ok t" "nblk t = nblk s" "meta_page t p \<longleftrightarrow> meta_page s p" "data_block t b \<longleftrightarrow> data_block s b"
    "usable_pg s p \<Longrightarrow> usable_pg t p" "p \<notin> P \<Longrightarrow> vpage t p = vpage s p" "evolves s t"
    and "va_pg a \<notin> P \<Longrightarrow> vword t a = vword s a" "va_pg a \<notin> P \<Longrightarrow> vbyte t a = vbyte s a"
  using assms by (auto simp: kept_def meta_page_def data_block_def usable_pg_def evolves_def vword_def vbyte_def)

lemma loaded_kept: "fs_ok s \<Longrightarrow> loaded s t \<Longrightarrow> kept {} s t"
  by (simp add: kept_def loaded_ok loaded_evolves loaded_view)

lemma same_byte:
  assumes "va_pg x = va_pg a" "va_wd x = va_wd a" "unat x mod 4 = unat a mod 4"
  shows "x = a"
proof -
  have e: "unat y = va_pg y * 4096 + va_wd y * 4 + unat y mod 4" for y :: u32
  proof -
    have "unat y mod 4096 mod 4 = unat y mod 4" by (simp add: mod_mod_cancel)
    then have "unat y mod 4096 = va_wd y * 4 + unat y mod 4"
      using div_mult_mod_eq [of "unat y mod 4096" 4] by (simp add: va_wd_def unat_PGOFF)
    then show ?thesis using div_mult_mod_eq [of "unat y" 4096] by (simp add: va_pg_def unat_PGNUM)
  qed
  have "unat x = unat a" using e [of x] e [of a] assms by metis
  then show ?thesis by (simp add: word_unat_eq_iff)
qed

lemma rd8_ok:
  assumes "fs_ok s" "usable_pg s (va_pg a)"
  obtains t where "rd8 a s = FRet (vbyte s a) t" "loaded s t"
proof -
  obtain t where "rd32 a s = FRet (vpage s (va_pg a) (va_wd a)) t" "loaded s t" by (rule rd32_ok [OF assms])
  then show thesis using that [of t] by (simp add: rd8_def vbyte_def vword_def)
qed

lemma stored_kept:
  assumes "stored p i v s t" "fs_ok s" "\<not> meta_page s p"
  shows "kept {p} s t"
  using stored_ok [OF assms] stored_view [OF assms(1)] by (auto simp: kept_def)

lemma wr32_kept:
  assumes "fs_ok s" "usable_pg s (va_pg a)" "\<not> meta_page s (va_pg a)"
  obtains t where "wr32 a v s = FRet () t" "kept {va_pg a} s t" "vword t a = v"
    "\<And>x. va_pg x \<noteq> va_pg a \<or> va_wd x \<noteq> va_wd a \<Longrightarrow> vword t x = vword s x"
proof -
  obtain t where t: "wr32 a v s = FRet () t" "stored (va_pg a) (va_wd a) v s t" by (rule wr32_ok [OF assms(1,2)])
  show thesis
    by (rule that [OF t(1) stored_kept [OF t(2) assms(1,3)]]) (auto simp: vword_def stored_view(1) [OF t(2)])
qed

lemma wr8_ok:
  assumes "fs_ok s" "usable_pg s (va_pg a)" "\<not> meta_page s (va_pg a)"
  obtains t where "wr8 a b s = FRet () t" "kept {va_pg a} s t" "\<And>x. vbyte t x = (if x = a then b else vbyte s x)"
proof -
  obtain u where u: "rd32 a s = FRet (vword s a) u" "loaded s u"
    using rd32_ok [OF assms(1,2)] by (metis vword_def)
  note K = loaded_kept [OF assms(1) u(2)]
  obtain t where t: "wr32 a (put_byte (vword s a) (unat a mod 4) b) u = FRet () t" "kept {va_pg a} u t"
    "vword t a = put_byte (vword s a) (unat a mod 4) b"
    "\<And>x. va_pg x \<noteq> va_pg a \<or> va_wd x \<noteq> va_wd a \<Longrightarrow> vword t x = vword u x"
    using wr32_kept [of u a] keptD [OF K] assms by metis
  have uw: "vword u x = vword s x" for x using keptD(8) [OF K] by simp
  have "vbyte t x = (if x = a then b else vbyte s x)" for x
  proof (cases "va_pg x = va_pg a \<and> va_wd x = va_wd a")
    case True
    then have "vword t x = vword t a" "vword s x = vword s a" by (simp_all add: vword_def)
    moreover have "x = a \<longleftrightarrow> unat x mod 4 = unat a mod 4" using True same_byte by auto
    ultimately show ?thesis using t(3) by (simp add: vbyte_def get_put_byte)
  next
    case False
    then have "vword t x = vword s x" "x \<noteq> a" using t(4) uw by auto
    then show ?thesis by (simp add: vbyte_def)
  qed
  moreover have "kept {va_pg a} s t" using kept_trans [OF kept_mono [OF K] t(2)] by simp
  ultimately show thesis using that u(1) t(1) by (simp add: wr8_def)
qed

section \<open>Copying\<close>

text \<open>
  A copy of \<open>n\<close> bytes between two ranges that do not overlap. \<open>copied\<close> says what it leaves behind.
\<close>

definition copied :: "u32 \<Rightarrow> u32 \<Rightarrow> nat \<Rightarrow> fsstate \<Rightarrow> fsstate \<Rightarrow> bool" where
  "copied dst src n s t \<longleftrightarrow> kept ((\<lambda>i. va_pg (dst + of_nat i)) ` {..<n}) s t \<and>
     (\<forall>i < n. vbyte t (dst + of_nat i) = vbyte s (src + of_nat i)) \<and>
     (\<forall>x. (\<forall>i < n. x \<noteq> dst + of_nat i) \<longrightarrow> vbyte t x = vbyte s x)"

definition copy_ok :: "u32 \<Rightarrow> u32 \<Rightarrow> nat \<Rightarrow> fsstate \<Rightarrow> bool" where
  "copy_ok dst src n s \<longleftrightarrow> n < 4294967296 \<and>
     (\<forall>i < n. usable_pg s (va_pg (dst + of_nat i)) \<and> \<not> meta_page s (va_pg (dst + of_nat i)) \<and>
        usable_pg s (va_pg (src + of_nat i)) \<and> (\<forall>j < n. dst + of_nat i \<noteq> src + of_nat j))"

lemma copy_byte:
  assumes "fs_ok s" "usable_pg s (va_pg d)" "\<not> meta_page s (va_pg d)" "usable_pg s (va_pg x)"
  obtains t where "fbind (rd8 x s) (\<lambda>b s. wr8 d b s) = FRet () t" "kept {va_pg d} s t"
    "\<And>y. vbyte t y = (if y = d then vbyte s x else vbyte s y)"
proof -
  obtain u where u: "rd8 x s = FRet (vbyte s x) u" "loaded s u" by (rule rd8_ok [OF assms(1,4)])
  note K = loaded_kept [OF assms(1) u(2)]
  obtain t where t: "wr8 d (vbyte s x) u = FRet () t" "kept {va_pg d} u t"
    "\<And>y. vbyte t y = (if y = d then vbyte s x else vbyte u y)"
    using wr8_ok [of u d] keptD [OF K] assms(2,3) by metis
  have "vbyte u y = vbyte s y" for y using keptD(9) [OF K] by simp
  then show thesis using that u(1) t kept_trans [OF kept_mono [OF K] t(2)] by simp
qed

lemma copied_split:
  assumes "kept {va_pg d} s t" "\<And>y. vbyte t y = (if y = d then vbyte s x else vbyte s y)" "copied dst src n t u"
    and "D = insert d ((\<lambda>i. dst + of_nat i) ` {..<n})"
  shows "kept (va_pg ` D) s u" "\<And>y. y \<notin> D \<Longrightarrow> vbyte u y = vbyte s y"
    and "\<And>i. i < n \<Longrightarrow> src + of_nat i \<noteq> d \<Longrightarrow> vbyte u (dst + of_nat i) = vbyte s (src + of_nat i)"
    and "d \<notin> (\<lambda>i. dst + of_nat i) ` {..<n} \<Longrightarrow> vbyte u d = vbyte s x"
proof -
  note C = assms(3) [unfolded copied_def]
  have "kept (va_pg ` D) s t" by (rule kept_mono [OF assms(1)]) (simp add: assms(4))
  moreover have "kept (va_pg ` D) t u" by (rule kept_mono [OF conjunct1 [OF C]]) (auto simp: assms(4))
  ultimately show "kept (va_pg ` D) s u" by (rule kept_trans)
  show "vbyte u y = vbyte s y" if "y \<notin> D" for y
    using that C assms(2) by (auto simp: assms(4))
  show "vbyte u (dst + of_nat i) = vbyte s (src + of_nat i)" if "i < n" "src + of_nat i \<noteq> d" for i
    using that C assms(2) by auto
  show "vbyte u d = vbyte s x" if "d \<notin> (\<lambda>i. dst + of_nat i) ` {..<n}"
    using that C assms(2) by auto
qed

lemma copy_ok_kept:
  assumes "copy_ok dst src n s" "kept P s t"
  shows "copy_ok dst src n t"
  using assms(1) keptD(3,5) [OF assms(2)] by (auto simp: copy_ok_def)

lemma fcopy_ok:
  assumes "fs_ok s" "copy_ok dst src n s"
  shows "\<exists>t. fcopy dst src n s = FRet () t \<and> copied dst src n s t"
  using assms
proof (induction n arbitrary: dst src s)
  case 0
  then show ?case by (simp add: copied_def kept_refl)
next
  case (Suc n)
  have ok: "i < Suc n \<Longrightarrow> usable_pg s (va_pg (dst + of_nat i)) \<and> \<not> meta_page s (va_pg (dst + of_nat i)) \<and>
        usable_pg s (va_pg (src + of_nat i))" "i < Suc n \<Longrightarrow> j < Suc n \<Longrightarrow> dst + of_nat i \<noteq> src + of_nat j" for i j
    using Suc.prems(2) by (auto simp: copy_ok_def)
  obtain t where t: "fbind (rd8 src s) (\<lambda>b s. wr8 dst b s) = FRet () t" "kept {va_pg dst} s t"
    "\<And>y. vbyte t y = (if y = dst then vbyte s src else vbyte s y)"
    using copy_byte [of s dst src] ok(1) [of 0] Suc.prems(1) by auto
  have sh: "a + 1 + of_nat i = a + of_nat (Suc i)" for a :: u32 and i by simp
  have "copy_ok (dst + 1) (src + 1) n s"
    using Suc.prems(2) unfolding copy_ok_def sh by (auto simp del: of_nat_Suc)
  from Suc.IH [OF keptD(1) [OF t(2)] copy_ok_kept [OF this t(2)]] obtain u where
    u: "fcopy (dst + 1) (src + 1) n t = FRet () u" "copied (dst + 1) (src + 1) n t u" by blast
  let ?D = "(\<lambda>i. dst + of_nat i) ` {..<Suc n}"
  have D: "?D = insert dst ((\<lambda>i. dst + 1 + of_nat i) ` {..<n})"
    unfolding lessThan_Suc_eq_insert_0 by (auto simp: image_image simp del: of_nat_Suc simp flip: sh)
  note C = copied_split [OF t(2,3) u(2) D]
  have "n < 4294967295" using Suc.prems(2) by (simp add: copy_ok_def)
  then have new: "dst \<notin> (\<lambda>i. dst + 1 + of_nat i) ` {..<n}"
    using of_nat_inj32 [of _ 0] by (auto simp: sh simp del: of_nat_Suc)
  have "vbyte u (dst + of_nat i) = vbyte s (src + of_nat i)" if "i < Suc n" for i
  proof (cases i)
    case 0
    then show ?thesis using C(4) [OF new] by simp
  next
    case (Suc j)
    then show ?thesis using that C(3) [of j] ok(2) [of 0 i] by (simp add: sh del: of_nat_Suc)
  qed
  then have "copied dst src (Suc n) s u" using C(1,2) by (auto simp: copied_def image_image)
  moreover have "fcopy dst src (Suc n) s = FRet () u"
    using t(1) u(1) by (auto simp: fbind_FRet_iff)
  ultimately show ?case by blast
qed

lemma fcopy_down_ok:
  assumes "fs_ok s" "copy_ok dst src n s"
  shows "\<exists>t. fcopy_down dst src n s = FRet () t \<and> copied dst src n s t"
  using assms
proof (induction n arbitrary: s)
  case 0
  then show ?case by (simp add: copied_def kept_refl)
next
  case (Suc n)
  have ok: "i < Suc n \<Longrightarrow> usable_pg s (va_pg (dst + of_nat i)) \<and> \<not> meta_page s (va_pg (dst + of_nat i)) \<and>
        usable_pg s (va_pg (src + of_nat i))" "i < Suc n \<Longrightarrow> j < Suc n \<Longrightarrow> dst + of_nat i \<noteq> src + of_nat j" for i j
    using Suc.prems(2) by (auto simp: copy_ok_def)
  obtain t where t: "fbind (rd8 (src + of_nat n) s) (\<lambda>b s. wr8 (dst + of_nat n) b s) = FRet () t" "kept {va_pg (dst + of_nat n)} s t"
    "\<And>y. vbyte t y = (if y = dst + of_nat n then vbyte s (src + of_nat n) else vbyte s y)"
    using copy_byte [of s "dst + of_nat n" "src + of_nat n"] ok(1) [of n] Suc.prems(1) by auto
  have "copy_ok dst src n s" using Suc.prems(2) by (auto simp: copy_ok_def)
  from Suc.IH [OF keptD(1) [OF t(2)] copy_ok_kept [OF this t(2)]] obtain u where
    u: "fcopy_down dst src n t = FRet () u" "copied dst src n t u" by blast
  have D: "(\<lambda>i. dst + of_nat i) ` {..<Suc n} = insert (dst + of_nat n) ((\<lambda>i. dst + of_nat i) ` {..<n})"
    by (simp add: lessThan_Suc)
  note C = copied_split [OF t(2,3) u(2) D]
  have "n < 4294967295" using Suc.prems(2) by (simp add: copy_ok_def)
  then have "(of_nat n :: u32) \<noteq> of_nat i" if "i < n" for i using that of_nat_inj32 [of n i] by simp
  then have new: "dst + of_nat n \<notin> (\<lambda>i. dst + of_nat i) ` {..<n}" by auto
  have "vbyte u (dst + of_nat i) = vbyte s (src + of_nat i)" if "i < Suc n" for i
  proof (cases "i = n")
    case True
    then show ?thesis using C(4) [OF new] by simp
  next
    case False
    moreover have "src + of_nat i \<noteq> dst + of_nat n" using that ok(2) [of n i] by simp
    ultimately show ?thesis using that C(3) [of i] by simp
  qed
  then have "copied dst src (Suc n) s u" using C(1,2) by (auto simp: copied_def image_image)
  moreover have "fcopy_down dst src (Suc n) s = FRet () u"
    using t(1) u(1) by (auto simp: fbind_FRet_iff)
  ultimately show ?case by blast
qed

lemma fmemmove_ok:
  assumes "fs_ok s" "copy_ok dst src n s"
  obtains t where "fmemmove dst src n s = FRet () t" "copied dst src n s t"
  using fcopy_ok [OF assms] fcopy_down_ok [OF assms] that unfolding fmemmove_def by metis

section \<open>Positions in a file\<close>

lemma blk_arith:
  assumes "p < 0x80000000"
  shows "sdiv_blk (of_nat p) = of_nat (p div 4096)" "srem_blk (of_nat p) = of_nat (p mod 4096)"
proof -
  have u: "unat (of_nat p :: u32) = p" using assms by (intro unat_of_small) simp
  then have "\<not> sint (of_nat p :: u32) < 0" using assms by (simp add: sint_eq_unat)
  then show "sdiv_blk (of_nat p) = of_nat (p div 4096)" "srem_blk (of_nat p) = of_nat (p mod 4096)"
    using assms u div_le_dividend [of p 4096]
    by (simp_all add: sdiv_blk_def srem_blk_def jos_consts word_unat_eq_iff unat_div unat_mod unat_of_small)
qed

text \<open>The bytes of one step of the loops, from position \<open>p\<close> up to \<open>e\<close>.\<close>

definition step :: "nat \<Rightarrow> nat \<Rightarrow> nat" where "step p e = min (4096 - p mod 4096) (e - p)"

lemma chunk_step:
  assumes "p \<le> e" "e < 0x80000000"
  shows "chunk (of_nat p) (of_nat e) = of_nat (step p e)" "unat (chunk (of_nat p) (of_nat e)) = step p e"
proof -
  define x y where "x = 4096 - p mod 4096" and "y = e - p"
  have "BLKSIZE - srem_blk (of_nat p) = of_nat x"
    using assms blk_arith(2) [of p] by (simp add: x_def jos_consts of_nat_diff less_imp_le)
  moreover have "(of_nat e - of_nat p :: u32) = of_nat y" using assms(1) by (simp add: y_def of_nat_diff)
  moreover have "x < 4294967296" "y < 4294967296" using assms by (simp_all add: x_def y_def)
  then have "(of_nat x :: u32) \<le> of_nat y \<longleftrightarrow> x \<le> y" by (simp add: word_le_nat_alt unat_of_small)
  ultimately show c: "chunk (of_nat p) (of_nat e) = of_nat (step p e)"
    by (simp add: chunk_def step_def min_def flip: x_def y_def)
  have "step p e < 4294967296" using assms by (simp add: step_def)
  then show "unat (chunk (of_nat p) (of_nat e)) = step p e" by (simp add: c unat_of_small)
qed

lemma step_bounds:
  assumes "p < e"
  shows "0 < step p e" "p + step p e \<le> e" "i < step p e \<Longrightarrow> (p + i) div 4096 = p div 4096"
    "i < step p e \<Longrightarrow> (p + i) mod 4096 = p mod 4096 + i"
proof -
  show "0 < step p e" "p + step p e \<le> e" using assms by (auto simp: step_def)
  assume "i < step p e"
  then have lt: "p mod 4096 + i < 4096" by (simp add: step_def less_diff_conv add.commute)
  have e: "p + i = (p mod 4096 + i) + p div 4096 * 4096" using div_mult_mod_eq [of p 4096] by simp
  have "(p mod 4096 + i + q * 4096) div 4096 = q" for q using lt by simp
  then show "(p + i) div 4096 = p div 4096" using e by metis
  show "(p + i) mod 4096 = p mod 4096 + i" unfolding e mod_mult_self1 using lt by simp
qed

section \<open>The blocks of a file\<close>

definition ind_blk :: "fsstate \<Rightarrow> u32 \<Rightarrow> nat" where
  "ind_blk s f = unat (vword s (f_indirect f))"

text \<open>Where the number of file block \<open>i\<close> is stored, and that number.\<close>

definition slot :: "fsstate \<Rightarrow> u32 \<Rightarrow> nat \<Rightarrow> u32" where
  "slot s f i = (if i < 10 then f_direct f (of_nat i) else blk_addr (ind_blk s f) (4 * (i - 10)))"

definition bmap :: "fsstate \<Rightarrow> u32 \<Rightarrow> nat \<Rightarrow> nat" where
  "bmap s f i = unat (vword s (slot s f i))"

text \<open>
  A file whose first \<open>N\<close> blocks are allocated: its \<open>struct File\<close> lies in a data block, and this block,
  the indirect block and the blocks of the file are in use and all different.
\<close>

definition file_ok :: "fsstate \<Rightarrow> u32 \<Rightarrow> nat \<Rightarrow> bool" where
  "file_ok s f N \<longleftrightarrow>
     (\<exists>fb k. f = blk_addr fb (256 * k) \<and> k < 16 \<and> data_block s fb \<and> (\<forall>i < N. bmap s f i \<noteq> fb) \<and>
        (10 < N \<longrightarrow> ind_blk s f \<noteq> fb)) \<and>
     N \<le> 1034 \<and> (10 < N \<longrightarrow> data_block s (ind_blk s f) \<and> (\<forall>i < N. bmap s f i \<noteq> ind_blk s f)) \<and>
     (\<forall>i < N. data_block s (bmap s f i)) \<and> inj_on (bmap s f) {..<N}"

lemma file_okD:
  assumes "file_ok s f N" "fs_ok s"
  obtains fb where "\<forall>k < 256. va_pg (f + of_nat k) = blk_pg fb" "data_block s fb"
    "\<forall>i < N. bmap s f i \<noteq> fb" "10 < N \<longrightarrow> ind_blk s f \<noteq> fb"
proof -
  obtain fb k where f: "f = blk_addr fb (256 * k)" "k < 16" "data_block s fb" "\<And>i. i < N \<Longrightarrow> bmap s f i \<noteq> fb"
    "10 < N \<Longrightarrow> ind_blk s f \<noteq> fb"
    using assms(1) by (auto simp: file_ok_def)
  have "va_pg (f + of_nat j) = blk_pg fb" if "j < 256" for j
    using that f(2) data_block_page(3) [OF assms(2) f(3)] by (simp add: f(1) blk_addr_plus blk_addr_parts)
  then show thesis using that f(3-5) by blast
qed

lemma file_ok_blocks:
  assumes "file_ok s f N"
  shows "N \<le> 1034" "10 < N \<Longrightarrow> data_block s (ind_blk s f)" "i < N \<Longrightarrow> data_block s (bmap s f i)"
    "i < N \<Longrightarrow> j < N \<Longrightarrow> bmap s f i = bmap s f j \<longleftrightarrow> i = j" "i < N \<Longrightarrow> 10 < N \<Longrightarrow> bmap s f i \<noteq> ind_blk s f"
  using assms by (auto simp: file_ok_def inj_on_def)

text \<open>The pages of the metadata of a file.\<close>

definition file_meta :: "fsstate \<Rightarrow> u32 \<Rightarrow> nat \<Rightarrow> nat set" where
  "file_meta s f N = insert (va_pg f) (if 10 < N then {blk_pg (ind_blk s f)} else {})"

lemma slot_page:
  assumes "file_ok s f N" "fs_ok s" "i < N"
  shows "va_pg (slot s f i) \<in> file_meta s f N" "va_pg (f_indirect f) = va_pg f" "va_pg (f_size f) = va_pg f"
    "usable_pg s (va_pg f)" "usable_pg s (va_pg (slot s f i))" "\<not> meta_page s (va_pg f)"
proof -
  obtain fb where fb: "\<forall>k < 256. va_pg (f + of_nat k) = blk_pg fb" "data_block s fb"
    "\<forall>i < N. bmap s f i \<noteq> fb" "10 < N \<longrightarrow> ind_blk s f \<noteq> fb"
    by (rule file_okD [OF assms(1,2)])
  have f: "va_pg f = blk_pg fb" using fb(1) [rule_format, of 0] by simp
  show "va_pg (f_indirect f) = va_pg f" "va_pg (f_size f) = va_pg f"
    using fb(1) [rule_format, of 176] fb(1) [rule_format, of 128] f by (simp_all add: f_indirect_def f_size_def)
  show a: "usable_pg s (va_pg f)" "\<not> meta_page s (va_pg f)" using data_block_page [OF assms(2) fb(2)] f by simp_all
  show m: "va_pg (slot s f i) \<in> file_meta s f N"
  proof (cases "i < 10")
    case True
    then have "f_direct f (of_nat i) = f + of_nat (136 + 4 * i)" by (simp add: f_direct_def)
    then have "va_pg (f_direct f (of_nat i)) = blk_pg fb" using fb(1) [rule_format, of "136 + 4 * i"] True by simp
    then show ?thesis using True f by (simp add: slot_def file_meta_def)
  next
    case False
    then have "data_block s (ind_blk s f)" "i - 10 < 1024" using file_ok_blocks(1,2) [OF assms(1)] assms(3) by auto
    then have "va_pg (slot s f i) = blk_pg (ind_blk s f)"
      using False data_block_page(3) [OF assms(2)] by (simp add: slot_def blk_addr_parts)
    then show ?thesis using False assms(3) by (simp add: file_meta_def)
  qed
  show "usable_pg s (va_pg (slot s f i))"
    using m a(1) file_ok_blocks(2) [OF assms(1)] data_block_page(1) [OF assms(2)]
    by (auto simp: file_meta_def split: if_splits)
qed

lemma file_ok_kept:
  assumes "file_ok s f N" "fs_ok s" "kept P s t" "P \<inter> file_meta s f N = {}"
  shows "file_ok t f N" "i < N \<Longrightarrow> bmap t f i = bmap s f i" "file_meta t f N = file_meta s f N"
proof -
  obtain fb where fb: "\<forall>k < 256. va_pg (f + of_nat k) = blk_pg fb" "data_block s fb"
    "\<forall>i < N. bmap s f i \<noteq> fb" "10 < N \<longrightarrow> ind_blk s f \<noteq> fb"
    by (rule file_okD [OF assms(1,2)])
  have "va_pg (f_indirect f) = va_pg f" using fb(1) [rule_format, of 176] fb(1) [rule_format, of 0] by (simp add: f_indirect_def)
  moreover have "va_pg f \<notin> P" using assms(4) by (auto simp: file_meta_def)
  ultimately have ind: "ind_blk t f = ind_blk s f" using keptD(8) [OF assms(3), of "f_indirect f"] by (simp add: ind_blk_def)
  show "file_meta t f N = file_meta s f N" by (simp add: file_meta_def ind)
  show bm: "bmap t f i = bmap s f i" if "i < N" for i
  proof -
    have "va_pg (slot s f i) \<notin> P" using slot_page(1) [OF assms(1,2) that] assms(4) by auto
    moreover have "slot t f i = slot s f i" by (simp add: slot_def ind)
    ultimately show ?thesis using keptD(8) [OF assms(3), of "slot s f i"] by (simp add: bmap_def)
  qed
  show "file_ok t f N"
    using assms(1) bm keptD(4) [OF assms(3)] unfolding file_ok_def ind by (auto simp: inj_on_def)
qed

lemma rd_word:
  assumes "fs_ok s" "usable_pg s (va_pg a)"
  obtains t where "rd32 a s = FRet (vword s a) t" "loaded s t"
  using rd32_ok [OF assms] by (metis vword_def)

lemma file_block_walk_ok:
  assumes "fs_ok s" "file_ok s f N" "i < N"
  obtains t where "file_block_walk f (of_nat i) alloc s = FRet (0, slot s f i) t" "loaded s t"
proof -
  have N: "N \<le> 1034" by (rule file_ok_blocks [OF assms(2)])
  have ui: "unat (of_nat i :: u32) = i" using assms(3) N by (intro unat_of_small) simp
  have d: "(of_nat i :: u32) < NDIRECT \<longleftrightarrow> i < 10" "(of_nat i :: u32) < NDIRECT + NINDIRECT"
    using assms(3) N by (simp_all add: word_less_nat_alt ui jos_consts)
  show thesis
  proof (cases "i < 10")
    case True
    then show thesis using that [of s] d by (simp add: file_block_walk_def slot_def)
  next
    case False
    have ind: "data_block s (ind_blk s f)" using False assms(3) file_ok_blocks(2) [OF assms(2)] by simp
    obtain t where t: "rd32 (f_indirect f) s = FRet (vword s (f_indirect f)) t" "loaded s t"
      using rd_word [OF assms(1), of "f_indirect f"] slot_page(2,4) [OF assms(2,1,3)] by auto
    have w: "vword s (f_indirect f) = of_nat (ind_blk s f)" by (simp add: ind_blk_def)
    have "0 < ind_blk s f" "ind_blk s f < nblk t" "(of_nat (ind_blk s f) :: u32) \<noteq> 0"
      using ind data_block_page(4) [OF assms(1) ind] loaded_view(2) [OF t(2)]
      by (auto simp: data_block_def ind_blk_def)
    then have "diskaddr (of_nat (ind_blk s f)) t = FRet (blk_addr (ind_blk s f) 0) t"
      using diskaddr_ok [OF loaded_ok [OF t(2) assms(1)]] by blast
    moreover have "blk_addr (ind_blk s f) 0 + 4 * (of_nat i - NDIRECT) = slot s f i"
      using False by (simp add: slot_def blk_addr_def jos_consts of_nat_diff)
    ultimately show thesis
      using that [of t] t False d \<open>(of_nat (ind_blk s f) :: u32) \<noteq> 0\<close> by (simp add: file_block_walk_def w)
  qed
qed

lemma file_get_block_ok:
  assumes "fs_ok s" "file_ok s f N" "i < N"
  obtains t where "file_get_block f (of_nat i) s = FRet (0, blk_addr (bmap s f i) 0) t" "loaded s t"
proof -
  obtain s1 where s1: "file_block_walk f (of_nat i) True s = FRet (0, slot s f i) s1" "loaded s s1"
    by (rule file_block_walk_ok [OF assms])
  have ok1: "fs_ok s1" and acc: "usable_pg s1 (va_pg (slot s f i))"
    using loaded_ok [OF s1(2) assms(1)] loaded_usable [OF s1(2)] slot_page(5) [OF assms(2,1,3)] by auto
  obtain s2 where s2: "rd32 (slot s f i) s1 = FRet (vword s1 (slot s f i)) s2" "loaded s1 s2" by (rule rd_word [OF ok1 acc])
  have ok2: "fs_ok s2" and acc2: "usable_pg s2 (va_pg (slot s f i))"
    using loaded_ok [OF s2(2) ok1] loaded_usable [OF s2(2) acc] by auto
  obtain s3 where s3: "rd32 (slot s f i) s2 = FRet (vword s2 (slot s f i)) s3" "loaded s2 s3" by (rule rd_word [OF ok2 acc2])
  have L: "loaded s s3" using s1(2) s2(2) s3(2) loaded_trans by blast
  have w: "vword s1 (slot s f i) = of_nat (bmap s f i)" "vword s2 (slot s f i) = of_nat (bmap s f i)"
    using loaded_view(1) [OF s1(2)] loaded_view(1) [OF s2(2)] by (simp_all add: vword_def bmap_def)
  have b: "data_block s (bmap s f i)" by (rule file_ok_blocks(3) [OF assms(2,3)])
  then have "0 < bmap s f i" "bmap s f i < nblk s3" "(of_nat (bmap s f i) :: u32) \<noteq> 0"
    using data_block_page(4) [OF assms(1) b] loaded_view(2) [OF L] by (auto simp: data_block_def bmap_def)
  then have "diskaddr (of_nat (bmap s f i)) s3 = FRet (blk_addr (bmap s f i) 0) s3"
    using diskaddr_ok [OF loaded_ok [OF L assms(1)]] by blast
  then show thesis
    using that [of s3] s1(1) s2(1) s3(1) L w \<open>(of_nat (bmap s f i) :: u32) \<noteq> 0\<close> by (simp add: file_get_block_def)
qed

section \<open>The loops of file_read and file_write\<close>

definition fbyte :: "fsstate \<Rightarrow> u32 \<Rightarrow> nat \<Rightarrow> u8" where
  "fbyte s f p = vbyte s (blk_addr (bmap s f (p div 4096)) (p mod 4096))"

text \<open>A buffer of the server outside the block cache.\<close>

definition buffer :: "fsstate \<Rightarrow> u32 \<Rightarrow> nat \<Rightarrow> bool" where
  "buffer s buf n \<longleftrightarrow> (\<forall>i < n. va_pg (buf + of_nat i) < 0x10000 \<and> mapped s (va_pg (buf + of_nat i)))"

lemma buffer_page:
  assumes "buffer s buf n" "i < n"
  shows "usable_pg s (va_pg (buf + of_nat i))" "\<not> meta_page s (va_pg (buf + of_nat i))"
    "va_pg (buf + of_nat i) \<noteq> blk_pg b"
  using assms by (auto simp: buffer_def usable_pg_def meta_page_def blk_pg_def)

lemma buffer_shift: "buffer s buf n \<Longrightarrow> k + m \<le> n \<Longrightarrow> buffer s (buf + of_nat k) m"
  unfolding buffer_def
proof (intro allI impI)
  fix i assume b: "\<forall>i<n. va_pg (buf + of_nat i) < 0x10000 \<and> mapped s (va_pg (buf + of_nat i))" "k + m \<le> n" "i < m"
  then show "va_pg (buf + of_nat k + of_nat i) < 0x10000 \<and> mapped s (va_pg (buf + of_nat k + of_nat i))"
    using b(1) [rule_format, of "k + i"] by (simp add: add.assoc)
qed

lemma buffer_evolves: "buffer s buf n \<Longrightarrow> evolves s t \<Longrightarrow> buffer t buf n"
  by (auto simp: buffer_def evolves_def)

text \<open>One step of the loops copies between a buffer and a block.\<close>

lemma step_copy_ok:
  assumes ok: "fs_ok s" and b: "data_block s b" and p: "p < e" "e < 0x80000000" and buf: "buffer s buf (e - p)"
  shows "copy_ok buf (blk_addr b (p mod 4096)) (step p e) s" "copy_ok (blk_addr b (p mod 4096)) buf (step p e) s"
    "i < step p e \<Longrightarrow> va_pg (blk_addr b (p mod 4096) + of_nat i) = blk_pg b"
proof -
  note D = data_block_page [OF ok b] and S = step_bounds [OF p(1)]
  have pg: "va_pg (blk_addr b (p mod 4096) + of_nat i) = blk_pg b" if "i < step p e" for i
    using that S(4) [of i] D(3) by (metis blk_addr_plus blk_addr_parts(1) mod_less_divisor zero_less_numeral)
  then show "i < step p e \<Longrightarrow> va_pg (blk_addr b (p mod 4096) + of_nat i) = blk_pg b" .
  have le: "step p e \<le> e - p" "step p e < 4294967296" using p by (simp_all add: step_def)
  have ne: "buf + of_nat i \<noteq> blk_addr b (p mod 4096) + of_nat j" if "i < step p e" "j < step p e" for i j
    using that pg [of j] buffer_page(3) [OF buf, of i b] le(1) by auto
  show "copy_ok buf (blk_addr b (p mod 4096)) (step p e) s" "copy_ok (blk_addr b (p mod 4096)) buf (step p e) s"
    using le pg ne [THEN not_sym] ne buffer_page(1,2) [OF buf] D(1,2) by (auto simp: copy_ok_def)
qed

lemma file_loop_args:
  assumes "fs_ok s" "file_ok s f N" "p < e" "e < 0x80000000" "e \<le> N * 4096"
  obtains t where "file_get_block f (sdiv_blk (of_nat p)) s = FRet (0, blk_addr (bmap s f (p div 4096)) 0) t" "loaded s t"
    "blk_addr (bmap s f (p div 4096)) 0 + srem_blk (of_nat p) = blk_addr (bmap s f (p div 4096)) (p mod 4096)"
    "(of_nat p :: u32) < of_nat e" "of_nat p + of_nat (step p e) = (of_nat (p + step p e) :: u32)"
    "p div 4096 < N"
proof -
  have i: "p div 4096 < N" using assms(3,5) by (simp add: div_less_iff_less_mult)
  obtain t where "file_get_block f (of_nat (p div 4096)) s = FRet (0, blk_addr (bmap s f (p div 4096)) 0) t" "loaded s t"
    by (rule file_get_block_ok [OF assms(1,2) i])
  moreover have "(of_nat p :: u32) < of_nat e" using assms(3,4) by (simp add: word_less_nat_alt unat_of_small)
  ultimately show thesis
    using that [of t] i assms(3,4) blk_arith [of p] blk_addr_plus [of _ 0 "p mod 4096"] by simp
qed

lemma file_meta_cache:
  assumes "file_ok s f N" "fs_ok s"
  shows "{..<0x10000} \<inter> file_meta s f N = {}"
proof -
  obtain fb where fb: "\<forall>k < 256. va_pg (f + of_nat k) = blk_pg fb" "data_block s fb"
    "\<forall>i < N. bmap s f i \<noteq> fb" "10 < N \<longrightarrow> ind_blk s f \<noteq> fb"
    by (rule file_okD [OF assms])
  then show ?thesis using fb(1) [rule_format, of 0] by (auto simp: file_meta_def blk_pg_def split: if_splits)
qed

lemma fbyte_page:
  assumes "fs_ok s" "file_ok s f N" "q < N * 4096"
  shows "va_pg (blk_addr (bmap s f (q div 4096)) (q mod 4096)) = blk_pg (bmap s f (q div 4096))" "q div 4096 < N"
proof -
  show i: "q div 4096 < N" using assms(3) by (simp add: div_less_iff_less_mult)
  show "va_pg (blk_addr (bmap s f (q div 4096)) (q mod 4096)) = blk_pg (bmap s f (q div 4096))"
    using data_block_page(3) [OF assms(1) file_ok_blocks(3) [OF assms(2) i]] by (intro blk_addr_parts) simp_all
qed

lemma fbyte_kept:
  assumes "fs_ok s" "file_ok s f N" "kept P s t" "P \<inter> file_meta s f N = {}" "q < N * 4096"
    and "blk_pg (bmap s f (q div 4096)) \<notin> P"
  shows "fbyte t f q = fbyte s f q"
  using fbyte_page [OF assms(1,2,5)] file_ok_kept(2) [OF assms(2,1,3,4)] keptD(9) [OF assms(3)] assms(6)
  by (simp add: fbyte_def)

text \<open>Adjacent pieces of a buffer of less than 4 GiB do not overlap.\<close>

lemma pieces_apart:
  "i < k \<Longrightarrow> k + j < 4294967296 \<Longrightarrow> (buf :: u32) + of_nat i \<noteq> buf + of_nat k + of_nat j"
  using of_nat_inj32 [of i "k + j"] by (simp add: add.assoc)

definition read_into :: "u32 \<Rightarrow> u32 \<Rightarrow> nat \<Rightarrow> nat \<Rightarrow> fsstate \<Rightarrow> fsstate \<Rightarrow> bool" where
  "read_into f buf p n s t \<longleftrightarrow> kept {..<0x10000} s t \<and> (\<forall>i < n. vbyte t (buf + of_nat i) = fbyte s f (p + i)) \<and>
     (\<forall>x. (\<forall>i < n. x \<noteq> buf + of_nat i) \<longrightarrow> vbyte t x = vbyte s x)"

lemma read_into_append:
  assumes s: "fs_ok s" "file_ok s f N" "p + k + m \<le> N * 4096" "p + k + m < 4294967296"
    and r: "read_into f buf p k s t" "read_into f (buf + of_nat k) (p + k) m t u"
  shows "read_into f buf p (k + m) s u"
proof -
  note R = r [unfolded read_into_def]
  have K: "kept {..<0x10000} s t" "kept {..<0x10000} t u" using R by auto
  have fb: "fbyte t f q = fbyte s f q" if "q < N * 4096" for q
    using fbyte_kept [OF s(1,2) K(1) file_meta_cache [OF s(2,1)] that] by (simp add: blk_pg_def)
  have sh: "buf + of_nat k + of_nat j = buf + of_nat (k + j)" for j by (simp add: add.assoc)
  have "vbyte u (buf + of_nat i) = fbyte s f (p + i)" if i: "i < k + m" for i
  proof (cases "i < k")
    case True
    then have "\<forall>j < m. buf + of_nat i \<noteq> buf + of_nat k + of_nat j"
      using pieces_apart [OF True] s(4) by auto
    then show ?thesis using True R by simp
  next
    case False
    then obtain j where "i = k + j" "j < m" using i by (metis le_add_diff_inverse nat_add_left_cancel_less not_less)
    then show ?thesis using R(2) fb [of "p + i"] s(3) by (simp add: add.assoc)
  qed
  moreover have "vbyte u x = vbyte s x" if "\<forall>i < k + m. x \<noteq> buf + of_nat i" for x
  proof -
    have "\<forall>i < k. x \<noteq> buf + of_nat i" "\<forall>j < m. x \<noteq> buf + of_nat k + of_nat j"
      using that unfolding sh by (auto simp del: of_nat_add)
    then show ?thesis using R by simp
  qed
  ultimately show ?thesis using kept_trans [OF K] by (simp add: read_into_def)
qed

lemma file_read_loop_ok:
  assumes "fs_ok s" "file_ok s f N" "p \<le> e" "e < 0x80000000" "e \<le> N * 4096" "buffer s buf (e - p)"
  shows "\<exists>t. file_read_loop f buf (of_nat p) (of_nat e) s = FRet 0 t \<and> read_into f buf p (e - p) s t"
  using assms
proof (induction "e - p" arbitrary: p buf s rule: less_induct)
  case less
  show ?case
  proof (cases "p = e")
    case True
    then show ?thesis using less.prems(1) by (simp add: file_read_loop.simps read_into_def kept_refl)
  next
    case False
    then have p: "p < e" using less.prems(3) by simp
    note C = chunk_step [OF less.prems(3,4)] and S = step_bounds [OF p]
    let ?b = "bmap s f (p div 4096)"
    obtain u where u: "file_get_block f (sdiv_blk (of_nat p)) s = FRet (0, blk_addr ?b 0) u" "loaded s u"
      "blk_addr ?b 0 + srem_blk (of_nat p) = blk_addr ?b (p mod 4096)" "(of_nat p :: u32) < of_nat e"
      "of_nat p + of_nat (step p e) = (of_nat (p + step p e) :: u32)" "p div 4096 < N"
      by (rule file_loop_args [OF less.prems(1,2) p less.prems(4,5)])
    note K = loaded_kept [OF less.prems(1) u(2)]
    have b: "data_block u ?b" using file_ok_blocks(3) [OF less.prems(2) u(6)] keptD(4) [OF K] by simp
    have buf: "buffer u buf (e - p)" using buffer_evolves [OF less.prems(6) keptD(7) [OF K]] .
    obtain v where v: "fmemmove buf (blk_addr ?b (p mod 4096)) (step p e) u = FRet () v" "copied buf (blk_addr ?b (p mod 4096)) (step p e) u v"
      using fmemmove_ok [OF keptD(1) [OF K] step_copy_ok(1) [OF keptD(1) [OF K] b p less.prems(4) buf]] by auto
    have low: "(\<lambda>i. va_pg (buf + of_nat i)) ` {..<step p e} \<subseteq> {..<0x10000}"
      using less.prems(6) S(2) by (auto simp: buffer_def)
    have fb: "vbyte u (blk_addr ?b (p mod 4096) + of_nat i) = fbyte s f (p + i)" if "i < step p e" for i
      using S(3,4) [OF that] keptD(9) [OF K] by (simp add: fbyte_def blk_addr_plus)
    have kv: "kept {..<0x10000} s v"
      using kept_trans [OF kept_mono [OF K] kept_mono [OF _ low]] v(2) by (auto simp: copied_def)
    have r: "read_into f buf p (step p e) s v"
      using v(2) kv fb keptD(9) [OF K] by (simp add: copied_def read_into_def)
    have "e - (p + step p e) < e - p" using S p by simp
    moreover have "file_ok v f N" by (rule file_ok_kept [OF less.prems(2,1) kv file_meta_cache [OF less.prems(2,1)]])
    moreover have "buffer v (buf + of_nat (step p e)) (e - (p + step p e))"
      using buffer_shift [OF buffer_evolves [OF less.prems(6) keptD(7) [OF kv]]] S(2) by simp
    ultimately obtain t where t: "file_read_loop f (buf + of_nat (step p e)) (of_nat (p + step p e)) (of_nat e) v = FRet 0 t"
      "read_into f (buf + of_nat (step p e)) (p + step p e) (e - (p + step p e)) v t"
      using less.hyps [of "p + step p e" v "buf + of_nat (step p e)"] keptD(1) [OF kv] S(2) less.prems(4,5) by auto
    have "file_read_loop f buf (of_nat p) (of_nat e) s = FRet 0 t"
      using u v(1) t(1) C by (subst file_read_loop.simps) (simp del: of_nat_add)
    moreover have "read_into f buf p (e - p) s t"
      using read_into_append [OF less.prems(1,2) _ _ r t(2)] S(2) less.prems(4,5) by simp
    ultimately show ?thesis by blast
  qed
qed

text \<open>The pages of the contents of a file.\<close>

definition file_data :: "fsstate \<Rightarrow> u32 \<Rightarrow> nat \<Rightarrow> nat set" where
  "file_data s f N = (\<lambda>i. blk_pg (bmap s f i)) ` {..<N}"

lemma file_data_meta:
  assumes "file_ok s f N" "fs_ok s"
  shows "file_data s f N \<inter> file_meta s f N = {}" "file_data s f N \<inter> {..<0x10000} = {}"
proof -
  obtain fb where fb: "\<forall>k < 256. va_pg (f + of_nat k) = blk_pg fb" "data_block s fb"
    "\<forall>i < N. bmap s f i \<noteq> fb" "10 < N \<longrightarrow> ind_blk s f \<noteq> fb"
    by (rule file_okD [OF assms])
  then show "file_data s f N \<inter> file_meta s f N = {}"
    using fb(1) [rule_format, of 0] file_ok_blocks(5) [OF assms(1)]
    by (auto simp: file_data_def file_meta_def blk_pg_def split: if_splits) metis
  show "file_data s f N \<inter> {..<0x10000} = {}" by (auto simp: file_data_def blk_pg_def)
qed

definition written_from :: "u32 \<Rightarrow> u32 \<Rightarrow> nat \<Rightarrow> nat \<Rightarrow> nat \<Rightarrow> fsstate \<Rightarrow> fsstate \<Rightarrow> bool" where
  "written_from f buf p n N s t \<longleftrightarrow> kept (file_data s f N) s t \<and>
     (\<forall>q < N * 4096. fbyte t f q = (if p \<le> q \<and> q < p + n then vbyte s (buf + of_nat (q - p)) else fbyte s f q))"

lemma written_keeps:
  assumes "fs_ok s" "file_ok s f N" "kept (file_data s f N) s t"
  shows "file_ok t f N" "i < N \<Longrightarrow> bmap t f i = bmap s f i" "file_data t f N = file_data s f N"
    "va_pg a < 0x10000 \<Longrightarrow> vbyte t a = vbyte s a"
proof -
  note F = file_ok_kept [OF assms(2,1,3) file_data_meta(1) [OF assms(2,1)]]
  show "file_ok t f N" by (rule F)
  show bm: "i < N \<Longrightarrow> bmap t f i = bmap s f i" for i by (rule F)
  then show "file_data t f N = file_data s f N" by (auto simp: file_data_def)
  show "va_pg a < 0x10000 \<Longrightarrow> vbyte t a = vbyte s a"
    using keptD(9) [OF assms(3), of a] file_data_meta(2) [OF assms(2,1)] by auto
qed

lemma written_append:
  assumes s: "fs_ok s" "file_ok s f N" "buffer s buf (k + m)"
    and w: "written_from f buf p k N s t" "written_from f (buf + of_nat k) (p + k) m N t u"
  shows "written_from f buf p (k + m) N s u"
proof -
  note W = w [unfolded written_from_def]
  note K = written_keeps [OF s(1,2) conjunct1 [OF W(1)]]
  have "fbyte u f q = (if p \<le> q \<and> q < p + (k + m) then vbyte s (buf + of_nat (q - p)) else fbyte s f q)"
    if q: "q < N * 4096" for q
  proof (cases "p + k \<le> q \<and> q < p + k + m")
    case True
    then obtain j where j: "q = p + k + j" "j < m" by (metis le_add_diff_inverse nat_add_left_cancel_less)
    then have "va_pg (buf + of_nat (k + j)) < 0x10000" using s(3) by (auto simp: buffer_def simp del: of_nat_add)
    then have "vbyte t (buf + of_nat (k + j)) = vbyte s (buf + of_nat (k + j))" by (rule K(4))
    then show ?thesis using W(2) q True j by (simp add: add.assoc)
  next
    case False
    then show ?thesis using W q by auto
  qed
  moreover have "kept (file_data s f N) s u" using kept_trans W K(3) by metis
  ultimately show ?thesis by (simp add: written_from_def)
qed

lemma written_step:
  assumes s: "fs_ok s" "file_ok s f N" and u: "loaded s u" and p: "p < e" "p div 4096 < N"
    and v: "copied (blk_addr (bmap s f (p div 4096)) (p mod 4096)) buf (step p e) u v"
  shows "written_from f buf p (step p e) N s v"
proof -
  let ?b = "bmap s f (p div 4096)" and ?a = "\<lambda>q. blk_addr (bmap s f (q div 4096)) (q mod 4096)"
  note K = loaded_kept [OF s(1) u] and S = step_bounds [OF p(1)]
  have lt: "bmap s f i < MAXBLK" if "i < N" for i using data_block_page(3) [OF s(1) file_ok_blocks(3) [OF s(2) that]] .
  have a: "blk_addr ?b (p mod 4096) + of_nat i = ?a (p + i)" if "i < step p e" for i
    using S(3,4) [OF that] by (simp add: blk_addr_plus)
  have inj: "?a q = ?a r \<longleftrightarrow> q = r" if "q div 4096 < N" "r div 4096 < N" for q r
  proof
    assume e: "?a q = ?a r"
    then have "bmap s f (q div 4096) = bmap s f (r div 4096)"
      using blk_addr_parts(1) lt that by (metis blk_pg_def add_left_cancel mod_less_divisor zero_less_numeral)
    then have d: "q div 4096 = r div 4096" using file_ok_blocks(4) [OF s(2) that] by simp
    then have "q mod 4096 = r mod 4096" using e unat_blk_addr [OF lt [OF that(1)], of "q mod 4096"]
        unat_blk_addr [OF lt [OF that(1)], of "r mod 4096"] by simp
    with d show "q = r" by (metis div_mult_mod_eq)
  qed simp
  have "(\<lambda>i. va_pg (blk_addr ?b (p mod 4096) + of_nat i)) ` {..<step p e} \<subseteq> file_data s f N"
    using lt [OF p(2)] S(3) p(2) by (auto simp: a blk_addr_parts file_data_def)
  then have kv: "kept (file_data s f N) s v"
    using kept_trans [OF kept_mono [OF K] kept_mono] v by (auto simp: copied_def)
  note W = written_keeps [OF s kv]
  have "fbyte v f q = (if p \<le> q \<and> q < p + step p e then vbyte s (buf + of_nat (q - p)) else fbyte s f q)"
    if q: "q < N * 4096" for q
  proof -
    have qN: "q div 4096 < N" by (rule fbyte_page(2) [OF s q])
    have f: "fbyte v f q = vbyte v (?a q)" using W(2) [OF qN] by (simp add: fbyte_def)
    show ?thesis
    proof (cases "p \<le> q \<and> q < p + step p e")
      case True
      then obtain i where i: "q = p + i" "i < step p e" by (metis le_add_diff_inverse nat_add_left_cancel_less)
      have "vbyte v (blk_addr ?b (p mod 4096) + of_nat i) = vbyte s (buf + of_nat i)"
        using v i(2) keptD(9) [OF K] by (simp add: copied_def)
      then show ?thesis using f i a [OF i(2)] True by simp
    next
      case False
      have "?a q \<noteq> blk_addr ?b (p mod 4096) + of_nat i" if i: "i < step p e" for i
        unfolding a [OF i] using inj [OF qN, of "p + i"] S(3) [OF i] p(2) False i by auto
      then have "vbyte v (?a q) = vbyte u (?a q)" using v by (simp add: copied_def)
      then have "fbyte v f q = fbyte s f q" unfolding f using keptD(9) [OF K] by (simp add: fbyte_def)
      then show ?thesis unfolding if_not_P [OF False] .
    qed
  qed
  then show ?thesis using kv by (simp add: written_from_def)
qed

lemma file_write_loop_ok:
  assumes "fs_ok s" "file_ok s f N" "p \<le> e" "e < 0x80000000" "e \<le> N * 4096" "buffer s buf (e - p)"
  shows "\<exists>t. file_write_loop f buf (of_nat p) (of_nat e) s = FRet 0 t \<and> written_from f buf p (e - p) N s t"
  using assms
proof (induction "e - p" arbitrary: p buf s rule: less_induct)
  case less
  show ?case
  proof (cases "p = e")
    case True
    then show ?thesis using less.prems(1) by (auto simp: file_write_loop.simps written_from_def kept_refl)
  next
    case False
    then have p: "p < e" using less.prems(3) by simp
    note C = chunk_step [OF less.prems(3,4)] and S = step_bounds [OF p]
    let ?b = "bmap s f (p div 4096)"
    obtain u where u: "file_get_block f (sdiv_blk (of_nat p)) s = FRet (0, blk_addr ?b 0) u" "loaded s u"
      "blk_addr ?b 0 + srem_blk (of_nat p) = blk_addr ?b (p mod 4096)" "(of_nat p :: u32) < of_nat e"
      "of_nat p + of_nat (step p e) = (of_nat (p + step p e) :: u32)" "p div 4096 < N"
      by (rule file_loop_args [OF less.prems(1,2) p less.prems(4,5)])
    note K = loaded_kept [OF less.prems(1) u(2)]
    have b: "data_block u ?b" using file_ok_blocks(3) [OF less.prems(2) u(6)] keptD(4) [OF K] by simp
    have buf: "buffer u buf (e - p)" using buffer_evolves [OF less.prems(6) keptD(7) [OF K]] .
    obtain v where v: "fmemmove (blk_addr ?b (p mod 4096)) buf (step p e) u = FRet () v" "copied (blk_addr ?b (p mod 4096)) buf (step p e) u v"
      using fmemmove_ok [OF keptD(1) [OF K] step_copy_ok(2) [OF keptD(1) [OF K] b p less.prems(4) buf]] by auto
    have w: "written_from f buf p (step p e) N s v"
      by (rule written_step [OF less.prems(1,2) u(2) p u(6) v(2)])
    then have kv: "kept (file_data s f N) s v" by (simp add: written_from_def)
    have "e - (p + step p e) < e - p" using S p by simp
    moreover have "buffer v (buf + of_nat (step p e)) (e - (p + step p e))"
      using buffer_shift [OF buffer_evolves [OF less.prems(6) keptD(7) [OF kv]]] S(2) by simp
    ultimately obtain t where t: "file_write_loop f (buf + of_nat (step p e)) (of_nat (p + step p e)) (of_nat e) v = FRet 0 t"
      "written_from f (buf + of_nat (step p e)) (p + step p e) (e - (p + step p e)) N v t"
      using less.hyps [of "p + step p e" v "buf + of_nat (step p e)"] keptD(1) [OF kv] S(2) less.prems(4,5)
        written_keeps(1) [OF less.prems(1,2) kv] by auto
    have "file_write_loop f buf (of_nat p) (of_nat e) s = FRet 0 t"
      using u v(1) t(1) C by (subst file_write_loop.simps) (simp del: of_nat_add)
    moreover have "written_from f buf p (e - p) N s t"
      using written_append [OF less.prems(1,2) _ w t(2)] S(2) less.prems(6) by simp
    ultimately show ?thesis by blast
  qed
qed

section \<open>Reading and writing\<close>

definition fsize :: "fsstate \<Rightarrow> u32 \<Rightarrow> nat" where
  "fsize s f = unat (vword s (f_size f))"

lemma rd_size:
  assumes "fs_ok s" "file_ok s f N"
  obtains t where "rd32 (f_size f) s = FRet (of_nat (fsize s f)) t" "loaded s t"
proof -
  obtain fb where fb: "\<forall>k < 256. va_pg (f + of_nat k) = blk_pg fb" "data_block s fb"
    "\<forall>i < N. bmap s f i \<noteq> fb" "10 < N \<longrightarrow> ind_blk s f \<noteq> fb"
    by (rule file_okD [OF assms(2,1)])
  then have "usable_pg s (va_pg (f_size f))"
    using fb(1) [rule_format, of 128] data_block_page(1) [OF assms(1) fb(2)] by (simp add: f_size_def)
  then obtain t where "rd32 (f_size f) s = FRet (vword s (f_size f)) t" "loaded s t" by (rule rd_word [OF assms(1)])
  then show thesis using that by (simp add: fsize_def)
qed

lemma size_page:
  assumes "fs_ok s" "file_ok s f N"
  shows "va_pg (f_size f) = va_pg f"
proof -
  obtain fb where fb: "\<forall>k < 256. va_pg (f + of_nat k) = blk_pg fb" "data_block s fb"
    "\<forall>i < N. bmap s f i \<noteq> fb" "10 < N \<longrightarrow> ind_blk s f \<noteq> fb"
    by (rule file_okD [OF assms(2,1)])
  then show ?thesis using fb(1) [rule_format, of 128] fb(1) [rule_format, of 0] by (simp add: f_size_def)
qed

lemma loaded_file:
  assumes "fs_ok s" "file_ok s f N" "loaded s t"
  shows "file_ok t f N" "fsize t f = fsize s f" "read_into f buf p n t u \<Longrightarrow> p + n \<le> N * 4096 \<Longrightarrow> read_into f buf p n s u"
    "written_from f buf p n N t u \<Longrightarrow> written_from f buf p n N s u"
proof -
  note K = loaded_kept [OF assms(1,3)]
  note F = file_ok_kept [OF assms(2,1) K]
  have fb: "fbyte t f q = fbyte s f q" if "q < N * 4096" for q
    using fbyte_kept [OF assms(1,2) K _ that] by simp
  have vb: "vbyte t a = vbyte s a" for a using keptD(9) [OF K] by simp
  show "file_ok t f N" using F(1) by simp
  show "fsize t f = fsize s f" using keptD(8) [OF K] by (simp add: fsize_def)
  show "read_into f buf p n s u" if "read_into f buf p n t u" "p + n \<le> N * 4096"
    using that kept_trans [OF kept_mono [OF K, of "{..<0x10000}"]] fb vb by (auto simp: read_into_def)
  have "file_data t f N = file_data s f N" using F(2) by (auto simp: file_data_def)
  then show "written_from f buf p n N s u" if "written_from f buf p n N t u"
    using that kept_trans [OF kept_mono [OF K, of "file_data s f N"]] fb vb by (auto simp: written_from_def)
qed

lemma file_read_ok:
  assumes s: "fs_ok s" "file_ok s f N" and sz: "fsize s f \<le> N * 4096" "fsize s f < 0x80000000"
    and n: "n < 4294967296" "off < 0x80000000" and buf: "buffer s buf (min n (fsize s f - off))"
  shows "\<exists>t. file_read f buf (of_nat n) (of_nat off) s = FRet (int (min n (fsize s f - off))) t \<and>
    read_into f buf off (min n (fsize s f - off)) s t"
proof -
  let ?sz = "fsize s f" and ?m = "min n (fsize s f - off)"
  obtain u where u: "rd32 (f_size f) s = FRet (of_nat ?sz) u" "loaded s u" by (rule rd_size [OF s])
  note L = loaded_file [OF s u(2)] and ok = loaded_ok [OF u(2) s(1)]
  have si: "sint (of_nat k :: u32) = int k" if "k < 0x80000000" for k
    using that by (simp add: sint_eq_unat unat_of_small)
  show ?thesis
  proof (cases "?sz \<le> off")
    case True
    then have "file_read f buf (of_nat n) (of_nat off) s = FRet 0 u" using u(1) sz n by (simp add: file_read_def si)
    moreover have "read_into f buf off 0 s u" using L(3) [of buf off 0 u] kept_refl [OF ok] True sz
      kept_mono [OF loaded_kept [OF s(1) u(2)], of "{..<0x10000}"] keptD(9) [OF loaded_kept [OF s(1) u(2)]]
      by (auto simp: read_into_def)
    ultimately show ?thesis using True by auto
  next
    case False
    have cnt: "min (of_nat n) (of_nat ?sz - of_nat off :: u32) = of_nat ?m"
    proof -
      have "(of_nat ?sz - of_nat off :: u32) = of_nat (?sz - off)" using False by (simp add: of_nat_diff)
      then show ?thesis using n sz by (auto simp: min_def word_le_nat_alt unat_of_small simp del: of_nat_diff)
    qed
    have e: "off \<le> off + ?m" "off + ?m < 0x80000000" "off + ?m \<le> N * 4096" using False sz by auto
    obtain t where t: "file_read_loop f buf (of_nat off) (of_nat (off + ?m)) u = FRet 0 t" "read_into f buf off ?m u t"
      using file_read_loop_ok [OF ok L(1) e, of buf] buffer_evolves [OF buf loaded_evolves [OF u(2)]] by auto
    have "file_read f buf (of_nat n) (of_nat off) s = FRet (int ?m) t"
      using u(1) False sz n t(1) cnt si [of ?m] by (simp add: file_read_def si Let_def del: of_nat_min)
    then show ?thesis using L(3) [OF t(2)] e(3) by blast
  qed
qed

lemma file_ok_cong:
  assumes "file_ok s f N" "\<And>b. data_block t b \<longleftrightarrow> data_block s b" "ind_blk t f = ind_blk s f"
    "\<And>i. i < N \<Longrightarrow> bmap t f i = bmap s f i"
  shows "file_ok t f N"
  using assms unfolding file_ok_def by (auto simp: inj_on_def)

text \<open>The size field shares no word with the block numbers.\<close>

lemma size_apart:
  assumes "fs_ok s" "file_ok s f N"
  shows "va_wd (f_indirect f) \<noteq> va_wd (f_size f)"
    "i < N \<Longrightarrow> va_pg (slot s f i) \<noteq> va_pg (f_size f) \<or> va_wd (slot s f i) \<noteq> va_wd (f_size f)"
proof -
  obtain fb k where f: "f = blk_addr fb (256 * k)" "k < 16" "data_block s fb" "10 < N \<Longrightarrow> ind_blk s f \<noteq> fb"
    using assms(2) by (auto simp: file_ok_def)
  have lt: "fb < MAXBLK" by (rule data_block_page [OF assms(1) f(3)])
  have wd: "va_pg (f + of_nat j) = blk_pg fb" "va_wd (f + of_nat j) = (256 * k + j) div 4" if "j < 256" for j
    using that f(2) lt by (simp_all add: f(1) blk_addr_plus blk_addr_parts)
  have sz: "va_wd (f_size f) = 64 * k + 32" "va_pg (f_size f) = blk_pg fb" using wd [of 128] by (simp_all add: f_size_def)
  show "va_wd (f_indirect f) \<noteq> va_wd (f_size f)" using wd(2) [of 176] sz by (simp add: f_indirect_def)
  show "va_pg (slot s f i) \<noteq> va_pg (f_size f) \<or> va_wd (slot s f i) \<noteq> va_wd (f_size f)" if "i < N"
  proof (cases "i < 10")
    case True
    then have "f_direct f (of_nat i) = f + of_nat (136 + 4 * i)" by (simp add: f_direct_def)
    then have "va_wd (f_direct f (of_nat i)) = (256 * k + (136 + 4 * i)) div 4" using wd(2) [of "136 + 4 * i"] True by simp
    then show ?thesis using True sz by (simp add: slot_def)
  next
    case False
    then have ind: "data_block s (ind_blk s f)" "i - 10 < 1024" "ind_blk s f \<noteq> fb"
      using file_ok_blocks(1,2) [OF assms(2)] that f(4) by auto
    then have "va_pg (slot s f i) = blk_pg (ind_blk s f)"
      using False data_block_page(3) [OF assms(1)] by (simp add: slot_def blk_addr_parts)
    then show ?thesis using sz(2) ind(3) by (simp add: blk_pg_def)
  qed
qed

lemma file_grow_ok:
  assumes s: "fs_ok s" "file_ok s f N" and new: "fsize s f \<le> new" "new < 0x80000000"
  shows "\<exists>t. file_set_size f (of_nat new) s = FRet 0 t \<and> kept {va_pg f} s t \<and> file_ok t f N \<and> fsize t f = new
    \<and> (\<forall>i < N. bmap t f i = bmap s f i)"
proof -
  obtain fb k where f: "f = blk_addr fb (256 * k)" "k < 16" "data_block s fb" using s(2) by (auto simp: file_ok_def)
  obtain fb' where fb': "\<forall>k < 256. va_pg (f + of_nat k) = blk_pg fb'" "data_block s fb'"
    "\<forall>i < N. bmap s f i \<noteq> fb'" "10 < N \<longrightarrow> ind_blk s f \<noteq> fb'"
    by (rule file_okD [OF s(2,1)])
  have pg: "va_pg (f_size f) = va_pg f" "va_pg (f_indirect f) = va_pg f" "va_pg f = blk_pg fb'"
    using fb'(1) [rule_format, of 128] fb'(1) [rule_format, of 176] fb'(1) [rule_format, of 0]
    by (simp_all add: f_size_def f_indirect_def)
  obtain s1 where s1: "rd32 (f_size f) s = FRet (of_nat (fsize s f)) s1" "loaded s s1" by (rule rd_size [OF s])
  note K1 = loaded_kept [OF s(1) s1(2)]
  have a: "usable_pg s1 (va_pg (f_size f))" "\<not> meta_page s1 (va_pg (f_size f))"
    using keptD(3,5) [OF K1] data_block_page [OF s(1) fb'(2)] pg by simp_all
  obtain s2 where s2: "wr32 (f_size f) (of_nat new) s1 = FRet () s2" "kept {va_pg (f_size f)} s1 s2"
    "vword s2 (f_size f) = of_nat new"
    "\<And>x. va_pg x \<noteq> va_pg (f_size f) \<or> va_wd x \<noteq> va_wd (f_size f) \<Longrightarrow> vword s2 x = vword s1 x"
    by (rule wr32_kept [OF keptD(1) [OF K1] a, where v = "of_nat new"]) blast
  have K2: "kept {va_pg f} s s2" using kept_trans [OF kept_mono [OF K1] s2(2)] pg by simp
  have fl: "fb < nblk s2" "256 * k < 4096" using f keptD(2) [OF K2] by (simp_all add: data_block_def)
  obtain t where t: "flush_block f s2 = FRet () t" "vpage t = vpage s2" "evolves s2 t" "fs_ok t"
    using flush_ok [OF keptD(1) [OF K2] fl] f(1) by metis
  have "nblk t = nblk s2" "free_bit t = free_bit s2" by (simp_all add: nblk_def free_bit_def t(2) fun_eq_iff)
  then have K3: "kept {} s2 t" using t by (simp add: kept_def)
  have K: "kept {va_pg f} s t" using kept_trans [OF K2 kept_mono [OF K3]] by simp
  have w: "vword t x = vword s x" if "va_pg x \<noteq> va_pg (f_size f) \<or> va_wd x \<noteq> va_wd (f_size f)" for x
    using s2(4) [OF that] keptD(8) [OF K1] keptD(8) [OF K3] by simp
  have ind: "ind_blk t f = ind_blk s f" using w [of "f_indirect f"] size_apart(1) [OF s] by (simp add: ind_blk_def)
  have bm: "bmap t f i = bmap s f i" if "i < N" for i
  proof -
    have "slot t f i = slot s f i" by (simp add: slot_def ind)
    then show ?thesis using w [OF size_apart(2) [OF s that]] by (simp add: bmap_def)
  qed
  have "fsize t f = new" using s2(3) keptD(8) [OF K3, of "f_size f"] new(2) by (simp add: fsize_def unat_of_small)
  moreover have "file_set_size f (of_nat new) s = FRet 0 t"
    using s1(1) s2(1) t(1) new by (simp add: file_set_size_def sint_eq_unat unat_of_small)
  ultimately show ?thesis using K bm file_ok_cong [OF s(2) keptD(4) [OF K] ind bm] by blast
qed

lemma file_write_ok:
  assumes s: "fs_ok s" "file_ok s f N" and sz: "fsize s f < 0x80000000"
    and n: "off + n \<le> N * 4096" "off + n < 0x80000000" and buf: "buffer s buf n"
  shows "\<exists>t. file_write f buf (of_nat n) (of_nat off) s = FRet (int n) t \<and> fs_ok t \<and> evolves s t \<and> file_ok t f N
    \<and> fsize t f = max (fsize s f) (off + n)
    \<and> (\<forall>q < N * 4096. fbyte t f q = (if off \<le> q \<and> q < off + n then vbyte s (buf + of_nat (q - off)) else fbyte s f q))
    \<and> (\<forall>p. (\<forall>b < MAXBLK. p \<noteq> blk_pg b) \<longrightarrow> vpage t p = vpage s p)"
proof -
  let ?sz = "fsize s f" and ?e = "off + n"
  have le: "(of_nat ?e :: u32) > of_nat ?sz \<longleftrightarrow> ?e > ?sz" using sz n by (simp add: word_less_nat_alt unat_of_small del: of_nat_add)
  obtain u where u: "rd32 (f_size f) s = FRet (of_nat ?sz) u" "loaded s u" by (rule rd_size [OF s])
  note L = loaded_file [OF s u(2)] and ok = loaded_ok [OF u(2) s(1)] and K = loaded_kept [OF s(1) u(2)]
  have "\<exists>v. (if of_nat ?e > (of_nat ?sz :: u32) then file_set_size f (of_nat ?e) u else FRet 0 u) = FRet 0 v \<and>
    kept {va_pg f} u v \<and> file_ok v f N \<and> fsize v f = max ?sz ?e \<and> (\<forall>i < N. bmap v f i = bmap u f i)"
    using file_grow_ok [OF ok L(1), of ?e] L(1,2) kept_refl [OF ok] n(2) unfolding le
    by (cases "?e > ?sz") (auto simp del: of_nat_add)
  then obtain v where v: "(if of_nat ?e > (of_nat ?sz :: u32) then file_set_size f (of_nat ?e) u else FRet 0 u) = FRet 0 v"
    "kept {va_pg f} u v" "file_ok v f N" "fsize v f = max ?sz ?e" "\<And>i. i < N \<Longrightarrow> bmap v f i = bmap u f i" by blast
  have Kv: "kept {va_pg f} s v" using kept_trans [OF kept_mono [OF K] v(2)] by simp
  have vf: "va_pg f \<in> file_meta s f N" "va_pg f \<in> file_meta v f N" by (simp_all add: file_meta_def)
  have "va_pg f \<notin> file_data s f N" "\<not> va_pg f < 0x10000"
    using file_data_meta(1) [OF s(2,1)] file_meta_cache [OF s(2,1)] vf(1) by auto
  then have fv: "fbyte v f q = fbyte s f q" if "q < N * 4096" for q
  proof -
    note P = fbyte_page [OF s that]
    have "bmap v f (q div 4096) = bmap s f (q div 4096)" using v(5) P(2) file_ok_kept(2) [OF s(2,1) K] by simp
    moreover have "blk_pg (bmap s f (q div 4096)) \<noteq> va_pg f" using P(2) \<open>va_pg f \<notin> file_data s f N\<close>
      unfolding file_data_def by (metis imageI lessThan_iff)
    ultimately show ?thesis using keptD(9) [OF Kv] P(1) by (simp add: fbyte_def)
  qed
  have bv: "vbyte v (buf + of_nat i) = vbyte s (buf + of_nat i)" if "i < n" for i
    using keptD(9) [OF Kv] buf that \<open>\<not> va_pg f < 0x10000\<close> by (metis buffer_def singletonD)
  obtain t where t: "file_write_loop f buf (of_nat off) (of_nat ?e) v = FRet 0 t" "written_from f buf off n N v t"
    using file_write_loop_ok [OF keptD(1) [OF Kv] v(3), of off ?e buf] n buffer_evolves [OF buf keptD(7) [OF Kv]] by auto
  then have Kt: "kept (file_data v f N) v t" by (simp add: written_from_def)
  have "fbyte t f q = (if off \<le> q \<and> q < off + n then vbyte s (buf + of_nat (q - off)) else fbyte s f q)"
    if "q < N * 4096" for q
    using t(2) that fv [OF that] bv [of "q - off"] unfolding written_from_def by auto
  moreover have "va_pg f \<notin> file_data v f N" using file_data_meta(1) [OF v(3) keptD(1) [OF Kv]] vf(2) by blast
  then have "fsize t f = fsize v f"
    using size_page [OF s] keptD(8) [OF Kt, of "f_size f"] by (simp add: fsize_def)
  moreover have sum: "(of_nat off + of_nat n :: u32) = of_nat ?e" and "sint (of_nat n :: u32) = int n"
    using n(2) by (simp_all add: sint_eq_unat unat_of_small)
  then have "file_write f buf (of_nat n) (of_nat off) s = FRet (int n) t"
    unfolding file_write_def u(1) fbind.simps sum v(1) t(1) by simp
  moreover have "vpage t p = vpage s p" if "\<forall>b < MAXBLK. p \<noteq> blk_pg b" for p
  proof -
    obtain fb where fb: "\<forall>k < 256. va_pg (f + of_nat k) = blk_pg fb" "data_block s fb"
      "\<forall>i < N. bmap s f i \<noteq> fb" "10 < N \<longrightarrow> ind_blk s f \<noteq> fb"
      by (rule file_okD [OF s(2,1)])
    then have "p \<noteq> va_pg f" using that fb(1) [rule_format, of 0] data_block_page(3) [OF s(1) fb(2)] by simp
    moreover have "p \<notin> file_data v f N"
      using that data_block_page(3) [OF keptD(1) [OF Kv] file_ok_blocks(3) [OF v(3)]] by (auto simp: file_data_def)
    ultimately show ?thesis using keptD(6) [OF Kt, of p] keptD(6) [OF Kv, of p] by simp
  qed
  ultimately show ?thesis
    using v(4) keptD(1) [OF Kt] evolves_trans [OF keptD(7) [OF Kv] keptD(7) [OF Kt]]
      written_keeps(1) [OF keptD(1) [OF Kv] v(3) Kt] by (intro exI [of _ t]) simp
qed

text \<open>
  What is written is read back (C16). For a file whose blocks are allocated, \<open>file_write\<close> of \<open>n\<close> bytes
  succeeds, changes exactly the bytes of the file from \<open>off\<close> on, and makes the file as large as
  needed; reading the same range then returns these bytes. This holds across block boundaries,
  for direct and indirect blocks, and whichever blocks are cached.
\<close>

theorem file_write_read:
  assumes "fs_ok s" and "file_ok s f N" and "fsize s f < 2 ^ 31" and "max (fsize s f) (off + n) \<le> N * 4096"
    and "off + n < 2 ^ 31" and "buffer s buf n" and "buffer s buf' n"
  shows "\<exists>t u. file_write f buf (of_nat n) (of_nat off) s = FRet (int n) t \<and>
    fsize t f = max (fsize s f) (off + n) \<and>
    (\<forall>q < N * 4096. \<not> (off \<le> q \<and> q < off + n) \<longrightarrow> fbyte t f q = fbyte s f q) \<and>
    file_read f buf' (of_nat n) (of_nat off) t = FRet (int n) u \<and>
    (\<forall>i < n. vbyte u (buf' + of_nat i) = vbyte s (buf + of_nat i))"
proof -
  obtain t where t: "file_write f buf (of_nat n) (of_nat off) s = FRet (int n) t" "fs_ok t" "evolves s t" "file_ok t f N"
    "fsize t f = max (fsize s f) (off + n)"
    "\<And>q. q < N * 4096 \<Longrightarrow> fbyte t f q = (if off \<le> q \<and> q < off + n then vbyte s (buf + of_nat (q - off)) else fbyte s f q)"
    using file_write_ok [OF assms(1,2), of off n buf] assms(3-6) by auto
  have m: "min n (fsize t f - off) = n" using t(5) by simp
  obtain u where u: "file_read f buf' (of_nat n) (of_nat off) t = FRet (int n) u" "read_into f buf' off n t u"
    using file_read_ok [OF t(2,4), of n off buf'] t(5) assms(3-5) buffer_evolves [OF assms(7) t(3)] unfolding m by auto
  have "vbyte u (buf' + of_nat i) = vbyte s (buf + of_nat i)" if "i < n" for i
    using u(2) that t(6) [of "off + i"] assms(4) by (simp add: read_into_def)
  then show ?thesis using t u by auto
qed

text \<open>
  A disk of six blocks with a file of ten bytes: block 3 has its \<open>struct File\<close>, block 4 its
  contents, block 5 is free. Page 5 of the server's memory is a buffer.
\<close>

definition file_disk :: "nat \<Rightarrow> nat \<Rightarrow> u32" where
  "file_disk b i =
     (if b = 1 \<and> i = 1 then 6 else if b = 2 \<and> i = 0 then 0x20
      else if b = 3 then (if i = 32 then 10 else if i = 34 then 4 else 0)
      else of_nat i)"

definition file_fs :: fsstate where
  "file_fs = small_fs\<lparr>disk := file_disk, page := (\<lambda>p. if p = 5 then (\<lambda>i. of_nat (100 + i)) else file_disk 1),
     mapped := (\<lambda>p. p = blk_pg 1 \<or> p = 5)\<rparr>"

lemma file_fs_view: "vpage file_fs (blk_pg b) = file_disk b"
  by (auto simp: vpage_def file_fs_def on_disk_def blk_pg_def)

lemma file_fs_nblk [simp]: "nblk file_fs = 6"
  by (simp add: nblk_def file_fs_view file_disk_def)

lemma file_fs_free: "b < 32 \<Longrightarrow> free_bit file_fs b \<longleftrightarrow> b = 5"
proof -
  assume "b < 32"
  then have "bm_blk b = 2" "bm_wd b = 0" "b mod 32 = b" by (simp_all add: bm_blk_def bm_wd_def)
  moreover have "\<forall>b \<in> set [0..<32]. bit (0x20 :: u32) b \<longleftrightarrow> b = 5" by code_simp
  ultimately show ?thesis using \<open>b < 32\<close> by (simp add: free_bit_def file_fs_view file_disk_def)
qed

lemma file_fs_ok: "fs_ok file_fs"
  unfolding fs_ok_def
proof (intro conjI allI impI)
  have e: "bm_end 6 = 3" by (simp add: bm_end_def)
  show "bm_end (nblk file_fs) \<le> nblk file_fs" by (simp add: e)
  show "\<not> free_bit file_fs b" if "b < bm_end (nblk file_fs)" for b
    using that file_fs_free [of b] by (simp add: e)
  show "nblk file_fs \<le> MAXBLK" by (simp add: MAXBLK_def)
qed (auto simp: file_fs_def small_fs_def blk_pg_def)

lemma file_fs_word: "b < 6 \<Longrightarrow> k < 4096 \<Longrightarrow> vword file_fs (blk_addr b k) = file_disk b (k div 4)"
  by (simp add: vword_def blk_addr_parts file_fs_view MAXBLK_def)

lemma file_fs_file: "file_ok file_fs (blk_addr 3 0) 1" "fsize file_fs (blk_addr 3 0) = 10" "bmap file_fs (blk_addr 3 0) 0 = 4"
proof -
  have a: "f_direct (blk_addr 3 0) 0 = blk_addr 3 136" "f_size (blk_addr 3 0) = blk_addr 3 128"
    by (simp_all add: f_direct_def f_size_def blk_addr_def)
  show "fsize file_fs (blk_addr 3 0) = 10" by (simp add: fsize_def a file_fs_word file_disk_def)
  show bm: "bmap file_fs (blk_addr 3 0) 0 = 4" by (simp add: bmap_def slot_def a file_fs_word file_disk_def)
  have "data_block file_fs 3" "data_block file_fs 4"
    using file_fs_free [of 3] file_fs_free [of 4] by (simp_all add: data_block_def bm_end_def)
  moreover from this have "\<exists>fb k. blk_addr 3 0 = blk_addr fb (256 * k) \<and> k < 16 \<and> data_block file_fs fb \<and>
      (\<forall>i < 1. bmap file_fs (blk_addr 3 0) i \<noteq> fb) \<and> (10 < (1 :: nat) \<longrightarrow> ind_blk file_fs (blk_addr 3 0) \<noteq> fb)"
    using bm by - (rule exI [of _ 3], rule exI [of _ 0], simp)
  ultimately show "file_ok file_fs (blk_addr 3 0) 1"
    using bm by (simp add: file_ok_def inj_on_def)
qed

lemma file_fs_buffer: "buffer file_fs 0x5000 4"
  unfolding buffer_def
proof (intro allI impI)
  fix i :: nat assume "i < 4"
  then have "unat (0x5000 + of_nat i :: u32) = 0x5000 + i" by (subst unat_add_no_wrap) (simp_all add: unat_of_small)
  then have "va_pg (0x5000 + of_nat i) = 5" using \<open>i < 4\<close> by (simp add: va_pg_def unat_PGNUM)
  then show "va_pg (0x5000 + of_nat i) < 0x10000 \<and> mapped file_fs (va_pg (0x5000 + of_nat i))" by (simp add: file_fs_def)
qed

theorem file_write_read_witness:
  "\<exists>t u. file_write (blk_addr 3 0) 0x5000 4 8 file_fs = FRet 4 t \<and> fsize t (blk_addr 3 0) = 12 \<and>
     file_read (blk_addr 3 0) 0x5000 4 8 t = FRet 4 u \<and> vbyte u 0x5000 = vbyte file_fs 0x5000"
proof -
  obtain t u where t: "file_write (blk_addr 3 0) 0x5000 4 8 file_fs = FRet 4 t" "fsize t (blk_addr 3 0) = 12"
    "file_read (blk_addr 3 0) 0x5000 4 8 t = FRet 4 u"
    "\<forall>i < 4. vbyte u (0x5000 + of_nat i) = vbyte file_fs (0x5000 + of_nat i)"
    using file_write_read [OF file_fs_ok file_fs_file(1), of 8 4 "0x5000" "0x5000"] file_fs_file(2) file_fs_buffer by auto
  then show ?thesis using t(4) [rule_format, of 0] by auto
qed

section \<open>A full disk\<close>

text \<open>
  A full disk brings the server down (C22). When no block is free and a file has no block at a direct
  position, \<open>file_get_block\<close> does not return -E_NO_DISK: it stores the negative error code as a
  block number and panics in \<open>diskaddr\<close>.
\<close>

theorem disk_full_panics:
  assumes "fs_ok s" and "i < 10" and "usable_pg s (va_pg (f_direct f (of_nat i)))"
    and "\<not> meta_page s (va_pg (f_direct f (of_nat i)))" and "vword s (f_direct f (of_nat i)) = 0"
    and "\<forall>b < nblk s. \<not> free_bit s b"
  shows "file_get_block f (of_nat i) s = FPanic ''bad block number in diskaddr''"
proof -
  let ?a = "f_direct f (of_nat i)" and ?e = "of_int (- E_NO_DISK) :: u32"
  have d: "(of_nat i :: u32) < NDIRECT" using assms(2) by (simp add: word_less_nat_alt unat_of_small jos_consts)
  obtain s1 where s1: "rd32 ?a s = FRet 0 s1" "loaded s s1" using rd_word [OF assms(1,3)] assms(5) by metis
  note K1 = loaded_kept [OF assms(1) s1(2)]
  obtain r s2 where s2: "alloc_block s1 = FRet r s2" "alloc_result 0 s1 r s2" using alloc_block_ok [OF keptD(1) [OF K1]] by blast
  then have r: "r = - E_NO_DISK" "vpage s2 = vpage s1" "fs_ok s2" "evolves s1 s2"
    using assms(6) loaded_view [OF s1(2)] by (auto simp: alloc_result_def)
  have "nblk s2 = nblk s1" "free_bit s2 = free_bit s1" by (simp_all add: nblk_def free_bit_def r(2) fun_eq_iff)
  then have K2: "kept {} s1 s2" using r by (simp add: kept_def)
  have a: "usable_pg s2 (va_pg ?a)" "\<not> meta_page s2 (va_pg ?a)" using keptD(3,5) [OF K1] keptD(3,5) [OF K2] assms(3,4) by auto
  obtain s3 where s3: "wr32 ?a ?e s2 = FRet () s3" "kept {va_pg ?a} s2 s3" "vword s3 ?a = ?e"
    using wr32_kept [OF r(3) a] by metis
  obtain s4 where s4: "rd32 ?a s3 = FRet ?e s4" "loaded s3 s4"
    using rd_word [OF keptD(1) [OF s3(2)] keptD(5) [OF s3(2) a(1)]] s3(3) by metis
  have ok: "fs_ok s4" by (rule loaded_ok [OF s4(2) keptD(1) [OF s3(2)]])
  have "unat ?e = 4294967287" by (simp add: E_NO_DISK_def)
  then have "of_nat (nblk s4) \<le> ?e" "?e \<noteq> 0"
    using fs_okD(4) [OF ok] by (simp_all add: word_le_nat_alt unat_of_small MAXBLK_def) (simp add: E_NO_DISK_def)
  then have "diskaddr ?e s4 = FPanic ''bad block number in diskaddr''"
    using super_nblocks_ok [OF ok] fs_okD(1) [OF ok] by (simp add: diskaddr_def)
  then show ?thesis
    using d s1(1) s2(1) r(1) s3(1) s4(1) by (simp add: file_get_block_def file_block_walk_def)
qed

text \<open>The same disk with all blocks in use.\<close>

definition full_fs :: fsstate where
  "full_fs = file_fs\<lparr>disk := file_disk(2 := (\<lambda>_. 0))\<rparr>"

lemma full_fs_view: "vpage full_fs (blk_pg b) = (if b = 2 then (\<lambda>_. 0) else file_disk b)"
  by (auto simp: vpage_def full_fs_def file_fs_def on_disk_def blk_pg_def)

lemma full_fs_facts: "nblk full_fs = 6" "b < 6 \<Longrightarrow> \<not> free_bit full_fs b" "fs_ok full_fs"
proof -
  show n: "nblk full_fs = 6" by (simp add: nblk_def full_fs_view file_disk_def)
  show f: "\<not> free_bit full_fs b" if "b < 6" for b using that by (simp add: free_bit_def full_fs_view bm_blk_def)
  have e: "bm_end 6 = 3" by (simp add: bm_end_def)
  show "fs_ok full_fs"
    unfolding fs_ok_def n e using f by (auto simp: MAXBLK_def full_fs_def file_fs_def small_fs_def blk_pg_def)
qed

theorem disk_full_panics_witness: "file_get_block (blk_addr 3 0) 1 full_fs = FPanic ''bad block number in diskaddr''"
proof -
  have a: "f_direct (blk_addr 3 0) 1 = blk_addr 3 140" by (simp add: f_direct_def blk_addr_def)
  have p: "va_pg (blk_addr 3 140) = blk_pg 3" "va_wd (blk_addr 3 140) = 35" by (simp_all add: blk_addr_parts MAXBLK_def)
  have acc: "usable_pg full_fs (blk_pg 3)" using full_fs_facts(1) full_fs_facts(2) [of 3] by (auto simp: usable_pg_def)
  have "\<not> meta_page full_fs (blk_pg 3)" by (simp add: meta_page_def full_fs_facts(1) bm_end_def blk_pg_def)
  moreover have "vword full_fs (blk_addr 3 140) = 0" by (simp add: vword_def p full_fs_view file_disk_def)
  ultimately show ?thesis
    using disk_full_panics [OF full_fs_facts(3), of 1 "blk_addr 3 0"] acc full_fs_facts(1,2) by (simp add: a p)
qed

end
