(* ===== verification/Fs_Serv.thy ===== *)
theory Fs_Serv
  imports Fs
begin

text \<open>
  The file server, \<^verbatim>\<open>fs/serv.c\<close>: the table of open files, the handlers, and one round of the
  server loop. The request lies on the page at \<open>fsreq\<close>, directly below the disk map; the
  descriptor pages shared with clients start at FILEVA. A client may write to the pages it shares
  with the server at any time; here they change only between two rounds of the loop.
\<close>

definition MAXOPEN :: nat where [jos_consts]: "MAXOPEN = 1024"
definition FILEVA :: u32 where [jos_consts]: "FILEVA = 0xD0000000"
definition fsreq :: u32 where [jos_consts]: "fsreq = 0x0FFFF000"
definition MAXPATHLEN :: nat where [jos_consts]: "MAXPATHLEN = 1024"

definition O_ACCMODE :: u32 where [jos_consts]: "O_ACCMODE = 3"
definition O_CREAT :: u32 where [jos_consts]: "O_CREAT = 0x100"
definition O_TRUNC :: u32 where [jos_consts]: "O_TRUNC = 0x200"
definition O_EXCL :: u32 where [jos_consts]: "O_EXCL = 0x400"

text \<open>Fields of the descriptor page (inc/fd.h).\<close>

definition fd_dev_id :: "u32 \<Rightarrow> u32" where "fd_dev_id fd = fd"
definition fd_offset :: "u32 \<Rightarrow> u32" where "fd_offset fd = fd + 4"
definition fd_omode :: "u32 \<Rightarrow> u32" where "fd_omode fd = fd + 8"
definition fd_file_id :: "u32 \<Rightarrow> u32" where "fd_file_id fd = fd + 12"

section \<open>Open files\<close>

definition serve_init :: "fsstate \<Rightarrow> fsstate" where
  "serve_init s =
     s\<lparr>opentab := (\<lambda>i. if i < MAXOPEN
         then (opentab s i)\<lparr>o_fileid := of_nat i, o_fd := FILEVA + of_nat i * PGSIZE\<rparr>
         else opentab s i)\<rparr>"

definition pageref :: "u32 \<Rightarrow> fsstate \<Rightarrow> nat" where
  "pageref va s = (if mapped s (va_pg va) then pg_refs s (va_pg va) else 0)"

text \<open>A fresh descriptor page: \<open>sys_page_alloc\<close> of the server in its own address space.\<close>

definition fd_page_alloc :: "u32 \<Rightarrow> fsstate \<Rightarrow> fsstate" where
  "fd_page_alloc va s =
     s\<lparr>mapped := (mapped s)(va_pg va := True), page := (page s)(va_pg va := (\<lambda>_. 0)),
       dirty := (dirty s)(va_pg va := False), pg_refs := (pg_refs s)(va_pg va := 1)\<rparr>"

text \<open>\<open>nomem\<close> says that the kernel has no page left; then \<open>sys_page_alloc\<close> fails.\<close>

fun openfile_alloc_loop :: "bool \<Rightarrow> nat \<Rightarrow> nat \<Rightarrow> fsstate \<Rightarrow> (int \<times> nat) fres" where
  "openfile_alloc_loop nomem i 0 s = FRet (- E_MAX_OPEN, 0) s"
| "openfile_alloc_loop nomem i (Suc n) s =
     (let refs = pageref (o_fd (opentab s i)) s in
      if refs = 0 \<and> nomem then FRet (- E_NO_MEM, 0) s
      else if refs \<le> 1 then
        let s = (if refs = 0 then fd_page_alloc (o_fd (opentab s i)) s else s);
            s = s\<lparr>opentab := (opentab s)(i := (opentab s i)\<lparr>o_fileid := o_fileid (opentab s i) + of_nat MAXOPEN\<rparr>)\<rparr> in
        fbind (fzero (o_fd (opentab s i)) 1024 s) (\<lambda>_ s.
        FRet (sint (o_fileid (opentab s i)), i) s)
      else openfile_alloc_loop nomem (Suc i) n s)"

definition openfile_alloc :: "bool \<Rightarrow> fsstate \<Rightarrow> (int \<times> nat) fres" where
  "openfile_alloc nomem s = openfile_alloc_loop nomem 0 MAXOPEN s"

definition openfile_lookup :: "u32 \<Rightarrow> fsstate \<Rightarrow> int \<times> nat" where
  "openfile_lookup fileid s =
     (let o' = unat fileid mod MAXOPEN in
      if pageref (o_fd (opentab s o')) s \<le> 1 \<or> o_fileid (opentab s o') \<noteq> fileid
      then (- E_INVAL, 0) else (0, o'))"

section \<open>Handlers\<close>

text \<open>A string of at most \<open>n\<close> bytes at an address, up to its terminating zero.\<close>

fun read_path :: "u32 \<Rightarrow> nat \<Rightarrow> fsstate \<Rightarrow> u8 list fres" where
  "read_path a 0 s = FRet [] s"
| "read_path a (Suc n) s =
     fbind (rd8 a s) (\<lambda>c s.
     if c = 0 then FRet [] s else fbind (read_path (a + 1) n s) (\<lambda>cs s. FRet (c # cs) s))"

definition devfile_id :: u32 where [jos_consts]: "devfile_id = 0x66"

text \<open>The part of \<open>serve_open\<close> that finds or creates the file.\<close>

definition open_file :: "u8 list \<Rightarrow> u32 \<Rightarrow> fsstate \<Rightarrow> (int \<times> u32) fres" where
  "open_file path omode s =
     (if omode AND O_CREAT \<noteq> 0 then
        fbind (file_create path s) (\<lambda>(r, f) s.
        if r < 0 then
          (if omode AND O_EXCL = 0 \<and> r = - E_FILE_EXISTS then file_open path s else FRet (r, 0) s)
        else FRet (r, f) s)
      else file_open path s)"

text \<open>The result is the return value and the address of the page to share, or 0 (\<open>*pg_store\<close>).\<close>

definition serve_open :: "bool \<Rightarrow> fsstate \<Rightarrow> (int \<times> u32) fres" where
  "serve_open nomem s =
     fbind (read_path fsreq (MAXPATHLEN - 1) s) (\<lambda>path s.
     fbind (openfile_alloc nomem s) (\<lambda>(r, i) s.
     if r < 0 then FRet (r, 0) s
     else
       fbind (rd32 (fsreq + of_nat MAXPATHLEN) s) (\<lambda>omode s.
       fbind (open_file path omode s) (\<lambda>(r, f) s.
       if r < 0 then FRet (r, 0) s
       else
         fbind (if omode AND O_TRUNC \<noteq> 0 then file_set_size f 0 s else FRet 0 s) (\<lambda>r s.
         if r < 0 then FRet (r, 0) s
         else
           fbind (file_open path s) (\<lambda>(r, f) s.
           if r < 0 then FRet (r, 0) s
           else
             let s = s\<lparr>opentab := (opentab s)(i := (opentab s i)\<lparr>o_file := f\<rparr>)\<rparr>;
                 fd = o_fd (opentab s i) in
             fbind (wr32 (fd_file_id fd) (o_fileid (opentab s i)) s) (\<lambda>_ s.
             fbind (wr32 (fd_omode fd) (omode AND O_ACCMODE) s) (\<lambda>_ s.
             fbind (wr32 (fd_dev_id fd) devfile_id s) (\<lambda>_ s.
             FRet (0, fd) (s\<lparr>opentab := (opentab s)(i := (opentab s i)\<lparr>o_mode := omode\<rparr>)\<rparr>))))))))))"

text \<open>The common shape of the other handlers: look the file up, then work on it.\<close>

definition with_open :: "(nat \<Rightarrow> fsstate \<Rightarrow> int fres) \<Rightarrow> fsstate \<Rightarrow> int fres" where
  "with_open h s =
     fbind (rd32 fsreq s) (\<lambda>fileid s.
     let (r, i) = openfile_lookup fileid s in if r < 0 then FRet r s else h i s)"

definition serve_set_size :: "fsstate \<Rightarrow> int fres" where
  "serve_set_size s =
     with_open (\<lambda>i s. fbind (rd32 (fsreq + 4) s) (\<lambda>sz s. file_set_size (o_file (opentab s i)) sz s)) s"

definition advance :: "u32 \<Rightarrow> int \<Rightarrow> fsstate \<Rightarrow> int fres" where
  "advance fd r s =
     (if r > 0 then
        fbind (rd32 (fd_offset fd) s) (\<lambda>off s.
        fbind (wr32 (fd_offset fd) (off + of_int r) s) (\<lambda>_ s. FRet r s))
      else FRet r s)"

definition serve_read :: "fsstate \<Rightarrow> int fres" where
  "serve_read s =
     with_open (\<lambda>i s.
       let fd = o_fd (opentab s i) in
       fbind (rd32 (fsreq + 4) s) (\<lambda>n s.
       fbind (rd32 (fd_offset fd) s) (\<lambda>off s.
       fbind (file_read (o_file (opentab s i)) fsreq n off s) (\<lambda>r s. advance fd r s)))) s"

definition serve_write :: "fsstate \<Rightarrow> int fres" where
  "serve_write s =
     with_open (\<lambda>i s.
       let fd = o_fd (opentab s i) in
       fbind (rd32 (fsreq + 4) s) (\<lambda>n s.
       fbind (rd32 (fd_offset fd) s) (\<lambda>off s.
       fbind (file_write (o_file (opentab s i)) (fsreq + 8) n off s) (\<lambda>r s. advance fd r s)))) s"

fun copy_name :: "u32 \<Rightarrow> u32 \<Rightarrow> nat \<Rightarrow> fsstate \<Rightarrow> unit fres" where
  "copy_name dst src 0 s = FRet () s"
| "copy_name dst src (Suc n) s =
     fbind (rd8 src s) (\<lambda>c s. fbind (wr8 dst c s) (\<lambda>_ s.
     if c = 0 then FRet () s else copy_name (dst + 1) (src + 1) n s))"

text \<open>
  \<open>strcpy\<close> has no bound of its own; more bytes than the address space has would pass a page
  below the disk map, where the access faults.
\<close>

definition serve_stat :: "fsstate \<Rightarrow> int fres" where
  "serve_stat s =
     with_open (\<lambda>i s.
       let f = o_file (opentab s i) in
       fbind (copy_name fsreq f (2 ^ 32) s) (\<lambda>_ s.
       fbind (rd32 (f_size f) s) (\<lambda>sz s.
       fbind (wr32 (fsreq + 128) sz s) (\<lambda>_ s.
       fbind (rd32 (f_type f) s) (\<lambda>ty s.
       fbind (wr32 (fsreq + 132) (if ty = FTYPE_DIR then 1 else 0) s) (\<lambda>_ s. FRet 0 s)))))) s"

definition serve_flush :: "fsstate \<Rightarrow> int fres" where
  "serve_flush s = with_open (\<lambda>i s. fbind (file_flush (o_file (opentab s i)) s) (\<lambda>_ s. FRet 0 s)) s"

definition serve_sync :: "fsstate \<Rightarrow> int fres" where
  "serve_sync s = fbind (fs_sync s) (\<lambda>_ s. FRet 0 s)"

section \<open>The loop\<close>

text \<open>\<open>handlers[req]\<close>; entries 0 and 7 (FSREQ_REMOVE) are null, the table has 9 entries.\<close>

definition handlers :: "u32 \<Rightarrow> (fsstate \<Rightarrow> int fres) option" where
  "handlers req =
     (if req = 2 then Some serve_set_size
      else if req = 3 then Some serve_read
      else if req = 4 then Some serve_write
      else if req = 5 then Some serve_stat
      else if req = 6 then Some serve_flush
      else if req = 8 then Some serve_sync
      else None)"

definition FSREQ_OPEN :: u32 where [jos_consts]: "FSREQ_OPEN = 1"

text \<open>
  One round of \<open>serve\<close> after \<open>ipc_recv\<close> has returned request \<open>req\<close> with page permission \<open>perm\<close>.
  The reply that \<open>ipc_send\<close> passes on is the value, the page and its permission; a request
  without a page gets no reply. The kernel adds a reference to a page it maps for the client;
  \<open>accepts\<close> says that the client receives with an address for it.
\<close>

definition serve_reply :: "bool \<Rightarrow> u32 \<Rightarrow> u32 \<Rightarrow> fsstate \<Rightarrow> (int \<times> u32 \<times> u32) fres" where
  "serve_reply nomem req perm s =
     (if req = FSREQ_OPEN then
        fbind (serve_open nomem s) (\<lambda>(r, pg) s.
        FRet (r, pg, if pg = 0 then perm else PTE_P OR PTE_U OR PTE_W OR PTE_SHARE) s)
      else
        case handlers req of
          Some h \<Rightarrow> fbind (h s) (\<lambda>r s. FRet (r, 0, perm) s)
        | None \<Rightarrow> FRet (- E_INVAL, 0, perm) s)"

definition serve_round :: "bool \<Rightarrow> bool \<Rightarrow> u32 \<Rightarrow> u32 \<Rightarrow> fsstate \<Rightarrow> (int \<times> u32 \<times> u32) option fres" where
  "serve_round nomem accepts req perm s =
     (if perm AND PTE_P = 0 then FRet None s
      else
        fbind (serve_reply nomem req perm s) (\<lambda>(r, pg, perm) s.
        let s = (if pg \<noteq> 0 \<and> accepts
                 then s\<lparr>pg_refs := (pg_refs s)(va_pg pg := pg_refs s (va_pg pg) + 1)\<rparr> else s) in
        FRet (Some (r, pg, perm)) (s\<lparr>mapped := (mapped s)(va_pg fsreq := False)\<rparr>)))"

end
