(* ===== verification/File_Client.thy ===== *)
theory File_Client
  imports Fs_File Fs_Serv Lib_Spec
begin

text \<open>
  The file client of user programs, \<^verbatim>\<open>lib/file.c\<close>, together with the file server it talks to. A request is
  written on the page \<open>fsipcbuf\<close> of the client, at the address \<open>fb\<close> the linker gives it; the server sees
  this page at \<open>fsreq\<close> while it works on the request, and the client waits for the reply, so handing the
  page over is copying it there and back. The page of a descriptor is shared for good: it is the server's
  page at the address that \<open>serve_open\<close> replied with.
\<close>

section \<open>The client\<close>

record client =
  cmem :: mem
  cfd :: "nat \<Rightarrow> u32 option"

definition cstore :: "u32 \<Rightarrow> u32 \<Rightarrow> client \<Rightarrow> client" where
  "cstore a w c = c\<lparr>cmem := stos 4 w a (cmem c)\<rparr>"

text \<open>The fields of \<open>struct Fd\<close> as the client reads them through its own mapping.\<close>

definition fd_word :: "u32 \<Rightarrow> nat \<Rightarrow> fsstate \<Rightarrow> u32" where
  "fd_word fd k s = page s (va_pg fd) k"

section \<open>Requests\<close>

definition page_words :: "mem \<Rightarrow> u32 \<Rightarrow> nat \<Rightarrow> u32" where
  "page_words m a k = word_of (map (\<lambda>i. m (a + of_nat (4 * k + i))) [0..<4])"

definition put_page :: "(nat \<Rightarrow> u32) \<Rightarrow> u32 \<Rightarrow> mem \<Rightarrow> mem" where
  "put_page w a m =
     (\<lambda>x. if x - a < PGSIZE then get_byte (w (unat (x - a) div 4)) (unat (x - a) mod 4) else m x)"

definition send_page :: "mem \<Rightarrow> u32 \<Rightarrow> fsstate \<Rightarrow> fsstate" where
  "send_page m fb s =
     s\<lparr>mapped := (mapped s)(va_pg fsreq := True), page := (page s)(va_pg fsreq := page_words m fb),
       dirty := (dirty s)(va_pg fsreq := False), pg_refs := (pg_refs s)(va_pg fsreq := 2)\<rparr>"

text \<open>
  \<open>fsipc\<close>: \<open>dst\<close> is the descriptor whose page the reply goes to, \<open>None\<close> for a null \<open>dstva\<close>. The server
  does not reply to a request without a page; \<open>fsipc\<close> always sends one.
\<close>

definition fsipc :: "u32 \<Rightarrow> bool \<Rightarrow> u32 \<Rightarrow> nat option \<Rightarrow> client \<Rightarrow> fsstate \<Rightarrow> (int \<times> client) fres" where
  "fsipc fb nomem type dst c s =
     fbind (serve_round nomem (dst \<noteq> None) type (PTE_P OR PTE_W OR PTE_U) (send_page (cmem c) fb s)) (\<lambda>reply s.
     case reply of
       None \<Rightarrow> FPanic ''no reply''
     | Some (r, pg, perm) \<Rightarrow>
         let c = c\<lparr>cmem := put_page (page s (va_pg fsreq)) fb (cmem c)\<rparr>;
             c = (case dst of
                    None \<Rightarrow> c
                  | Some i \<Rightarrow> if pg \<noteq> 0 then c\<lparr>cfd := (cfd c)(i := Some pg)\<rparr> else c) in
         FRet (sint (of_int r :: u32), c) s)"

definition devfile_flush :: "u32 \<Rightarrow> u32 \<Rightarrow> client \<Rightarrow> fsstate \<Rightarrow> (int \<times> client) fres" where
  "devfile_flush fb fd c s = fsipc fb False 6 None (cstore fb (fd_word fd 3 s) c) s"

definition devfile_read :: "u32 \<Rightarrow> u32 \<Rightarrow> u32 \<Rightarrow> u32 \<Rightarrow> client \<Rightarrow> fsstate \<Rightarrow> (int \<times> client) fres" where
  "devfile_read fb fd buf n c s =
     fbind (fsipc fb False 3 None (cstore (fb + 4) n (cstore fb (fd_word fd 3 s) c)) s) (\<lambda>(r, c) s.
     if r < 0 then FRet (r, c) s
     else if of_int r > n then FPanic ''assertion failed: r <= n''
     else if r > 4096 then FPanic ''assertion failed: r <= PGSIZE''
     else FRet (r, c\<lparr>cmem := memmove (cmem c) buf fb (of_int r)\<rparr>) s)"

definition devfile_write :: "u32 \<Rightarrow> u32 \<Rightarrow> u32 \<Rightarrow> u32 \<Rightarrow> client \<Rightarrow> fsstate \<Rightarrow> (int \<times> client) fres" where
  "devfile_write fb fd buf n c s =
     (let n = (if n > BLKSIZE then BLKSIZE else n);
          c = cstore (fb + 4) n (cstore fb (fd_word fd 3 s) c);
          c = c\<lparr>cmem := memmove (cmem c) (fb + 8) buf n\<rparr> in
      fsipc fb False 4 None c s)"

text \<open>
  \<open>struct Stat\<close> has the name, the size at 128 and the directory flag at 132. A \<open>strcpy\<close> that meets no
  zero does not return.
\<close>

definition devfile_stat :: "u32 \<Rightarrow> u32 \<Rightarrow> u32 \<Rightarrow> client \<Rightarrow> fsstate \<Rightarrow> (int \<times> client) fres" where
  "devfile_stat fb fd st c s =
     fbind (fsipc fb False 5 None (cstore fb (fd_word fd 3 s) c) s) (\<lambda>(r, c) s.
     if r < 0 then FRet (r, c) s
     else
       case strcpy (cmem c) st fb of
         None \<Rightarrow> FPanic ''strcpy does not return''
       | Some m \<Rightarrow>
           let m = stos 4 (page_words m fb 32) (st + 128) m in
           FRet (0, c\<lparr>cmem := stos 4 (page_words m fb 33) (st + 132) m\<rparr>) s)"

definition devfile_trunc :: "u32 \<Rightarrow> u32 \<Rightarrow> u32 \<Rightarrow> client \<Rightarrow> fsstate \<Rightarrow> (int \<times> client) fres" where
  "devfile_trunc fb fd newsize c s =
     fsipc fb False 2 None (cstore (fb + 4) newsize (cstore fb (fd_word fd 3 s) c)) s"

definition sync_fs :: "u32 \<Rightarrow> client \<Rightarrow> fsstate \<Rightarrow> (int \<times> client) fres" where
  "sync_fs fb c s = fsipc fb False 8 None c s"

section \<open>Opening\<close>

definition free_fd :: "client \<Rightarrow> nat option" where
  "free_fd c = find (\<lambda>i. cfd c i = None) [0..<32]"

text \<open>
  When the server reports an error no page has been mapped, and \<open>fd_close (fd, 0)\<close> finds nothing to close.
\<close>

definition open_path :: "u32 \<Rightarrow> bool \<Rightarrow> u32 \<Rightarrow> u32 \<Rightarrow> client \<Rightarrow> fsstate \<Rightarrow> (int \<times> client) fres" where
  "open_path fb nomem path mode c s =
     (case strlen (cmem c) path of
        None \<Rightarrow> FPanic ''strlen does not return''
      | Some n \<Rightarrow>
          if unat n \<ge> MAXPATHLEN then FRet (- E_BAD_PATH, c) s
          else
            case free_fd c of
              None \<Rightarrow> FRet (- E_MAX_OPEN, c) s
            | Some i \<Rightarrow>
                (case strcpy (cmem c) fb path of
                   None \<Rightarrow> FPanic ''strcpy does not return''
                 | Some m \<Rightarrow>
                     fbind (fsipc fb nomem FSREQ_OPEN (Some i) (cstore (fb + 1024) mode (c\<lparr>cmem := m\<rparr>)) s)
                       (\<lambda>(r, c) s. FRet (if r < 0 then r else int i, c) s)))"

definition seek_fd :: "u32 \<Rightarrow> u32 \<Rightarrow> fsstate \<Rightarrow> fsstate" where
  "seek_fd fd offset s = s\<lparr>page := (page s)(va_pg fd := (page s (va_pg fd))(1 := offset))\<rparr>"

section \<open>States that differ outside the disk map\<close>

text \<open>
  \<open>t\<close> has the same disk and the same cached blocks as \<open>s\<close>; the pages below the disk map and the
  descriptor pages behind it may differ, as long as the latter count as dirty.
\<close>

definition same_cache :: "fsstate \<Rightarrow> fsstate \<Rightarrow> bool" where
  "same_cache s t \<longleftrightarrow> super_set t = super_set s \<and> bitmap_set t = bitmap_set s \<and> disk_bad t = disk_bad s \<and> disk t = disk s
     \<and> (\<forall>b < MAXBLK. mapped t (blk_pg b) = mapped s (blk_pg b) \<and> page t (blk_pg b) = page s (blk_pg b)
          \<and> dirty t (blk_pg b) = dirty s (blk_pg b))
     \<and> (\<forall>b \<ge> MAXBLK. mapped t (blk_pg b) \<longrightarrow> dirty t (blk_pg b) \<or> page t (blk_pg b) = disk t b)"

lemma same_cache_view: "same_cache s t \<Longrightarrow> b < MAXBLK \<Longrightarrow> vpage t (blk_pg b) = vpage s (blk_pg b)"
  by (simp add: same_cache_def vpage_def)

lemma same_cache_nblk: "same_cache s t \<Longrightarrow> nblk t = nblk s"
  by (simp add: nblk_def same_cache_view MAXBLK_def)

lemma bm_blk_bound: "b < MAXBLK \<Longrightarrow> bm_blk b < MAXBLK"
  by (simp add: bm_blk_def MAXBLK_def)

lemma same_cache_free: "same_cache s t \<Longrightarrow> b < MAXBLK \<Longrightarrow> free_bit t b = free_bit s b"
  by (simp add: free_bit_def same_cache_view bm_blk_bound)

lemma same_cache_ok:
  assumes sc: "same_cache s t" and ok: "fs_ok s"
  shows "fs_ok t"
proof -
  note n = same_cache_nblk [OF sc]
  have b: "bm_end (nblk s) \<le> MAXBLK" using fs_okD(4,5) [OF ok] by simp
  have "page t (blk_pg b) = disk t b" if "mapped t (blk_pg b)" "\<not> dirty t (blk_pg b)" for b
    using sc ok that by (cases "b < MAXBLK") (auto simp: same_cache_def fs_ok_def not_less)
  moreover have "\<not> free_bit t b" if "b < bm_end (nblk s)" for b
    using same_cache_free [OF sc] fs_okD(7) [OF ok that] that b by simp
  moreover have "mapped t (blk_pg 1)" using sc fs_okD(3) [OF ok] by (simp add: same_cache_def MAXBLK_def)
  ultimately show ?thesis using sc ok unfolding fs_ok_def n by (simp add: same_cache_def)
qed

lemma same_cache_data: "same_cache s t \<Longrightarrow> fs_ok s \<Longrightarrow> data_block t b = data_block s b"
  using fs_okD(4) [of s] same_cache_nblk [of s t] same_cache_free [of s t b] by (auto simp: data_block_def)

lemma same_cache_word:
  "same_cache s t \<Longrightarrow> va_pg a = blk_pg b \<Longrightarrow> b < MAXBLK \<Longrightarrow> vword t a = vword s a \<and> vbyte t a = vbyte s a"
  by (simp add: vword_def vbyte_def same_cache_view)

lemma same_cache_file:
  assumes sc: "same_cache s t" and ok: "fs_ok s" and f: "file_ok s f N"
  shows "file_ok t f N" "fsize t f = fsize s f" "q < N * 4096 \<Longrightarrow> fbyte t f q = fbyte s f q"
proof -
  obtain fb where fb: "\<forall>k < 256. va_pg (f + of_nat k) = blk_pg fb" "data_block s fb"
    "\<forall>i < N. bmap s f i \<noteq> fb" "10 < N \<longrightarrow> ind_blk s f \<noteq> fb"
    by (rule file_okD [OF f ok])
  have lt: "b < MAXBLK" if "data_block s b" for b using data_block_page(3) [OF ok that] .
  have own: "vword t (f + of_nat k) = vword s (f + of_nat k)" if "k < 256" for k
    using same_cache_word [OF sc fb(1) [rule_format, OF that] lt [OF fb(2)]] by simp
  have "f_indirect f = f + of_nat 176" "f_size f = f + of_nat 128" by (simp_all add: f_indirect_def f_size_def)
  then have ind: "ind_blk t f = ind_blk s f" and sz: "fsize t f = fsize s f"
    using own [of 176] own [of 128] by (simp_all add: ind_blk_def fsize_def)
  have bm: "bmap t f i = bmap s f i" if i: "i < N" for i
  proof -
    have "\<exists>b < MAXBLK. va_pg (slot s f i) = blk_pg b"
      using slot_page(1) [OF f ok i] lt [OF fb(2)] lt [of "ind_blk s f"] fb(1) [rule_format, of 0]
        file_ok_blocks(2) [OF f] by (auto simp: file_meta_def split: if_splits)
    then have "vword t (slot s f i) = vword s (slot s f i)" using same_cache_word [OF sc] by blast
    moreover have "slot t f i = slot s f i" by (simp add: slot_def ind)
    ultimately show ?thesis by (simp add: bmap_def)
  qed
  show "file_ok t f N" by (rule file_ok_cong [OF f same_cache_data [OF sc ok] ind bm])
  show "fsize t f = fsize s f" by (rule sz)
  show "fbyte t f q = fbyte s f q" if q: "q < N * 4096"
    using fbyte_page [OF ok f q] bm file_ok_blocks(3) [OF f] lt same_cache_word [OF sc]
    by (simp add: fbyte_def)
qed

section \<open>Open files\<close>

text \<open>Entry \<open>k\<close> of the table is the open file \<open>fid\<close>, with the descriptor page \<open>fd\<close> and the file \<open>f\<close>.\<close>

definition opened :: "fsstate \<Rightarrow> nat \<Rightarrow> u32 \<Rightarrow> u32 \<Rightarrow> u32 \<Rightarrow> bool" where
  "opened s k fid fd f \<longleftrightarrow> k < MAXOPEN \<and> unat fid mod MAXOPEN = k \<and> unat fd = unat FILEVA + k * 4096
     \<and> o_fileid (opentab s k) = fid \<and> o_fd (opentab s k) = fd \<and> o_file (opentab s k) = f
     \<and> mapped s (va_pg fd) \<and> 2 \<le> pg_refs s (va_pg fd) \<and> fd_word fd 3 s = fid"

lemma page_parts:
  assumes "unat a = 4096 * p" "k < 4096"
  shows "va_pg (a + of_nat k) = p" "va_wd (a + of_nat k) = k div 4"
proof -
  have "unat (a + of_nat k) = 4096 * p + k"
    using assms u32_less [of a] by (subst unat_add_no_wrap) (simp_all add: unat_of_small)
  then show "va_pg (a + of_nat k) = p" "va_wd (a + of_nat k) = k div 4"
    using assms(2) by (simp_all add: va_pg_def va_wd_def unat_PGNUM unat_PGOFF)
qed

lemma fsreq_parts: "k < 4096 \<Longrightarrow> va_pg (fsreq + of_nat k) = 0xFFFF" "k < 4096 \<Longrightarrow> va_wd (fsreq + of_nat k) = k div 4"
  using page_parts [of fsreq "0xFFFF" k] by (simp_all add: fsreq_def)

lemma fd_parts:
  assumes "opened s o' fid fd f" "k < 4096"
  shows "va_pg (fd + of_nat k) = 0xD0000 + o'" "va_wd (fd + of_nat k) = k div 4"
proof -
  have "unat fd = 4096 * (0xD0000 + o')" using assms(1) by (simp add: opened_def FILEVA_def)
  from page_parts [OF this assms(2)]
  show "va_pg (fd + of_nat k) = 0xD0000 + o'" "va_wd (fd + of_nat k) = k div 4" .
qed

lemma rd32_mapped: "mapped s (va_pg a) \<Longrightarrow> rd32 a s = FRet (page s (va_pg a) (va_wd a)) s"
  by (simp add: rd32_def touch_mapped)

lemma wr32_mapped:
  "mapped s (va_pg a) \<Longrightarrow> wr32 a v s = FRet () (s\<lparr>page := (page s)(va_pg a := (page s (va_pg a))(va_wd a := v)),
     dirty := (dirty s)(va_pg a := True)\<rparr>)"
  by (simp add: wr32_def touch_mapped)

lemma openfile_lookup_opened: "opened s k fid fd f \<Longrightarrow> openfile_lookup fid s = (0, k)"
  by (auto simp: opened_def openfile_lookup_def pageref_def)

lemma opened_apart: "opened s k fid fd f \<Longrightarrow> b < MAXBLK \<Longrightarrow> va_pg fd \<noteq> blk_pg b" "opened s k fid fd f \<Longrightarrow> va_pg fd \<noteq> 0xFFFF"
  using fd_parts(1) [of s k fid fd f 0] by (simp_all add: blk_pg_def MAXBLK_def)

text \<open>A request page with a file number and a count, and what the handlers do with it.\<close>

definition request :: "fsstate \<Rightarrow> u32 \<Rightarrow> u32 \<Rightarrow> bool" where
  "request s fid n \<longleftrightarrow> mapped s 0xFFFF \<and> page s 0xFFFF 0 = fid \<and> page s 0xFFFF 1 = n"

lemma request_words:
  assumes "request s fid n" "opened s k fid fd f"
  shows "rd32 fsreq s = FRet fid s" "rd32 (fsreq + 4) s = FRet n s" "rd32 (fd_offset fd) s = FRet (fd_word fd 1 s) s"
  using assms fsreq_parts [of 0] fsreq_parts [of 4] fd_parts [OF assms(2), of 4] fd_parts [OF assms(2), of 0]
  by (simp_all add: rd32_mapped request_def fd_offset_def fd_word_def opened_def)

lemma request_buffer: "mapped s 0xFFFF \<Longrightarrow> j + n \<le> 4096 \<Longrightarrow> buffer s (fsreq + of_nat j) n"
  using fsreq_parts(1) by (auto simp: buffer_def add.assoc simp flip: of_nat_add)

lemma advance_opened:
  assumes "opened s k fid fd f" "0 < n" "n < 0x80000000"
  shows "advance fd (int n) s = FRet (int n) (s\<lparr>page := (page s)(va_pg fd := (page s (va_pg fd))(1 := fd_word fd 1 s + of_nat n)),
    dirty := (dirty s)(va_pg fd := True)\<rparr>)"
  using assms fd_parts [OF assms(1), of 4] fd_parts [OF assms(1), of 0]
  by (simp add: advance_def fd_offset_def fd_word_def rd32_mapped wr32_mapped opened_def)

lemma opened_evolves:
  assumes "opened s k fid fd f" "evolves s t" "vpage t (va_pg fd) = vpage s (va_pg fd)"
  shows "opened t k fid fd f" "page t (va_pg fd) = page s (va_pg fd)"
proof -
  have "mapped t (va_pg fd)" "mapped s (va_pg fd)" using assms(1,2) by (auto simp: opened_def evolves_def)
  then show pg: "page t (va_pg fd) = page s (va_pg fd)" using assms(3) by (simp add: vpage_def)
  then show "opened t k fid fd f" using assms(1,2) \<open>mapped t (va_pg fd)\<close> by (simp add: opened_def evolves_def fd_word_def)
qed

text \<open>Moving the offset changes nothing but the descriptor page.\<close>

lemma offset_same_cache:
  assumes "opened s k fid fd f" "fs_ok s"
    and "t = s\<lparr>page := (page s)(va_pg fd := (page s (va_pg fd))(1 := off)), dirty := d\<rparr>" "d = (dirty s)(va_pg fd := True)"
  shows "same_cache s t" "opened t k fid fd f" "fd_word fd 1 t = off" "dirty t (va_pg fd)"
  using assms opened_apart(1) [OF assms(1), symmetric] by (auto simp: same_cache_def opened_def fd_word_def fs_ok_def)

lemma serve_write_ok:
  assumes s: "fs_ok s" "opened s k fid fd f" "request s fid (of_nat n)" and f: "file_ok s f N" "fsize s f < 0x80000000"
    and off: "fd_word fd 1 s = of_nat off" and n: "0 < n" "n \<le> 4088" "off + n \<le> N * 4096" "off + n < 0x80000000"
  shows "\<exists>t. serve_write s = FRet (int n) t \<and> fs_ok t \<and> opened t k fid fd f \<and> file_ok t f N \<and> dirty t (va_pg fd)
    \<and> fsize t f = max (fsize s f) (off + n) \<and> fd_word fd 1 t = of_nat (off + n)
    \<and> (\<forall>q < N * 4096. fbyte t f q = (if off \<le> q \<and> q < off + n then vbyte s (fsreq + 8 + of_nat (q - off)) else fbyte s f q))"
proof -
  have buf: "buffer s (fsreq + 8) n" using request_buffer [of s 8 n] s(3) n(2) by (simp add: request_def)
  obtain u where u: "file_write f (fsreq + 8) (of_nat n) (of_nat off) s = FRet (int n) u" "fs_ok u" "evolves s u" "file_ok u f N"
    "fsize u f = max (fsize s f) (off + n)"
    "\<forall>q < N * 4096. fbyte u f q = (if off \<le> q \<and> q < off + n then vbyte s (fsreq + 8 + of_nat (q - off)) else fbyte s f q)"
    "\<forall>p. (\<forall>b < MAXBLK. p \<noteq> blk_pg b) \<longrightarrow> vpage u p = vpage s p"
    using file_write_ok [OF s(1) f(1,2) n(3,4) buf] by blast
  note O = opened_evolves [OF s(2) u(3) u(7) [rule_format, OF opened_apart(1) [OF s(2)]]]
  define t where "t = u\<lparr>page := (page u)(va_pg fd := (page u (va_pg fd))(1 := of_nat off + of_nat n)),
    dirty := (dirty u)(va_pg fd := True)\<rparr>"
  note T = offset_same_cache [OF O(1) u(2) t_def refl]
  have off': "fd_word fd 1 u = of_nat off" using O(2) off by (simp add: fd_word_def)
  have "serve_write s = FRet (int n) t"
    using request_words [OF s(3,2)] openfile_lookup_opened [OF s(2)] u(1) off s(2)
      advance_opened [OF O(1) n(1)] n(2) off'
    by (simp add: serve_write_def with_open_def opened_def t_def)
  then show ?thesis
    using T same_cache_ok [OF T(1) u(2)] same_cache_file [OF T(1) u(2,4)] u(5,6) by simp
qed

lemma serve_read_ok:
  assumes s: "fs_ok s" "opened s k fid fd f" "request s fid (of_nat n)"
    and f: "file_ok s f N" "fsize s f \<le> N * 4096" "fsize s f < 0x80000000"
    and off: "fd_word fd 1 s = of_nat off" "off < 0x80000000" and n: "n \<le> 4096"
  shows "\<exists>t. serve_read s = FRet (int (min n (fsize s f - off))) t \<and> mapped t 0xFFFF
    \<and> (\<forall>i < min n (fsize s f - off). vbyte t (fsreq + of_nat i) = fbyte s f (off + i))"
proof -
  let ?m = "min n (fsize s f - off)"
  have buf: "buffer s fsreq ?m" using request_buffer [of s 0 ?m] s(3) n by (simp add: request_def)
  obtain u where u: "file_read f fsreq (of_nat n) (of_nat off) s = FRet (int ?m) u" "read_into f fsreq off ?m s u"
    using file_read_ok [OF s(1) f, of n off fsreq] n off(2) buf by auto
  then have K: "kept {..<0x10000} s u" by (simp add: read_into_def)
  have "va_pg fd \<notin> {..<0x10000}" using fd_parts(1) [OF s(2), of 0] by simp
  note O = opened_evolves [OF s(2) keptD(7) [OF K] keptD(6) [OF K this]]
  have mu: "mapped u 0xFFFF" using keptD(7) [OF K] s(3) by (simp add: evolves_def request_def)
  obtain t where t: "advance fd (int ?m) u = FRet (int ?m) t" "mapped t 0xFFFF" "page t 0xFFFF = page u 0xFFFF"
  proof (cases "?m = 0")
    case True
    then show thesis using that [of u] mu by (simp add: advance_def)
  next
    case False
    show thesis
      using that advance_opened [OF O(1), of ?m] False n mu opened_apart(2) [OF O(1)] by simp
  qed
  have "vbyte t (fsreq + of_nat i) = fbyte s f (off + i)" if "i < ?m" for i
  proof -
    have "vbyte t (fsreq + of_nat i) = vbyte u (fsreq + of_nat i)"
      using fsreq_parts(1) [of i] that n t(2,3) mu by (simp add: vbyte_def vword_def vpage_def)
    then show ?thesis using u(2) that by (simp add: read_into_def)
  qed
  moreover have "serve_read s = FRet (int ?m) t"
    using request_words [OF s(3,2)] openfile_lookup_opened [OF s(2)] u(1) off s(2) t(1)
    by (simp add: serve_read_def with_open_def opened_def)
  ultimately show ?thesis using t(2) by blast
qed

section \<open>The client's pages\<close>

lemma get_byte_word_of:
  assumes "i < length bs" "length bs \<le> 4"
  shows "get_byte (word_of bs) i = bs ! i"
proof (rule bit_word_eqI)
  fix n assume "n < LENGTH(8)"
  then have "(8 * i + n) div 8 = i" "(8 * i + n) mod 8 = n" "8 * i + n < 32" using assms by auto
  then show "bit (get_byte (word_of bs) i) n = bit (bs ! i) n"
    using assms(1) \<open>n < LENGTH(8)\<close> by (simp add: bit_get_byte bit_word_of)
qed

lemma page_words_byte: "i < 4 \<Longrightarrow> get_byte (page_words m a k) i = m (a + of_nat (4 * k + i))"
  by (simp add: page_words_def get_byte_word_of del: of_nat_add of_nat_mult)

lemma page_words_stos: "page_words (stos 4 w (a + of_nat (4 * k)) m) a k = w"
proof -
  have "map (\<lambda>i. stos 4 w (a + of_nat (4 * k)) m (a + of_nat (4 * k + i))) [0..<4] = bytes_of w"
    unfolding bytes_of_def by (rule map_cong) (auto simp: stos_def get_byte_def word_less_nat_alt unat_of_small)
  then show ?thesis by (simp add: page_words_def word_of_bytes_of)
qed

lemma page_words_frame: "(\<And>i. i < 4 \<Longrightarrow> m (a + of_nat (4 * k + i)) = m' (a + of_nat (4 * k + i))) \<Longrightarrow> page_words m a k = page_words m' a k"
  unfolding page_words_def by (rule arg_cong [of _ _ word_of], rule map_cong) auto

lemma va_pg_fsreq: "va_pg fsreq = 0xFFFF"
  using fsreq_parts(1) [of 0] by simp

lemma send_page_same: "fs_ok s \<Longrightarrow> same_cache s (send_page m fb s)"
  by (auto simp: same_cache_def send_page_def va_pg_fsreq blk_pg_def fs_ok_def)

lemma send_page_opened: "opened s k fid fd f \<Longrightarrow> opened (send_page m fb s) k fid fd f \<and> fd_word fd j (send_page m fb s) = fd_word fd j s"
  using opened_apart(2) [of s k fid fd f] by (simp add: opened_def send_page_def va_pg_fsreq fd_word_def)

lemma send_page_request: "page_words m fb 0 = fid \<Longrightarrow> page_words m fb 1 = n \<Longrightarrow> request (send_page m fb s) fid n"
  by (simp add: request_def send_page_def va_pg_fsreq)

lemma page_byte:
  assumes "i < 4096" "mapped s 0xFFFF"
  shows "vbyte s (fsreq + of_nat i) = get_byte (page s 0xFFFF (i div 4)) (i mod 4)"
proof -
  have "unat (fsreq + of_nat i) = 0x0FFFF000 + i"
    using assms(1) by (subst unat_add_no_wrap) (simp_all add: unat_of_small fsreq_def)
  then have "unat (fsreq + of_nat i) mod 4 = i mod 4" by presburger
  then show ?thesis using assms fsreq_parts [of i] by (simp add: vbyte_def vword_def vpage_def)
qed

lemma send_page_byte: "i < 4096 \<Longrightarrow> vbyte (send_page m fb s) (fsreq + of_nat i) = m (fb + of_nat i)"
  using page_words_byte [of "i mod 4" m fb "i div 4"] by (subst page_byte) (auto simp: send_page_def va_pg_fsreq)

definition unmap_req :: "fsstate \<Rightarrow> fsstate" where
  "unmap_req s = s\<lparr>mapped := (mapped s)(va_pg fsreq := False)\<rparr>"

lemma unmap_req_same: "fs_ok s \<Longrightarrow> same_cache s (unmap_req s)"
  by (auto simp: same_cache_def unmap_req_def va_pg_fsreq blk_pg_def fs_ok_def)

lemma unmap_req_opened: "opened s k fid fd f \<Longrightarrow> opened (unmap_req s) k fid fd f \<and> fd_word fd j (unmap_req s) = fd_word fd j s"
  using opened_apart(2) [of s k fid fd f] by (simp add: opened_def unmap_req_def va_pg_fsreq fd_word_def)

lemma fsipc_handler:
  assumes "handlers ty = Some h" "ty \<noteq> FSREQ_OPEN" "h (send_page (cmem c) fb s) = FRet r t"
  shows "fsipc fb nm ty None c s
    = FRet (sint (of_int r :: u32), c\<lparr>cmem := put_page (page t (va_pg fsreq)) fb (cmem c)\<rparr>) (unmap_req t)"
proof -
  have "(PTE_P OR PTE_W OR PTE_U) AND PTE_P \<noteq> 0" by (simp add: jos_consts)
  then show ?thesis using assms by (simp add: fsipc_def serve_round_def serve_reply_def unmap_req_def)
qed

lemma offset_below: "i < j \<Longrightarrow> j \<le> 4096 \<Longrightarrow> unat ((a :: u32) + of_nat i - (a + of_nat j)) = 4294967296 - (j - i)"
  by (simp add: unat_sub_cases unat_of_small)

lemma stos_out: "4 \<le> unat (a - d) \<Longrightarrow> stos 4 w d m a = m a"
  by (simp add: stos_def word_less_nat_alt)

lemma stos_below: "i < j \<Longrightarrow> j \<le> 4096 \<Longrightarrow> stos 4 w (a + of_nat j) m (a + of_nat i) = m (a + of_nat i)"
  using offset_below [of i j a] by (auto simp: stos_def word_less_nat_alt)

text \<open>The request that \<open>devfile_write\<close> and \<open>devfile_read\<close> fill in.\<close>

lemma request_fields:
  assumes "\<forall>j < 8. m' (fb + of_nat j) = stos 4 n (fb + 4) (stos 4 fid fb m) (fb + of_nat j)"
  shows "page_words m' fb 0 = fid" "page_words m' fb 1 = n"
proof -
  have "page_words m' fb 0 = page_words (stos 4 fid (fb + of_nat (4 * 0)) m) fb 0"
    using assms stos_below [of _ 4 n fb "stos 4 fid fb m"] by (intro page_words_frame) simp
  moreover have "page_words m' fb 1 = page_words (stos 4 n (fb + of_nat (4 * 1)) (stos 4 fid fb m)) fb 1"
    using assms by (intro page_words_frame) (simp del: of_nat_add)
  ultimately show "page_words m' fb 0 = fid" "page_words m' fb 1 = n" unfolding page_words_stos .
qed

lemma write_request:
  assumes fb: "unat fb + 4096 < 4294967296" and n: "n \<le> 4088" and buf: "unat buf + n < 4294967296"
    and apart: "\<forall>i < n. 8 \<le> unat (buf + of_nat i - fb)"
    and m'_def: "m' = memmove (stos 4 (of_nat n) (fb + 4) (stos 4 fid fb m)) (fb + 8) buf (of_nat n)"
  shows "page_words m' fb 0 = fid" "page_words m' fb 1 = of_nat n" "i < n \<Longrightarrow> m' (fb + 8 + of_nat i) = m (buf + of_nat i)"
proof -
  let ?m = "stos 4 (of_nat n) (fb + 4) (stos 4 fid fb m)"
  have "unat (fb + 8) = unat fb + 8" using fb by (subst unat_add_no_wrap) simp_all
  then have m': "m' = (\<lambda>a. if a - (fb + 8) < of_nat n then ?m (buf + (a - (fb + 8))) else ?m a)"
    unfolding m'_def using fb n buf by (intro memmove_spec) (simp_all add: unat_of_small)
  have "m' (fb + of_nat j) = ?m (fb + of_nat j)" if "j < 8" for j :: nat
    using offset_below [OF that, of fb] that n by (simp add: m' word_less_nat_alt unat_of_small)
  then have "\<forall>j < 8. m' (fb + of_nat j) = ?m (fb + of_nat j)" by blast
  from request_fields [OF this] show "page_words m' fb 0 = fid" "page_words m' fb 1 = of_nat n" .
  show "m' (fb + 8 + of_nat i) = m (buf + of_nat i)" if i: "i < n"
  proof -
    define x where "x = buf + of_nat i - fb"
    have x: "8 \<le> unat x" using apart [rule_format, OF i] by (simp add: x_def)
    then have "unat (x - 4) = unat x - 4" by (simp add: unat_sub word_le_nat_alt)
    moreover have "buf + of_nat i - (fb + 4) = x - 4" by (simp add: x_def)
    ultimately have "4 \<le> unat (buf + of_nat i - (fb + 4))" using x by (simp only:)
    moreover have "4 \<le> unat (buf + of_nat i - fb)" using x by (simp add: x_def)
    ultimately have "stos 4 w (fb + 4) (stos 4 fid fb m) (buf + of_nat i) = m (buf + of_nat i)" for w
      by (simp only: stos_out)
    then show ?thesis using i n by (simp add: m' word_less_nat_alt unat_of_small)
  qed
qed

section \<open>Writing and reading through the server\<close>

lemma devfile_write_ok:
  assumes s: "fs_ok s" "opened s k fid fd f" and f: "file_ok s f N" "fsize s f < 0x80000000"
    and off: "fd_word fd 1 s = of_nat off" and n: "0 < n" "n \<le> 4088" "off + n \<le> N * 4096" "off + n < 0x80000000"
    and mem: "unat fb + 4096 < 4294967296" "unat buf + n < 4294967296" "\<forall>i < n. 8 \<le> unat (buf + of_nat i - fb)"
  shows "\<exists>c' t. devfile_write fb fd buf (of_nat n) c s = FRet (int n, c') t \<and> fs_ok t \<and> opened t k fid fd f \<and> file_ok t f N
    \<and> dirty t (va_pg fd) \<and> fsize t f = max (fsize s f) (off + n) \<and> fd_word fd 1 t = of_nat (off + n)
    \<and> (\<forall>q < N * 4096. fbyte t f q = (if off \<le> q \<and> q < off + n then cmem c (buf + of_nat (q - off)) else fbyte s f q))"
proof -
  define m' where "m' = memmove (stos 4 (of_nat n) (fb + 4) (stos 4 fid fb (cmem c))) (fb + 8) buf (of_nat n)"
  note W = write_request [OF mem(1) n(2) mem(2,3) m'_def]
  let ?s = "send_page m' fb s"
  note C = send_page_same [OF s(1), of m' fb] and O = send_page_opened [OF s(2), of m' fb]
  note F = same_cache_file [OF C s(1) f(1)]
  obtain u where u: "serve_write ?s = FRet (int n) u" "fs_ok u" "opened u k fid fd f" "file_ok u f N" "dirty u (va_pg fd)"
    "fsize u f = max (fsize s f) (off + n)" "fd_word fd 1 u = of_nat (off + n)"
    "\<forall>q < N * 4096. fbyte u f q = (if off \<le> q \<and> q < off + n then vbyte ?s (fsreq + 8 + of_nat (q - off)) else fbyte ?s f q)"
    using serve_write_ok [OF same_cache_ok [OF C s(1)] conjunct1 [OF O] send_page_request [OF W(1,2)] F(1) _ _ n]
      F(2) f(2) off O by auto
  have fid: "fd_word fd 3 s = fid" using s(2) by (simp add: opened_def)
  have cap: "\<not> BLKSIZE < (of_nat n :: u32)" using n(2) by (simp add: jos_consts word_less_nat_alt unat_of_small)
  have h: "handlers 4 = Some serve_write" "4 \<noteq> FSREQ_OPEN" by (simp_all add: handlers_def FSREQ_OPEN_def)
  have si: "sint (of_int (int n) :: u32) = int n" using n(2) by (simp add: sint_eq_unat unat_of_small)
  define c' where "c' = c\<lparr>cmem := put_page (page u (va_pg fsreq)) fb m'\<rparr>"
  have "devfile_write fb fd buf (of_nat n) c s = FRet (int n, c') (unmap_req u)"
    using fsipc_handler [OF h, of "c\<lparr>cmem := m'\<rparr>" fb s "int n" u False] u(1) si
    by (simp add: devfile_write_def cap fid cstore_def m'_def c'_def Let_def)
  moreover have "fbyte (unmap_req u) f q = (if off \<le> q \<and> q < off + n then cmem c (buf + of_nat (q - off)) else fbyte s f q)"
    if q: "q < N * 4096" for q
  proof -
    have "vbyte ?s (fsreq + 8 + of_nat j) = cmem c (buf + of_nat j)" if "j < n" for j
      using send_page_byte [of "8 + j" m' fb s] W(3) [OF that] that n(2) by (simp add: add.assoc)
    then show ?thesis
      using u(8) [rule_format, OF q] F(3) [OF q] same_cache_file(3) [OF unmap_req_same [OF u(2)] u(2,4) q]
      by (auto simp del: of_nat_diff)
  qed
  moreover have "dirty (unmap_req u) (va_pg fd)" using u(5) by (simp add: unmap_req_def)
  ultimately show ?thesis
    using same_cache_ok [OF unmap_req_same [OF u(2)] u(2)] same_cache_file(1,2) [OF unmap_req_same [OF u(2)] u(2,4)]
      unmap_req_opened [OF u(3)] u(6,7) by auto
qed

lemma devfile_read_ok:
  assumes s: "fs_ok s" "opened s k fid fd f"
    and f: "file_ok s f N" "fsize s f \<le> N * 4096" "fsize s f < 0x80000000"
    and off: "fd_word fd 1 s = of_nat off" "off < 0x80000000" and n: "n \<le> 4096"
    and mem: "unat fb + 4096 < 4294967296" "unat buf + n < 4294967296"
  shows "\<exists>c' t. devfile_read fb fd buf (of_nat n) c s = FRet (int (min n (fsize s f - off)), c') t
    \<and> (\<forall>i < min n (fsize s f - off). cmem c' (buf + of_nat i) = fbyte s f (off + i))"
proof -
  let ?m = "min n (fsize s f - off)"
  define m' where "m' = stos 4 (of_nat n) (fb + 4) (stos 4 fid fb (cmem c))"
  let ?s = "send_page m' fb s"
  note C = send_page_same [OF s(1), of m' fb] and O = send_page_opened [OF s(2), of m' fb]
  note F = same_cache_file [OF C s(1) f(1)]
  have rq: "request ?s fid (of_nat n)"
    using send_page_request request_fields [of m' fb "of_nat n" fid "cmem c"] by (simp add: m'_def)
  obtain u where u: "serve_read ?s = FRet (int ?m) u" "mapped u 0xFFFF"
    "\<forall>i < ?m. vbyte u (fsreq + of_nat i) = fbyte ?s f (off + i)"
    using serve_read_ok [OF same_cache_ok [OF C s(1)] conjunct1 [OF O] rq F(1) _ _ _ off(2) n] F(2) f(2,3) off(1) O by auto
  have fid: "fd_word fd 3 s = fid" using s(2) by (simp add: opened_def)
  have h: "handlers 3 = Some serve_read" "3 \<noteq> FSREQ_OPEN" by (simp_all add: handlers_def FSREQ_OPEN_def)
  have si: "sint (of_int (int ?m) :: u32) = int ?m" using n by (simp add: sint_eq_unat unat_of_small)
  define mm where "mm = put_page (page u (va_pg fsreq)) fb m'"
  have ipc: "fsipc fb False 3 None (c\<lparr>cmem := m'\<rparr>) s = FRet (int ?m, c\<lparr>cmem := mm\<rparr>) (unmap_req u)"
    using fsipc_handler [OF h, of "c\<lparr>cmem := m'\<rparr>" fb s "int ?m" u False] u(1) si by (simp add: mm_def)
  have le: "\<not> (of_nat n :: u32) < of_nat ?m" using n by (simp add: word_less_nat_alt unat_of_small del: of_nat_min)
  define c' where "c' = c\<lparr>cmem := memmove mm buf fb (of_nat ?m)\<rparr>"
  have "devfile_read fb fd buf (of_nat n) c s = FRet (int ?m, c') (unmap_req u)"
    using ipc le n by (simp add: devfile_read_def fid cstore_def m'_def c'_def del: of_nat_min)
  moreover have "cmem c' (buf + of_nat i) = fbyte s f (off + i)" if i: "i < ?m" for i
  proof -
    have "memmove mm buf fb (of_nat ?m) = (\<lambda>a. if a - buf < of_nat ?m then mm (fb + (a - buf)) else mm a)"
      using n mem by (intro memmove_spec) (simp_all add: unat_of_small del: of_nat_min)
    then have "cmem c' (buf + of_nat i) = mm (fb + of_nat i)"
      using i n by (simp add: c'_def word_less_nat_alt unat_of_small del: of_nat_min)
    also have "\<dots> = vbyte u (fsreq + of_nat i)"
      using page_byte [OF _ u(2), of i] i n by (simp add: mm_def put_page_def va_pg_fsreq PGSIZE_def word_less_nat_alt unat_of_small)
    also have "\<dots> = fbyte s f (off + i)"
    proof -
      have "off + i < N * 4096" using i f(2) by linarith
      then show ?thesis using u(3) i F(3) by simp
    qed
    finally show ?thesis .
  qed
  ultimately show ?thesis by blast
qed

text \<open>
  (C17) What a program writes to a file it reads back, through the request page, the server, the block cache and
  the descriptor page. A write of at most 4088 bytes to an open file whose blocks are allocated returns the
  number of bytes and moves the offset by it; after seeking back, a read of as many bytes returns them, and
  they are the bytes that the program wrote.
\<close>

theorem client_write_read:
  assumes "fs_ok s" and "opened s k fid fd f" and "file_ok s f N" and "fsize s f < 2 ^ 31" and "max (fsize s f) (off + n) \<le> N * 4096"
    and "fd_word fd 1 s = of_nat off" and "0 < n" and "n \<le> 4088" and "off + n < 2 ^ 31"
    and "unat fb + 4096 < 2 ^ 32" and "unat buf + n < 2 ^ 32" and "unat buf' + n < 2 ^ 32"
    and "\<forall>i < n. 8 \<le> unat (buf + of_nat i - fb)"
  shows "\<exists>c1 s1 c2 s2. devfile_write fb fd buf (of_nat n) c s = FRet (int n, c1) s1 \<and> fd_word fd 1 s1 = of_nat (off + n)
    \<and> devfile_read fb fd buf' (of_nat n) c1 (seek_fd fd (of_nat off) s1) = FRet (int n, c2) s2
    \<and> (\<forall>i < n. cmem c2 (buf' + of_nat i) = cmem c (buf + of_nat i))"
proof -
  obtain c1 s1 where s1: "devfile_write fb fd buf (of_nat n) c s = FRet (int n, c1) s1" "fs_ok s1" "opened s1 k fid fd f" "file_ok s1 f N"
    "dirty s1 (va_pg fd)" "fsize s1 f = max (fsize s f) (off + n)" "fd_word fd 1 s1 = of_nat (off + n)"
    "\<forall>q < N * 4096. fbyte s1 f q = (if off \<le> q \<and> q < off + n then cmem c (buf + of_nat (q - off)) else fbyte s f q)"
    using devfile_write_ok [OF assms(1-3) _ assms(6-8), of fb buf c] assms(4,5,9-13) by auto
  let ?s = "seek_fd fd (of_nat off) s1"
  have "?s = s1\<lparr>page := (page s1)(va_pg fd := (page s1 (va_pg fd))(1 := of_nat off)), dirty := dirty s1\<rparr>"
    "dirty s1 = (dirty s1)(va_pg fd := True)" using s1(5) by (simp_all add: seek_fd_def fun_upd_idem)
  note T = offset_same_cache [OF s1(3,2) this]
  note F = same_cache_file [OF T(1) s1(2,4)]
  have m: "min n (fsize ?s f - off) = n" using F(2) s1(6) by simp
  obtain c2 s2 where s2: "devfile_read fb fd buf' (of_nat n) c1 ?s = FRet (int n, c2) s2"
    "\<forall>i < n. cmem c2 (buf' + of_nat i) = fbyte ?s f (off + i)"
    using devfile_read_ok [OF same_cache_ok [OF T(1) s1(2)] T(2) F(1) _ _ T(3), of n fb buf' c1] F(2) s1(6) assms(4,5,8-12)
    unfolding m by auto
  have "cmem c2 (buf' + of_nat i) = cmem c (buf + of_nat i)" if "i < n" for i
    using s2(2) s1(8) [rule_format, of "off + i"] F(3) [of "off + i"] that assms(5) by simp
  then show ?thesis using s1(1,7) s2(1) by blast
qed

text \<open>
  The small disk with its file open: entry 0 of the table, file number 1024, and the offset at 8.
\<close>

definition client_fs :: fsstate where
  "client_fs = file_fs\<lparr>opentab := (\<lambda>_. \<lparr>o_fileid = 1024, o_file = blk_addr 3 0, o_mode = 2, o_fd = FILEVA\<rparr>),
     pg_refs := (\<lambda>_. 2), mapped := (mapped file_fs)(0xD0000 := True), dirty := (dirty file_fs)(0xD0000 := True),
     page := (page file_fs)(0xD0000 := (\<lambda>i. if i = 0 then devfile_id else if i = 1 then 8 else if i = 3 then 1024 else 2))\<rparr>"

lemma client_fs_open: "same_cache file_fs client_fs" "opened client_fs 0 1024 FILEVA (blk_addr 3 0)" "fd_word FILEVA 1 client_fs = 8"
proof -
  have "va_pg FILEVA = 0xD0000" by (simp add: va_pg_def unat_PGNUM FILEVA_def)
  then show "opened client_fs 0 1024 FILEVA (blk_addr 3 0)" "fd_word FILEVA 1 client_fs = 8"
    by (simp_all add: opened_def client_fs_def MAXOPEN_def fd_word_def)
  show "same_cache file_fs client_fs"
    using file_fs_ok by (auto simp: same_cache_def client_fs_def blk_pg_def MAXBLK_def fs_ok_def)
qed

theorem client_write_read_witness:
  "\<exists>c1 s1 c2 s2. devfile_write 0x800000 FILEVA 0x1000 4 \<lparr>cmem = (\<lambda>_. 0x78), cfd = (\<lambda>_. None)\<rparr> client_fs = FRet (4, c1) s1
     \<and> fd_word FILEVA 1 s1 = 12 \<and> devfile_read 0x800000 FILEVA 0x2000 4 c1 (seek_fd FILEVA 8 s1) = FRet (4, c2) s2
     \<and> cmem c2 0x2003 = 0x78"
proof -
  note F = same_cache_file [OF client_fs_open(1) file_fs_ok file_fs_file(1)]
  have apart: "\<forall>i < 4. 8 \<le> unat (0x1000 + of_nat i - 0x800000 :: u32)"
    by (simp add: unat_sub_cases unat_word_ariths unat_of_small)
  let ?c = "\<lparr>cmem = (\<lambda>_. 0x78), cfd = (\<lambda>_. None)\<rparr>"
  have "\<exists>c1 s1 c2 s2. devfile_write 0x800000 FILEVA 0x1000 (of_nat 4) ?c client_fs = FRet (int 4, c1) s1
    \<and> fd_word FILEVA 1 s1 = of_nat (8 + 4)
    \<and> devfile_read 0x800000 FILEVA 0x2000 (of_nat 4) c1 (seek_fd FILEVA (of_nat 8) s1) = FRet (int 4, c2) s2
    \<and> (\<forall>i < 4. cmem c2 (0x2000 + of_nat i) = cmem ?c (0x1000 + of_nat i))"
    by (rule client_write_read [OF same_cache_ok [OF client_fs_open(1) file_fs_ok] client_fs_open(2) F(1)])
      (use client_fs_open(3) apart in \<open>simp_all add: F(2) file_fs_file(2)\<close>)
  then obtain c1 s1 c2 s2 where w: "devfile_write 0x800000 FILEVA 0x1000 4 ?c client_fs = FRet (4, c1) s1" "fd_word FILEVA 1 s1 = 12"
    "devfile_read 0x800000 FILEVA 0x2000 4 c1 (seek_fd FILEVA 8 s1) = FRet (4, c2) s2" "\<forall>i < 4. cmem c2 (0x2000 + of_nat i) = 0x78"
    by auto
  have "cmem c2 0x2003 = 0x78" using w(4) [rule_format, of 3] by simp
  then show ?thesis using w(1-3) by blast
qed

end
