(* ===== verification/Printf.thy ===== *)
theory Printf
  imports Printfmt Console
begin

text \<open>
  Printing on top of the format interpreter: \<open>cprintf\<close> of the kernel, \<^verbatim>\<open>kern/printf.c\<close>, which prints
  character by character, \<open>cprintf\<close> of user programs, \<^verbatim>\<open>lib/printf.c\<close>, which collects characters in a
  buffer and prints them with one system call, and \<open>fprintf\<close>, \<^verbatim>\<open>lib/fprintf.c\<close>, which does the same with
  \<open>write\<close>. A format with the wrong arguments has no result.
\<close>

section \<open>The kernel\<close>

text \<open>\<open>*cnt++\<close> increments the pointer, so \<open>cnt\<close> stays what it was.\<close>

definition kern_putch :: "outch \<Rightarrow> int \<times> console \<Rightarrow> int \<times> console" where
  "kern_putch ch st = (let (cnt, s) = st in (cnt, cputchar ch s))"

definition kern_vcprintf :: "u8 list \<Rightarrow> va_arg list \<Rightarrow> console \<Rightarrow> (int \<times> console) option" where
  "kern_vcprintf fmt ap s = map_option (\<lambda>out. fold kern_putch out (0, s)) (vprintfmt fmt ap)"

definition kern_cprintf :: "u8 list \<Rightarrow> va_arg list \<Rightarrow> console \<Rightarrow> (int \<times> console) option" where
  "kern_cprintf fmt ap s = kern_vcprintf fmt ap s"

section \<open>User programs\<close>

text \<open>\<open>pb_buf\<close> holds the first \<open>pb_idx\<close> characters of the buffer; \<open>pb_calls\<close> are the calls of \<open>sys_cputs\<close>.\<close>

record printbuf =
  pb_idx :: nat
  pb_cnt :: nat
  pb_buf :: "u8 list"
  pb_calls :: "u8 list list"

definition putch :: "outch \<Rightarrow> printbuf \<Rightarrow> printbuf" where
  "putch ch b =
     (let b = b\<lparr>pb_buf := take (pb_idx b) (pb_buf b) @ [ucast ch], pb_idx := pb_idx b + 1\<rparr>;
          b = (if pb_idx b = 256 - 1 then b\<lparr>pb_calls := pb_calls b @ [take (pb_idx b) (pb_buf b)], pb_idx := 0\<rparr> else b) in
      b\<lparr>pb_cnt := pb_cnt b + 1\<rparr>)"

definition vcprintf :: "u8 list \<Rightarrow> va_arg list \<Rightarrow> (nat \<times> u8 list list) option" where
  "vcprintf fmt ap =
     map_option (\<lambda>out.
       let b = fold putch out \<lparr>pb_idx = 0, pb_cnt = 0, pb_buf = [], pb_calls = []\<rparr> in
       (pb_cnt b, pb_calls b @ [take (pb_idx b) (pb_buf b)])) (vprintfmt fmt ap)"

definition cprintf :: "u8 list \<Rightarrow> va_arg list \<Rightarrow> (nat \<times> u8 list list) option" where
  "cprintf fmt ap = vcprintf fmt ap"

section \<open>Printing to a descriptor\<close>

text \<open>\<open>wr\<close> is \<open>write\<close> on the descriptor, which dispatches to its device; \<open>'w\<close> is what the device changes.\<close>

record 'w fprintbuf =
  fb_idx :: nat
  fb_result :: int
  fb_error :: int
  fb_buf :: "u8 list"
  fb_world :: 'w

definition writebuf :: "(u8 list \<Rightarrow> 'w \<Rightarrow> int \<times> 'w) \<Rightarrow> 'w fprintbuf \<Rightarrow> 'w fprintbuf" where
  "writebuf wr b =
     (if fb_error b > 0 then
        let (result, w) = wr (take (fb_idx b) (fb_buf b)) (fb_world b);
            b = b\<lparr>fb_world := w\<rparr>;
            b = (if result > 0 then b\<lparr>fb_result := fb_result b + result\<rparr> else b) in
        if result \<noteq> int (fb_idx b) then b\<lparr>fb_error := (if result < 0 then result else 0)\<rparr> else b
      else b)"

definition fputch :: "(u8 list \<Rightarrow> 'w \<Rightarrow> int \<times> 'w) \<Rightarrow> outch \<Rightarrow> 'w fprintbuf \<Rightarrow> 'w fprintbuf" where
  "fputch wr ch b =
     (let b = b\<lparr>fb_buf := take (fb_idx b) (fb_buf b) @ [ucast ch], fb_idx := fb_idx b + 1\<rparr> in
      if fb_idx b = 256 then (writebuf wr b)\<lparr>fb_idx := 0\<rparr> else b)"

definition vfprintf :: "(u8 list \<Rightarrow> 'w \<Rightarrow> int \<times> 'w) \<Rightarrow> u8 list \<Rightarrow> va_arg list \<Rightarrow> 'w \<Rightarrow> (int \<times> 'w) option" where
  "vfprintf wr fmt ap w =
     map_option (\<lambda>out.
       let b = fold (fputch wr) out \<lparr>fb_idx = 0, fb_result = 0, fb_error = 1, fb_buf = [], fb_world = w\<rparr>;
           b = (if fb_idx b > 0 then writebuf wr b else b) in
       (if fb_result b \<noteq> 0 then fb_result b else fb_error b, fb_world b)) (vprintfmt fmt ap)"

section \<open>Properties\<close>

lemma kern_putch_all: "fold kern_putch out (cnt, s) = (cnt, fold cputchar out s)"
  by (induction out arbitrary: s) (simp_all add: kern_putch_def)

text \<open>The kernel prints every character in order; the count it returns is always 0.\<close>

theorem kern_cprintf_prints:
  "kern_cprintf fmt ap s = map_option (\<lambda>out. (0, fold cputchar out s)) (vprintfmt fmt ap)"
  by (simp add: kern_cprintf_def kern_vcprintf_def kern_putch_all)

text \<open>What a buffer has seen: full chunks of 255 characters, and fewer than 255 that are still in it.\<close>

definition pb_ok :: "u8 list \<Rightarrow> printbuf \<Rightarrow> bool" where
  "pb_ok out b \<longleftrightarrow> pb_idx b < 255 \<and> pb_idx b \<le> length (pb_buf b) \<and> pb_cnt b = length out
     \<and> (\<forall>c \<in> set (pb_calls b). length c = 255) \<and> concat (pb_calls b) @ take (pb_idx b) (pb_buf b) = out"

lemma putch_ok: "pb_ok out b \<Longrightarrow> pb_ok (out @ [ucast ch]) (putch ch b)"
  by (auto simp: pb_ok_def putch_def Let_def)

lemma putch_all: "pb_ok out b \<Longrightarrow> pb_ok (out @ map ucast cs) (fold putch cs b)"
proof (induction cs arbitrary: out b)
  case (Cons c cs)
  show ?case using Cons.IH [OF putch_ok [OF Cons.prems, of c]] by simp
qed simp

text \<open>
  (C37) Buffered printing is printing. The system calls that \<open>cprintf\<close> of a user program makes print, one after
  the other, exactly the characters of the format, and it returns their number; each call prints at most
  255 characters and only the last one fewer, so a text of fewer than 255 characters is printed by
  one call.
\<close>

theorem cprintf_buffered:
  assumes "vprintfmt fmt ap = Some out"
  shows "\<exists>full last. cprintf fmt ap = Some (length out, full @ [last]) \<and> concat full @ last = map ucast out
    \<and> (\<forall>c \<in> set full. length c = 255) \<and> length last < 255"
proof -
  let ?b = "fold putch out \<lparr>pb_idx = 0, pb_cnt = 0, pb_buf = [], pb_calls = []\<rparr>"
  have "pb_ok (map ucast out) ?b"
    using putch_all [of "[]" "\<lparr>pb_idx = 0, pb_cnt = 0, pb_buf = [], pb_calls = []\<rparr>" out] by (simp add: pb_ok_def)
  then have "pb_cnt ?b = length out \<and> concat (pb_calls ?b) @ take (pb_idx ?b) (pb_buf ?b) = map ucast out
    \<and> (\<forall>c \<in> set (pb_calls ?b). length c = 255) \<and> length (take (pb_idx ?b) (pb_buf ?b)) < 255"
    by (simp add: pb_ok_def)
  then show ?thesis
    by (intro exI [of _ "pb_calls ?b"] exI [of _ "take (pb_idx ?b) (pb_buf ?b)"])
      (simp add: cprintf_def vcprintf_def assms Let_def)
qed

theorem cprintf_buffered_witness: "\<exists>full last. cprintf [0x68, 0x69] [] = Some (2, full @ [last]) \<and> concat full @ last = [0x68, 0x69]"
proof -
  have "vprintfmt [0x68, 0x69] [] = Some [0x68, 0x69]" by (simp add: vprintfmt_def fmt_main.simps)
  from cprintf_buffered [OF this] show ?thesis by auto
qed

text \<open>A device that takes everything it is given.\<close>

definition write_all :: "u8 list \<Rightarrow> u8 list \<Rightarrow> int \<times> u8 list" where
  "write_all c w = (int (length c), w @ c)"

definition fb_ok :: "u8 list \<Rightarrow> u8 list \<Rightarrow> u8 list fprintbuf \<Rightarrow> bool" where
  "fb_ok w out b \<longleftrightarrow> fb_idx b < 256 \<and> fb_idx b \<le> length (fb_buf b) \<and> fb_error b = 1
     \<and> fb_result b + int (fb_idx b) = int (length out) \<and> fb_world b @ take (fb_idx b) (fb_buf b) = w @ out"

lemma fputch_ok: "fb_ok w out b \<Longrightarrow> fb_ok w (out @ [ucast ch]) (fputch write_all ch b)"
  by (auto simp: fb_ok_def fputch_def writebuf_def write_all_def Let_def)

lemma fputch_all: "fb_ok w out b \<Longrightarrow> fb_ok w (out @ map ucast cs) (fold (fputch write_all) cs b)"
proof (induction cs arbitrary: out b)
  case (Cons c cs)
  show ?case using Cons.IH [OF fputch_ok [OF Cons.prems, of c]] by simp
qed simp

text \<open>
  On such a device \<open>fprintf\<close> writes the characters of the format and returns their number, except that it
  returns 1 when there are none.
\<close>

theorem vfprintf_write_all:
  "vfprintf write_all fmt ap w
    = map_option (\<lambda>out. (if out = [] then 1 else int (length out), w @ map ucast out)) (vprintfmt fmt ap)"
proof (cases "vprintfmt fmt ap")
  case (Some out)
  define b where "b = fold (fputch write_all) out \<lparr>fb_idx = 0, fb_result = 0, fb_error = 1, fb_buf = [], fb_world = w\<rparr>"
  have "fb_ok w (map ucast out) b"
    using fputch_all [of w "[]" "\<lparr>fb_idx = 0, fb_result = 0, fb_error = 1, fb_buf = [], fb_world = w\<rparr>" out]
    by (simp add: fb_ok_def b_def)
  then have "fb_error b = 1" "fb_idx b \<le> length (fb_buf b)" "fb_result b + int (fb_idx b) = int (length out)"
    "fb_world b @ take (fb_idx b) (fb_buf b) = w @ map ucast out"
    by (simp_all add: fb_ok_def)
  moreover have "out = [] \<longleftrightarrow> int (length out) = 0" by simp
  ultimately show ?thesis
    unfolding vfprintf_def Some option.map b_def [symmetric]
    by (auto simp: writebuf_def write_all_def Let_def)
qed (simp add: vfprintf_def)

end
