(* ===== verification/Readline.thy ===== *)
theory Readline
  imports Printf
begin

text \<open>
  Reading of lines, \<^verbatim>\<open>lib/readline.c\<close>, which the kernel monitor and the shell share, and the console device of
  user programs, \<^verbatim>\<open>lib/console.c\<close>. What \<open>getchar\<close> and \<open>sys_cgetc\<close> return is a list of values; a loop that
  comes to its end still waits and has no result. Output is the list of characters printed.
\<close>

section \<open>Lines\<close>

definition BUFLEN :: nat where [jos_consts]: "BUFLEN = 1024"

text \<open>\<open>buf\<close> is a static array: it keeps its contents between two calls.\<close>

record rlstate =
  rl_buf :: "nat \<Rightarrow> u8"
  rl_i :: nat
  rl_out :: "u8 list"

definition echo :: "bool \<Rightarrow> u8 \<Rightarrow> rlstate \<Rightarrow> rlstate" where
  "echo echoing c s = (if echoing then s\<lparr>rl_out := rl_out s @ [c]\<rparr> else s)"

definition read_error :: "int \<Rightarrow> u8 list" where
  "read_error c =
     (case vprintfmt (codes ''read error: %e'' @ [10]) [AInt (of_int c)] of None \<Rightarrow> [] | Some out \<Rightarrow> map ucast out)"

text \<open>
  The result is whether a line was read (\<open>buf\<close>) or not (a null pointer), the state, and the characters that
  have not been looked at.
\<close>

fun readline_loop :: "bool \<Rightarrow> int list \<Rightarrow> rlstate \<Rightarrow> (bool \<times> rlstate \<times> int list) option" where
  "readline_loop echoing [] s = None"
| "readline_loop echoing (c # cs) s =
     (if c < 0 then
        Some (False, if c \<noteq> - E_EOF then s\<lparr>rl_out := rl_out s @ read_error c\<rparr> else s, cs)
      else if (c = 8 \<or> c = 0x7F) \<and> rl_i s > 0 then
        readline_loop echoing cs ((echo echoing 8 s)\<lparr>rl_i := rl_i s - 1\<rparr>)
      else if c \<ge> 0x20 \<and> rl_i s < BUFLEN - 1 then
        readline_loop echoing cs
          ((echo echoing (of_int c) s)\<lparr>rl_buf := (rl_buf s)(rl_i s := of_int c), rl_i := rl_i s + 1\<rparr>)
      else if c = 10 \<or> c = 13 then
        Some (True, (echo echoing 10 s)\<lparr>rl_buf := (rl_buf s)(rl_i s := 0)\<rparr>, cs)
      else readline_loop echoing cs s)"

definition readline :: "u8 list option \<Rightarrow> bool \<Rightarrow> int list \<Rightarrow> rlstate \<Rightarrow> (bool \<times> rlstate \<times> int list) option" where
  "readline prompt echoing cs s =
     (let s = (case prompt of None \<Rightarrow> s | Some p \<Rightarrow> s\<lparr>rl_out := rl_out s @ takeWhile (\<lambda>c. c \<noteq> 0) p\<rparr>) in
      readline_loop echoing cs (s\<lparr>rl_i := 0\<rparr>))"

section \<open>The console device\<close>

text \<open>\<open>devcons_read\<close> polls with \<open>sys_cgetc\<close>, which returns 0 when no character waits; then it yields.\<close>

fun cgetc_loop :: "int list \<Rightarrow> (int \<times> int list) option" where
  "cgetc_loop [] = None"
| "cgetc_loop (c # cs) = (if c = 0 then cgetc_loop cs else Some (c, cs))"

text \<open>The result is the return value, the byte stored at \<open>vbuf\<close>, if any, and the rest of the input.\<close>

definition devcons_read :: "u32 \<Rightarrow> int list \<Rightarrow> (int \<times> u8 option \<times> int list) option" where
  "devcons_read n cs =
     (if n = 0 then Some (0, None, cs)
      else
        map_option (\<lambda>(c, cs).
          if c < 0 then (c, None, cs) else if c = 4 then (0, None, cs) else (1, Some (of_int c), cs))
          (cgetc_loop cs))"

text \<open>The chunks that \<open>devcons_write\<close> passes to \<open>sys_cputs\<close>; \<open>buf\<close> has 128 bytes.\<close>

function devcons_chunks :: "u8 list \<Rightarrow> u8 list list" where
  "devcons_chunks vbuf =
     (if vbuf = [] then []
      else let m = (if length vbuf > 128 - 1 then 128 - 1 else length vbuf) in
           take m vbuf # devcons_chunks (drop m vbuf))"
  by pat_completeness auto
termination
  by (relation "measure length") auto

declare devcons_chunks.simps [simp del]

definition devcons_write :: "u8 list \<Rightarrow> int \<times> u8 list list" where
  "devcons_write vbuf = (int (length vbuf), devcons_chunks vbuf)"

text \<open>\<open>getchar\<close> on standard input, when descriptor 0 is the console.\<close>

definition cons_getchar :: "int list \<Rightarrow> (int \<times> int list) option" where
  "cons_getchar cs =
     map_option (\<lambda>(r, c, cs). (if r < 0 then r else if r < 1 then - E_EOF else int (unat (the c)), cs)) (devcons_read 1 cs)"

section \<open>Properties\<close>

lemma devcons_chunks_Nil: "devcons_chunks [] = []"
  by (simp add: devcons_chunks.simps)

lemma devcons_chunks_all: "concat (devcons_chunks v) = v \<and> (\<forall>c \<in> set (devcons_chunks v). c \<noteq> [] \<and> length c \<le> 127)"
proof (induction v rule: devcons_chunks.induct)
  case (1 v)
  then show ?case
    by (cases "v = []") (auto simp: devcons_chunks_Nil devcons_chunks.simps [of v] Let_def split: if_splits)
qed

text \<open>One key on a line that is being edited.\<close>

definition edit :: "u8 list \<Rightarrow> int \<Rightarrow> u8 list" where
  "edit l c =
     (if (c = 8 \<or> c = 0x7F) \<and> l \<noteq> [] then butlast l
      else if c \<ge> 0x20 \<and> length l < 1023 then l @ [of_int c]
      else l)"

definition rl_line :: "rlstate \<Rightarrow> u8 list" where
  "rl_line s = map (rl_buf s) [0..<rl_i s]"

lemma edit_bound: "length l \<le> 1023 \<Longrightarrow> length (edit l c) \<le> 1023"
  by (auto simp: edit_def)

lemma rl_line_edit:
  assumes "(c = 8 \<or> c = 0x7F) \<and> rl_i s > 0"
  shows "rl_line ((echo e 8 s)\<lparr>rl_i := rl_i s - 1\<rparr>) = edit (rl_line s) c"
proof -
  obtain k where "rl_i s = Suc k" using assms by (cases "rl_i s") auto
  then show ?thesis using assms by (auto simp: rl_line_def edit_def echo_def butlast_append)
qed

lemma rl_line_store:
  assumes "\<not> ((c = 8 \<or> c = 0x7F) \<and> rl_i s > 0)" and "c \<ge> 0x20 \<and> rl_i s < BUFLEN - 1"
  shows "rl_line ((echo e (of_int c) s)\<lparr>rl_buf := (rl_buf s)(rl_i s := of_int c), rl_i := rl_i s + 1\<rparr>) = edit (rl_line s) c"
  using assms by (auto simp: rl_line_def edit_def echo_def jos_consts)

lemma readline_loop_line:
  assumes "\<forall>c \<in> set cs. 0 \<le> c \<and> c \<noteq> 10 \<and> c \<noteq> 13" and "nl = 10 \<or> nl = 13" and "rl_i s \<le> 1023"
  shows "\<exists>t. readline_loop e (cs @ nl # rest) s = Some (True, t, rest) \<and> rl_line t = fold (\<lambda>c l. edit l c) cs (rl_line s)
    \<and> rl_i t \<le> 1023 \<and> rl_buf t (rl_i t) = 0 \<and> (\<forall>k \<ge> 1024. rl_buf t k = rl_buf s k)"
  using assms
proof (induction cs arbitrary: s)
  case Nil
  then show ?case by (auto simp: rl_line_def echo_def)
next
  case (Cons c cs)
  have IH: "\<exists>t. readline_loop e (cs @ nl # rest) u = Some (True, t, rest) \<and> rl_line t = fold (\<lambda>c l. edit l c) cs (edit (rl_line s) c)
    \<and> rl_i t \<le> 1023 \<and> rl_buf t (rl_i t) = 0 \<and> (\<forall>k \<ge> 1024. rl_buf t k = rl_buf s k)"
    if "rl_line u = edit (rl_line s) c" "rl_i u \<le> 1023" "\<forall>k \<ge> 1024. rl_buf u k = rl_buf s k" for u
    using Cons.IH [of u] Cons.prems that by auto
  have c: "\<not> c < 0" "c \<noteq> 10" "c \<noteq> 13" using Cons.prems(1) by auto
  consider "(c = 8 \<or> c = 0x7F) \<and> rl_i s > 0"
    | "\<not> ((c = 8 \<or> c = 0x7F) \<and> rl_i s > 0)" "c \<ge> 0x20 \<and> rl_i s < BUFLEN - 1"
    | "\<not> ((c = 8 \<or> c = 0x7F) \<and> rl_i s > 0)" "\<not> (c \<ge> 0x20 \<and> rl_i s < BUFLEN - 1)" by blast
  then show ?case
  proof cases
    case 1
    then show ?thesis using IH [OF rl_line_edit [OF 1]] c Cons.prems(3) by (simp add: echo_def)
  next
    case 2
    then have "readline_loop e (c # xs) s = readline_loop e xs
        ((echo e (of_int c) s)\<lparr>rl_buf := (rl_buf s)(rl_i s := of_int c), rl_i := rl_i s + 1\<rparr>)" for xs
      unfolding readline_loop.simps using c by (simp only: if_True if_False simp_thms)
    then show ?thesis using IH [OF rl_line_store [OF 2]] 2(2) by (simp add: echo_def jos_consts)
  next
    case 3
    then have same: "rl_line s = edit (rl_line s) c" by (auto simp: edit_def rl_line_def jos_consts)
    have "readline_loop e (c # xs) s = readline_loop e xs s" for xs
      unfolding readline_loop.simps using 3 c by (simp only: if_True if_False simp_thms)
    then show ?thesis using IH [OF same] Cons.prems(3) by simp
  qed
qed

text \<open>
  (C39) Line editing. \<open>readline\<close> returns the line that the keys before the first newline or carriage return spell,
  where a backspace or delete takes back the last character and further characters are dropped once the
  line has 1023; it is terminated by a zero, and nothing behind the 1024 bytes of the buffer is written.
\<close>

theorem readline_edits:
  assumes "\<forall>c \<in> set cs. 0 \<le> c \<and> c \<noteq> 10 \<and> c \<noteq> 13" and "nl = 10 \<or> nl = 13"
  shows "\<exists>t. readline prompt e (cs @ nl # rest) s = Some (True, t, rest) \<and> rl_line t = fold (\<lambda>c l. edit l c) cs []
    \<and> rl_i t < BUFLEN \<and> rl_buf t (rl_i t) = 0 \<and> (\<forall>k \<ge> BUFLEN. rl_buf t k = rl_buf s k)"
proof -
  define u where "u = (case prompt of None \<Rightarrow> s | Some p \<Rightarrow> s\<lparr>rl_out := rl_out s @ takeWhile (\<lambda>c. c \<noteq> 0) p\<rparr>)\<lparr>rl_i := 0\<rparr>"
  have u: "rl_line u = []" "rl_i u = 0" "rl_buf u = rl_buf s" by (simp_all add: u_def rl_line_def split: option.split)
  obtain t where "readline_loop e (cs @ nl # rest) u = Some (True, t, rest)" "rl_line t = fold (\<lambda>c l. edit l c) cs []"
    "rl_i t \<le> 1023" "rl_buf t (rl_i t) = 0" "\<forall>k \<ge> 1024. rl_buf t k = rl_buf s k"
    using readline_loop_line [OF assms, of u e rest] u by auto
  then show ?thesis by (simp add: readline_def u_def BUFLEN_def)
qed

theorem readline_edits_witness:
  "\<exists>t. readline None True [0x61, 0x62, 8, 0x63, 10] \<lparr>rl_buf = (\<lambda>_. 0), rl_i = 0, rl_out = []\<rparr> = Some (True, t, [])
     \<and> rl_line t = [0x61, 0x63]"
  using readline_edits [of "[0x61, 0x62, 8, 0x63]" 10 None True "[]" "\<lparr>rl_buf = (\<lambda>_. 0), rl_i = 0, rl_out = []\<rparr>"]
  by (auto simp: edit_def)

text \<open>A delete on an empty line is taken for a character.\<close>

theorem readline_delete_first: "edit [] 0x7F = [0x7F]"
  by (simp add: edit_def)

end
