(* ===== verification/Cmdline.thy ===== *)
theory Cmdline
  imports Readline
begin

text \<open>
  The command interpreter of the kernel monitor, \<^verbatim>\<open>kern/monitor.c\<close>. It cuts a line into words in place, by
  overwriting the separators with zeros, and passes pointers into it on. A line is a string in memory; a
  loop over a string without an end does not return.
\<close>

section \<open>Spans of a string\<close>

definition is_white :: "u8 \<Rightarrow> bool" where
  "is_white c \<longleftrightarrow> c \<in> {9, 13, 10, 32}"




definition zero_range :: "mem \<Rightarrow> u32 \<Rightarrow> nat \<Rightarrow> mem" where
  "zero_range m p n = (\<lambda>a. if unat (a - p) < n then 0 else m a)"

lemma zero_range_0 [simp]: "zero_range m p 0 = m"
  by (simp add: zero_range_def)

lemma is_white_0 [simp]: "\<not> is_white 0"
  by (simp add: is_white_def)








section \<open>The words of a line\<close>



section \<open>The kernel monitor\<close>




























end
