(* ===== verification/Args.thy ===== *)
theory Args
  imports Jos_Prelude
begin

text \<open>
  Parsing of command lines, \<^verbatim>\<open>lib/args.c\<close>. The argument array is a list of strings, shared between the
  caller and the parser: \<open>*argc\<close> is its length and the entry behind it is null. A string is the list of its
  characters before the terminating zero, a pointer into it a suffix, a null pointer \<open>None\<close>.
\<close>

section \<open>The parser\<close>

record argstate =
  arg_list :: "u8 list list"
  curarg :: "u8 list option"
  arg_value :: "u8 list option"

abbreviation dash :: u8 where "dash \<equiv> 0x2D"

definition argstart :: "u8 list list \<Rightarrow> argstate" where
  "argstart argv = \<lparr>arg_list = argv, curarg = (if length argv > 1 then Some [] else None), arg_value = None\<rparr>"

text \<open>\<open>memmove\<close> of the entries from 2 on, with the null at the end, over those from 1 on.\<close>

definition drop_arg1 :: "argstate \<Rightarrow> argstate" where
  "drop_arg1 s = s\<lparr>arg_list := take 1 (arg_list s) @ drop 2 (arg_list s)\<rparr>"

definition next_char :: "argstate \<Rightarrow> int \<times> argstate" where
  "next_char s =
     (case curarg s of
        Some (c # cs) \<Rightarrow> (int (unat c), s\<lparr>curarg := Some cs\<rparr>)
      | _ \<Rightarrow> (0, s))"

definition argnext :: "argstate \<Rightarrow> int \<times> argstate" where
  "argnext s =
     (let s = s\<lparr>arg_value := None\<rparr>; endofargs = (\<lambda>s. (- 1, s\<lparr>curarg := None\<rparr>)) in
      case curarg s of
        None \<Rightarrow> (- 1, s)
      | Some (c # cs) \<Rightarrow> next_char s
      | Some [] \<Rightarrow>
          (if length (arg_list s) = 1 then endofargs s
           else
             case arg_list s ! 1 of
               a # b # cs \<Rightarrow>
                 if a \<noteq> dash then endofargs s
                 else
                   let s = drop_arg1 (s\<lparr>curarg := Some (b # cs)\<rparr>) in
                   if b = dash \<and> cs = [] then endofargs s else next_char s
             | _ \<Rightarrow> endofargs s))"

definition argnextvalue :: "argstate \<Rightarrow> u8 list option \<times> argstate" where
  "argnextvalue s =
     (case curarg s of
        None \<Rightarrow> (None, s)
      | Some (c # cs) \<Rightarrow> (Some (c # cs), s\<lparr>arg_value := Some (c # cs), curarg := Some []\<rparr>)
      | Some [] \<Rightarrow>
          if length (arg_list s) > 1
          then (Some (arg_list s ! 1), drop_arg1 (s\<lparr>arg_value := Some (arg_list s ! 1)\<rparr>))
          else (None, s\<lparr>arg_value := None, curarg := None\<rparr>))"

definition argvalue :: "argstate \<Rightarrow> u8 list option \<times> argstate" where
  "argvalue s = (case arg_value s of Some v \<Rightarrow> (Some v, s) | None \<Rightarrow> argnextvalue s)"

section \<open>What the parser returns\<close>

text \<open>
  The flags of a list of arguments and what is left: flags stop before an argument that is not a flag,
  before a lone dash, and behind a double dash.
\<close>

fun split_flags :: "u8 list list \<Rightarrow> u8 list \<times> u8 list list" where
  "split_flags [] = ([], [])"
| "split_flags (a # as) =
     (if a = [dash, dash] then ([], as)
      else if length a \<ge> 2 \<and> hd a = dash then let (fs, rest) = split_flags as in (tl a @ fs, rest)
      else ([], a # as))"

text \<open>The loop of a caller: calls of \<open>argnext\<close> until it returns -1, at most \<open>n\<close> of them.\<close>

fun argnext_loop :: "nat \<Rightarrow> argstate \<Rightarrow> int list \<times> argstate" where
  "argnext_loop 0 s = ([], s)"
| "argnext_loop (Suc n) s =
     (let (r, s) = argnext s in
      if r < 0 then ([], s) else let (rs, s) = argnext_loop n s in (r # rs, s))"

lemma argnext_inside:
  "curarg s = Some (c # cs) \<Longrightarrow> arg_value s = None \<Longrightarrow> argnext s = (int (unat c), s\<lparr>curarg := Some cs\<rparr>)"
  by (cases s) (simp add: argnext_def next_char_def)

lemma argnext_loop_inside:
  "curarg s = Some cs \<Longrightarrow> arg_value s = None \<Longrightarrow> argnext_loop (length cs + n) s
    = (let (rs, t) = argnext_loop n (s\<lparr>curarg := Some []\<rparr>) in (map (\<lambda>c. int (unat c)) cs @ rs, t))"
proof (induction cs arbitrary: s)
  case Nil
  then have "s\<lparr>curarg := Some []\<rparr> = s" by simp
  then show ?case by simp
next
  case (Cons c cs)
  then show ?case by (simp add: argnext_inside case_prod_beta Let_def)
qed

lemma argnext_loop_flags:
  "arg_list s = a0 # as \<Longrightarrow> curarg s = Some [] \<Longrightarrow> arg_value s = None \<Longrightarrow> length (fst (split_flags as)) < n \<Longrightarrow>
    argnext_loop n s = (map (\<lambda>c. int (unat c)) (fst (split_flags as)),
      s\<lparr>arg_list := a0 # snd (split_flags as), curarg := None\<rparr>)"
proof (induction as arbitrary: s n rule: split_flags.induct)
  case 1
  then show ?case by (cases n) (simp_all add: argnext_def)
next
  case (2 a as)
  consider "a = [dash, dash]" | "a \<noteq> [dash, dash]" "length a \<ge> 2" "hd a = dash" | "\<not> (length a \<ge> 2 \<and> hd a = dash)" by blast
  then show ?case
  proof cases
    case 1
    then show ?thesis using 2(2-) by (cases n) (simp_all add: argnext_def drop_arg1_def Let_def)
  next
    case 3
    then show ?thesis
      using 2(2-) by (cases n) (auto simp: argnext_def Let_def Suc_le_eq split: list.splits)
  next
    case 2
    then obtain b cs where a: "a = dash # b # cs" by (cases a; cases "tl a") auto
    have nd: "\<not> (b = dash \<and> cs = [])" using 2(1) a by simp
    let ?s = "s\<lparr>arg_list := a0 # as, curarg := Some (b # cs)\<rparr>"
    have first: "argnext s = argnext ?s"
      using \<open>arg_list s = a0 # a # as\<close> \<open>curarg s = Some []\<close> nd
      by (auto simp: argnext_def a drop_arg1_def next_char_def Let_def)
    obtain m where n: "n = length (b # cs) + m" and m: "length (fst (split_flags as)) < m"
      using \<open>length (fst (split_flags (a # as))) < n\<close> 2 a nd
      by (auto simp: case_prod_beta dest!: less_imp_Suc_add)
    have "argnext_loop n s = argnext_loop n ?s" using first n by (simp add: case_prod_beta)
    also have "\<dots> = (let (rs, t) = argnext_loop m (s\<lparr>arg_list := a0 # as, curarg := Some []\<rparr>) in
        (map (\<lambda>c. int (unat c)) (b # cs) @ rs, t))"
      using argnext_loop_inside [of ?s "b # cs" m] \<open>arg_value s = None\<close> unfolding n by simp
    finally show ?thesis
      using "2.IH" [of "s\<lparr>arg_list := a0 # as, curarg := Some []\<rparr>" m] \<open>arg_value s = None\<close> m 2 a nd
      by (auto simp: case_prod_beta)
  qed
qed

text \<open>
  (C40) The argument parser meets its specification. Calling \<open>argnext\<close> until it returns -1 returns the characters of all
  flag arguments in order, and then the argument array holds the program name and exactly the arguments
  behind the flags: flags end before an argument that does not start with a dash, before a lone dash, and
  behind a double dash, which is consumed.
\<close>

theorem argnext_splits:
  assumes "length (fst (split_flags as)) < n"
  shows "fst (argnext_loop n (argstart (a0 # as))) = map (\<lambda>c. int (unat c)) (fst (split_flags as))
    \<and> arg_list (snd (argnext_loop n (argstart (a0 # as)))) = a0 # snd (split_flags as)"
proof (cases as)
  case Nil
  then show ?thesis using assms by (cases n) (simp_all add: argstart_def argnext_def)
next
  case Cons
  then show ?thesis using argnext_loop_flags [of "argstart (a0 # as)" a0 as n] assms by (simp add: argstart_def)
qed

text \<open>The command line \<open>sh -ix -- -y\<close>.\<close>

theorem argnext_splits_witness:
  "let s = argnext_loop 3 (argstart [[0x73, 0x68], [dash, 0x69, 0x78], [dash, dash], [dash, 0x79]]) in
   fst s = [0x69, 0x78] \<and> arg_list (snd s) = [[0x73, 0x68], [dash, 0x79]]"
  using argnext_splits [of "[[dash, 0x69, 0x78], [dash, dash], [dash, 0x79]]" 3 "[0x73, 0x68]"] by (simp add: Let_def)

text \<open>
  The value of a flag is what follows it in its argument, or else the next argument; asking again
  returns the same value.
\<close>

theorem argvalue_repeats: "argvalue s = (Some v, t) \<Longrightarrow> argvalue t = (Some v, t)"
  by (auto simp: argvalue_def argnextvalue_def drop_arg1_def split: option.splits list.splits if_splits)

end
