(* ===== verification/Pipe.thy ===== *)
theory Pipe
  imports Errors Jos_Prelude "HOL-Library.Sublist"
begin

text \<open>
  The pipe buffer of \<^verbatim>\<open>lib/pipe.c\<close>: the ring of PIPEBUFSIZ bytes that a reading and a writing
  environment share, and \<open>devpipe_read\<close> and \<open>devpipe_write\<close> as the two environments execute
  them, one access of the shared page per step, in any interleaving. Positions are \<open>off_t\<close>,
  signed 32-bit integers; an index outside the buffer is a fault of the model.
\<close>

section \<open>The buffer\<close>

definition PIPEBUFSIZ :: nat where [jos_consts]: "PIPEBUFSIZ = 32"

record pipe =
  p_rpos :: u32
  p_wpos :: u32
  p_buf :: "u8 list"

text \<open>\<open>pos % PIPEBUFSIZ\<close> on signed integers: the sign is that of the position.\<close>

definition pipe_index :: "u32 \<Rightarrow> int" where
  "pipe_index pos = (if sint pos < 0 then - ((- sint pos) mod int PIPEBUFSIZ) else sint pos mod int PIPEBUFSIZ)"

definition pipe_empty :: "pipe \<Rightarrow> bool" where
  "pipe_empty p \<longleftrightarrow> p_rpos p = p_wpos p"

text \<open>\<open>sizeof\<close> is unsigned, and so is the comparison.\<close>

definition pipe_full :: "pipe \<Rightarrow> bool" where
  "pipe_full p \<longleftrightarrow> p_wpos p \<ge> p_rpos p + of_nat PIPEBUFSIZ"

definition pipe_get :: "pipe \<Rightarrow> u8 option" where
  "pipe_get p = (if pipe_index (p_rpos p) < 0 then None else Some (p_buf p ! nat (pipe_index (p_rpos p))))"

definition pipe_put :: "u8 \<Rightarrow> pipe \<Rightarrow> pipe option" where
  "pipe_put c p =
     (if pipe_index (p_wpos p) < 0 then None
      else Some (p\<lparr>p_buf := (p_buf p)[nat (pipe_index (p_wpos p)) := c]\<rparr>))"

section \<open>The two ends\<close>

text \<open>
  The reader is before the test of the inner loop (RHead), has seen an empty pipe and is about
  to ask whether the writers are gone (REmpty), is about to take a byte (RTake), or to increment
  the position (RInc); then it has returned a value. \<open>r_got\<close> is the part of the buffer that is
  filled, so its length is \<open>i\<close>.
\<close>

datatype rpc = RHead | REmpty | RTake | RInc | RRet int | RFault

record reader =
  r_pc :: rpc
  r_n :: nat
  r_got :: "u8 list"

definition devpipe_read_step :: "bool \<Rightarrow> pipe \<Rightarrow> reader \<Rightarrow> pipe \<times> reader" where
  "devpipe_read_step closed p r =
     (case r_pc r of
        RHead \<Rightarrow>
          if length (r_got r) \<ge> r_n r then (p, r\<lparr>r_pc := RRet (int (length (r_got r)))\<rparr>)
          else if pipe_empty p then
            if length (r_got r) > 0 then (p, r\<lparr>r_pc := RRet (int (length (r_got r)))\<rparr>)
            else (p, r\<lparr>r_pc := REmpty\<rparr>)
          else (p, r\<lparr>r_pc := RTake\<rparr>)
      | REmpty \<Rightarrow> (p, r\<lparr>r_pc := (if closed then RRet 0 else RHead)\<rparr>)
      | RTake \<Rightarrow>
          (case pipe_get p of
             None \<Rightarrow> (p, r\<lparr>r_pc := RFault\<rparr>)
           | Some c \<Rightarrow> (p, r\<lparr>r_pc := RInc, r_got := r_got r @ [c]\<rparr>))
      | RInc \<Rightarrow> (p\<lparr>p_rpos := p_rpos p + 1\<rparr>, r\<lparr>r_pc := RHead\<rparr>)
      | RRet v \<Rightarrow> (p, r)
      | RFault \<Rightarrow> (p, r))"

datatype wpc = WHead | WFull | WStore | WInc | WRet int | WFault

record writer =
  w_pc :: wpc
  w_i :: nat
  w_src :: "u8 list"

definition devpipe_write_step :: "bool \<Rightarrow> pipe \<Rightarrow> writer \<Rightarrow> pipe \<times> writer" where
  "devpipe_write_step closed p w =
     (case w_pc w of
        WHead \<Rightarrow>
          if w_i w \<ge> length (w_src w) then (p, w\<lparr>w_pc := WRet (int (w_i w))\<rparr>)
          else if pipe_full p then (p, w\<lparr>w_pc := WFull\<rparr>)
          else (p, w\<lparr>w_pc := WStore\<rparr>)
      | WFull \<Rightarrow> (p, w\<lparr>w_pc := (if closed then WRet 0 else WHead)\<rparr>)
      | WStore \<Rightarrow>
          (case pipe_put (w_src w ! w_i w) p of
             None \<Rightarrow> (p, w\<lparr>w_pc := WFault\<rparr>)
           | Some p' \<Rightarrow> (p', w\<lparr>w_pc := WInc\<rparr>))
      | WInc \<Rightarrow> (p\<lparr>p_wpos := p_wpos p + 1\<rparr>, w\<lparr>w_pc := WHead, w_i := w_i w + 1\<rparr>)
      | WRet v \<Rightarrow> (p, w)
      | WFault \<Rightarrow> (p, w))"

section \<open>Both ends together\<close>

text \<open>
  \<open>sent\<close> and \<open>taken\<close> record the bytes that have been published and consumed over all calls. An
  end that has returned may call again, with any count or any data, or close.
\<close>

record pipesys =
  ring :: pipe
  rd :: reader
  wr :: writer
  rd_closed :: bool
  wr_closed :: bool
  sent :: "u8 list"
  taken :: "u8 list"

definition pipe_start :: pipesys where
  "pipe_start =
     \<lparr>ring = \<lparr>p_rpos = 0, p_wpos = 0, p_buf = replicate PIPEBUFSIZ 0\<rparr>,
      rd = \<lparr>r_pc = RRet 0, r_n = 0, r_got = []\<rparr>, wr = \<lparr>w_pc = WRet 0, w_i = 0, w_src = []\<rparr>,
      rd_closed = False, wr_closed = False, sent = [], taken = []\<rparr>"

definition rd_move :: "pipesys \<Rightarrow> pipesys" where
  "rd_move s =
     (let (p, r) = devpipe_read_step (wr_closed s) (ring s) (rd s) in
      s\<lparr>ring := p, rd := r,
        taken := (if r_pc (rd s) = RInc then taken s @ [last (r_got (rd s))] else taken s)\<rparr>)"

definition wr_move :: "pipesys \<Rightarrow> pipesys" where
  "wr_move s =
     (let (p, w) = devpipe_write_step (rd_closed s) (ring s) (wr s) in
      s\<lparr>ring := p, wr := w,
        sent := (if w_pc (wr s) = WInc then sent s @ [w_src (wr s) ! w_i (wr s)] else sent s)\<rparr>)"

inductive pipe_step :: "pipesys \<Rightarrow> pipesys \<Rightarrow> bool" where
  read_call: "r_pc (rd s) = RRet v \<Longrightarrow> \<not> rd_closed s \<Longrightarrow>
     pipe_step s (s\<lparr>rd := \<lparr>r_pc = RHead, r_n = n, r_got = []\<rparr>\<rparr>)"
| read_move: "\<not> rd_closed s \<Longrightarrow> pipe_step s (rd_move s)"
| read_close: "r_pc (rd s) = RRet v \<Longrightarrow> pipe_step s (s\<lparr>rd_closed := True\<rparr>)"
| write_call: "w_pc (wr s) = WRet v \<Longrightarrow> \<not> wr_closed s \<Longrightarrow>
     pipe_step s (s\<lparr>wr := \<lparr>w_pc = WHead, w_i = 0, w_src = bs\<rparr>\<rparr>)"
| write_move: "\<not> wr_closed s \<Longrightarrow> pipe_step s (wr_move s)"
| write_close: "w_pc (wr s) = WRet v \<Longrightarrow> pipe_step s (s\<lparr>wr_closed := True\<rparr>)"

abbreviation pipe_reach :: "pipesys \<Rightarrow> bool" where
  "pipe_reach \<equiv> pipe_step\<^sup>*\<^sup>* pipe_start"

section \<open>The invariant\<close>

text \<open>Positions below 2 GiB index the buffer as natural numbers would.\<close>

abbreviation pipe_limit :: nat where "pipe_limit \<equiv> 0x80000000"

lemma pipe_index_small:
  "unat pos < pipe_limit \<Longrightarrow> pipe_index pos = int (unat pos mod PIPEBUFSIZ)"
  by (simp add: pipe_index_def sint_eq_unat zmod_int)

lemma pipe_full_small:
  assumes "unat (p_rpos p) < pipe_limit"
  shows "pipe_full p \<longleftrightarrow> unat (p_rpos p) + PIPEBUFSIZ \<le> unat (p_wpos p)"
proof -
  have "unat (p_rpos p + of_nat PIPEBUFSIZ) = unat (p_rpos p) + PIPEBUFSIZ"
    using assms by (subst unat_add_no_wrap) (simp_all add: PIPEBUFSIZ_def)
  then show ?thesis by (simp add: pipe_full_def word_le_nat_alt)
qed

text \<open>The ring holds exactly the bytes that are sent and not yet taken.\<close>

definition ring_ok :: "pipe \<Rightarrow> u8 list \<Rightarrow> u8 list \<Rightarrow> bool" where
  "ring_ok p out inn \<longleftrightarrow>
     unat (p_rpos p) = length out \<and> unat (p_wpos p) = length inn \<and> prefix out inn \<and>
     length inn \<le> length out + PIPEBUFSIZ \<and> length (p_buf p) = PIPEBUFSIZ \<and>
     (\<forall>k. length out \<le> k \<and> k < length inn \<longrightarrow> p_buf p ! (k mod PIPEBUFSIZ) = inn ! k)"

definition rd_ok :: "reader \<Rightarrow> u8 list \<Rightarrow> u8 list \<Rightarrow> bool" where
  "rd_ok r out inn \<longleftrightarrow>
     (r_pc r = RTake \<longrightarrow> length out < length inn) \<and>
     (r_pc r = RInc \<longrightarrow> length out < length inn \<and> last (r_got r) = inn ! length out) \<and>
     r_pc r \<noteq> RFault"

definition wr_ok :: "writer \<Rightarrow> pipe \<Rightarrow> u8 list \<Rightarrow> u8 list \<Rightarrow> bool" where
  "wr_ok w p out inn \<longleftrightarrow>
     (w_pc w = WStore \<longrightarrow> length inn < length out + PIPEBUFSIZ) \<and>
     (w_pc w = WInc \<longrightarrow>
        length inn < length out + PIPEBUFSIZ \<and>
        p_buf p ! (length inn mod PIPEBUFSIZ) = w_src w ! w_i w) \<and>
     w_pc w \<noteq> WFault"

definition pipe_ok :: "pipesys \<Rightarrow> bool" where
  "pipe_ok s \<longleftrightarrow>
     ring_ok (ring s) (taken s) (sent s) \<and> rd_ok (rd s) (taken s) (sent s) \<and>
     wr_ok (wr s) (ring s) (taken s) (sent s)"

lemmas pipe_ok_defs = pipe_ok_def ring_ok_def rd_ok_def wr_ok_def

lemma pipe_ok_start: "pipe_ok pipe_start"
  by (simp add: pipe_ok_defs pipe_start_def)

text \<open>Two positions less than a buffer apart use different cells.\<close>

lemma mod_window:
  assumes "a \<le> k" "k < b" "b < a + PIPEBUFSIZ"
  shows "k mod PIPEBUFSIZ \<noteq> b mod PIPEBUFSIZ"
proof
  assume "k mod PIPEBUFSIZ = b mod PIPEBUFSIZ"
  then have "PIPEBUFSIZ dvd b - k" using assms(2) by (metis mod_eq_dvd_iff_nat less_imp_le)
  with assms show False by (auto dest: dvd_imp_le)
qed

lemma prefix_snoc_nth: "prefix xs ys \<Longrightarrow> length xs < length ys \<Longrightarrow> prefix (xs @ [ys ! length xs]) ys"
  by (auto simp: prefix_def nth_append neq_Nil_conv)

lemma rd_move_ok:
  assumes ok: "pipe_ok s" and lim: "length (sent s) < pipe_limit"
  shows "pipe_ok (rd_move s)"
proof -
  have r: "unat (p_rpos (ring s)) = length (taken s)" and w: "unat (p_wpos (ring s)) = length (sent s)"
    and pre: "prefix (taken s) (sent s)" and len: "length (p_buf (ring s)) = PIPEBUFSIZ"
    using ok by (simp_all add: pipe_ok_def ring_ok_def)
  have le: "length (taken s) \<le> length (sent s)" using pre by (rule prefix_length_le)
  have get: "pipe_get (ring s) = Some (p_buf (ring s) ! (length (taken s) mod PIPEBUFSIZ))"
    using r le lim by (simp add: pipe_get_def pipe_index_small)
  have inc: "unat (p_rpos (ring s) + 1) = length (taken s) + 1"
    using r le lim by (subst unat_add_no_wrap) simp_all
  have ne: "\<not> pipe_empty (ring s) \<Longrightarrow> length (taken s) < length (sent s)"
    using r w le by (auto simp: pipe_empty_def word_unat_eq_iff le_less)
  show ?thesis
  proof (cases "r_pc (rd s)")
    case RInc
    then have "length (taken s) < length (sent s)" "last (r_got (rd s)) = sent s ! length (taken s)"
      using ok by (simp_all add: pipe_ok_defs)
    then show ?thesis using ok RInc pre inc
      by (auto simp: pipe_ok_defs rd_move_def devpipe_read_step_def prefix_snoc_nth)
  qed (use ok get ne in \<open>auto simp: pipe_ok_defs rd_move_def devpipe_read_step_def\<close>)
qed

lemma wr_move_ok:
  assumes ok: "pipe_ok s" and lim: "length (sent (wr_move s)) < pipe_limit"
  shows "pipe_ok (wr_move s)"
proof -
  have r: "unat (p_rpos (ring s)) = length (taken s)" and w: "unat (p_wpos (ring s)) = length (sent s)"
    and pre: "prefix (taken s) (sent s)" and len: "length (p_buf (ring s)) = PIPEBUFSIZ"
    using ok by (simp_all add: pipe_ok_def ring_ok_def)
  have le: "length (taken s) \<le> length (sent s)" using pre by (rule prefix_length_le)
  have lim': "length (sent s) < pipe_limit"
    using lim by (auto simp: wr_move_def Let_def split: prod.splits if_splits)
  have ix: "pipe_index (p_wpos (ring s)) = int (length (sent s) mod PIPEBUFSIZ)"
    using w lim' by (simp add: pipe_index_small)
  have inc: "unat (p_wpos (ring s) + 1) = length (sent s) + 1"
    using w lim' by (subst unat_add_no_wrap) simp_all
  have nf: "\<not> pipe_full (ring s) \<Longrightarrow> length (sent s) < length (taken s) + PIPEBUFSIZ"
    using r w le lim' by (simp add: pipe_full_small)
  show ?thesis
  proof (cases "w_pc (wr s)")
    case WStore
    have "length (sent s) mod PIPEBUFSIZ < PIPEBUFSIZ" by (simp add: PIPEBUFSIZ_def)
    moreover have "length (sent s) < length (taken s) + PIPEBUFSIZ"
      using ok WStore by (simp add: pipe_ok_defs)
    moreover from this have
      "length (sent s) mod PIPEBUFSIZ = k mod PIPEBUFSIZ \<Longrightarrow> length (taken s) \<le> k \<Longrightarrow> \<not> k < length (sent s)" for k
      using mod_window by metis
    ultimately show ?thesis using ok WStore ix
      by (auto simp: pipe_ok_defs wr_move_def devpipe_write_step_def pipe_put_def nth_list_update)
  next
    case WInc
    then show ?thesis using ok inc
      by (auto simp: pipe_ok_defs wr_move_def devpipe_write_step_def nth_append less_Suc_eq)
  qed (use ok nf in \<open>auto simp: pipe_ok_defs wr_move_def devpipe_write_step_def\<close>)
qed

lemma pipe_step_sent: "pipe_step s t \<Longrightarrow> prefix (sent s) (sent t)"
  by (induction rule: pipe_step.induct) (auto simp: rd_move_def wr_move_def split: prod.splits)

lemma pipe_step_ok:
  assumes "pipe_step s t" "pipe_ok s" "length (sent t) < pipe_limit"
  shows "pipe_ok t"
  using assms
proof (induction rule: pipe_step.induct)
  case (read_move s)
  then have "length (sent s) < pipe_limit" by (simp add: rd_move_def split: prod.splits)
  with read_move show ?case by (simp add: rd_move_ok)
next
  case (write_move s)
  then show ?case by (simp add: wr_move_ok)
qed (auto simp: pipe_ok_defs)

lemma pipe_reach_ok:
  "pipe_reach s \<Longrightarrow> length (sent s) < pipe_limit \<Longrightarrow> pipe_ok s"
proof (induction rule: rtranclp_induct)
  case (step s t)
  have "length (sent s) \<le> length (sent t)"
    using step.hyps(2) by (simp add: pipe_step_sent prefix_length_le)
  with step show ?case by (simp add: pipe_step_ok)
qed (rule pipe_ok_start)

text \<open>What the two calls in progress have moved is the end of what has been moved in total.\<close>

definition calls_ok :: "pipesys \<Rightarrow> bool" where
  "calls_ok s \<longleftrightarrow>
     (if r_pc (rd s) = RInc then r_got (rd s) \<noteq> [] \<and> suffix (butlast (r_got (rd s))) (taken s)
      else suffix (r_got (rd s)) (taken s)) \<and>
     (w_pc (wr s) = WStore \<or> w_pc (wr s) = WInc \<longrightarrow> w_i (wr s) < length (w_src (wr s))) \<and>
     suffix (take (w_i (wr s)) (w_src (wr s))) (sent s)"

lemma rd_move_calls: "calls_ok s \<Longrightarrow> calls_ok (rd_move s)"
proof (cases "r_pc (rd s)")
  case RInc
  assume ok: "calls_ok s"
  then obtain bs b where "r_got (rd s) = bs @ [b]"
    using RInc by (cases "r_got (rd s)" rule: rev_cases) (auto simp: calls_ok_def)
  with ok RInc show ?thesis by (auto simp: calls_ok_def rd_move_def devpipe_read_step_def)
qed (auto simp: calls_ok_def rd_move_def devpipe_read_step_def split: option.splits)

lemma wr_move_calls: "calls_ok s \<Longrightarrow> calls_ok (wr_move s)"
  by (cases "w_pc (wr s)")
    (auto simp: calls_ok_def wr_move_def devpipe_write_step_def take_Suc_conv_app_nth split: option.splits)

lemma pipe_reach_calls: "pipe_reach s \<Longrightarrow> calls_ok s"
proof (induction rule: rtranclp_induct)
  case base
  show ?case by (simp add: calls_ok_def pipe_start_def)
next
  case (step s t)
  from step.hyps(2) step.IH show ?case
    by (induction rule: pipe_step.induct)
      (auto simp: rd_move_calls wr_move_calls, auto simp: calls_ok_def)
qed

section \<open>Running schedules\<close>

datatype act = ReadCall nat | ReadMove | ReadClose | WriteCall "u8 list" | WriteMove | WriteClose

fun act_on :: "act \<Rightarrow> pipesys \<Rightarrow> pipesys option" where
  "act_on (ReadCall n) s =
     (case r_pc (rd s) of
        RRet v \<Rightarrow> if rd_closed s then None else Some (s\<lparr>rd := \<lparr>r_pc = RHead, r_n = n, r_got = []\<rparr>\<rparr>)
      | _ \<Rightarrow> None)"
| "act_on ReadMove s = (if rd_closed s then None else Some (rd_move s))"
| "act_on ReadClose s = (case r_pc (rd s) of RRet v \<Rightarrow> Some (s\<lparr>rd_closed := True\<rparr>) | _ \<Rightarrow> None)"
| "act_on (WriteCall bs) s =
     (case w_pc (wr s) of
        WRet v \<Rightarrow> if wr_closed s then None else Some (s\<lparr>wr := \<lparr>w_pc = WHead, w_i = 0, w_src = bs\<rparr>\<rparr>)
      | _ \<Rightarrow> None)"
| "act_on WriteMove s = (if wr_closed s then None else Some (wr_move s))"
| "act_on WriteClose s = (case w_pc (wr s) of WRet v \<Rightarrow> Some (s\<lparr>wr_closed := True\<rparr>) | _ \<Rightarrow> None)"

fun acts_on :: "act list \<Rightarrow> pipesys \<Rightarrow> pipesys option" where
  "acts_on [] s = Some s"
| "acts_on (a # as) s = Option.bind (act_on a s) (acts_on as)"

lemma act_on_step: "act_on a s = Some t \<Longrightarrow> pipe_step s t"
  by (cases a) (auto intro: pipe_step.intros split: rpc.splits wpc.splits if_splits)

lemma acts_on_steps: "acts_on as s = Some t \<Longrightarrow> pipe_step\<^sup>*\<^sup>* s t"
  by (induction as arbitrary: s)
    (auto simp: bind_eq_Some_conv intro: converse_rtranclp_into_rtranclp dest: act_on_step)

section \<open>Properties\<close>

text \<open>
  Pipes are lossless and ordered (C23). In every interleaving of the reader and the writer, over any
  number of calls, as long as less than 2 GiB have gone through the pipe: the bytes taken are a
  prefix of the bytes sent, at most PIPEBUFSIZ bytes are in flight, the buffer that a read call
  has filled is the end of the bytes taken, the part of its data that a write call has written is
  the end of the bytes sent, and no access leaves the ring.
\<close>

theorem pipe_fifo:
  assumes "pipe_reach s" and "length (sent s) < pipe_limit"
  shows "prefix (taken s) (sent s) \<and> length (sent s) \<le> length (taken s) + PIPEBUFSIZ \<and>
    (r_pc (rd s) \<noteq> RInc \<longrightarrow> suffix (r_got (rd s)) (taken s)) \<and>
    suffix (take (w_i (wr s)) (w_src (wr s))) (sent s) \<and>
    r_pc (rd s) \<noteq> RFault \<and> w_pc (wr s) \<noteq> WFault"
proof -
  have "pipe_ok s" and "calls_ok s"
    using assms by (simp_all add: pipe_reach_ok pipe_reach_calls)
  then show ?thesis by (auto simp: pipe_ok_defs calls_ok_def)
qed

text \<open>A schedule in which two bytes are written and one of them is read.\<close>

definition sched_fifo :: "act list" where
  "sched_fifo =
     [WriteCall [7, 9], WriteMove, WriteMove, WriteMove, WriteMove, WriteMove, WriteMove, WriteMove,
      ReadCall 1, ReadMove, ReadMove, ReadMove, ReadMove]"

lemma sched_fifo_reach:
  "\<exists>s. pipe_reach s \<and> sent s = [7, 9] \<and> taken s = [7] \<and> r_pc (rd s) = RRet 1 \<and> r_got (rd s) = [7]"
proof -
  have "\<exists>s. acts_on sched_fifo pipe_start = Some s \<and> sent s = [7, 9] \<and> taken s = [7] \<and>
    r_pc (rd s) = RRet 1 \<and> r_got (rd s) = [7]"
    by (simp add: sched_fifo_def pipe_start_def rd_move_def wr_move_def devpipe_read_step_def
        devpipe_write_step_def pipe_empty_def pipe_full_def pipe_get_def pipe_put_def pipe_index_def PIPEBUFSIZ_def word_le_nat_alt)
  then show ?thesis using acts_on_steps by blast
qed

theorem pipe_fifo_witness:
  "\<exists>s. pipe_reach s \<and> length (sent s) < pipe_limit \<and> sent s = [7, 9] \<and> r_got (rd s) = [7] \<and>
     suffix (r_got (rd s)) (taken s) \<and> prefix (taken s) (sent s)"
proof -
  obtain s where s: "pipe_reach s" "sent s = [7, 9]" "r_pc (rd s) = RRet 1" "r_got (rd s) = [7]"
    using sched_fifo_reach by blast
  then show ?thesis using pipe_fifo [of s] by auto
qed


text \<open>Moves of one end that lead to the next byte.\<close>

lemma wr_moves:
  assumes "\<not> pipe_full (ring s)" "w_i (wr s) < length (w_src (wr s))" "pipe_index (p_wpos (ring s)) \<ge> 0"
    and "\<not> rd_closed s"
  shows "w_pc (wr s) = WInc \<Longrightarrow> length (sent ((wr_move ^^ 1) s)) = Suc (length (sent s))"
    and "w_pc (wr s) = WStore \<Longrightarrow> length (sent ((wr_move ^^ 2) s)) = Suc (length (sent s))"
    and "w_pc (wr s) = WHead \<Longrightarrow> length (sent ((wr_move ^^ 3) s)) = Suc (length (sent s))"
    and "w_pc (wr s) = WFull \<Longrightarrow> length (sent ((wr_move ^^ 4) s)) = Suc (length (sent s))"
  using assms by (simp_all add: numeral_2_eq_2 numeral_3_eq_3 numeral_eq_Suc wr_move_def devpipe_write_step_def pipe_put_def)

lemma rd_moves:
  assumes "\<not> pipe_empty (ring s)" "length (r_got (rd s)) < r_n (rd s)" "pipe_index (p_rpos (ring s)) \<ge> 0"
    and "\<not> wr_closed s"
  shows "r_pc (rd s) = RInc \<Longrightarrow> length (taken ((rd_move ^^ 1) s)) = Suc (length (taken s))"
    and "r_pc (rd s) = RTake \<Longrightarrow> length (taken ((rd_move ^^ 2) s)) = Suc (length (taken s))"
    and "r_pc (rd s) = RHead \<Longrightarrow> length (taken ((rd_move ^^ 3) s)) = Suc (length (taken s))"
    and "r_pc (rd s) = REmpty \<Longrightarrow> length (taken ((rd_move ^^ 4) s)) = Suc (length (taken s))"
  using assms by (simp_all add: numeral_2_eq_2 numeral_3_eq_3 numeral_eq_Suc rd_move_def devpipe_read_step_def pipe_get_def)

lemma some_move: "(\<exists>k \<in> {1..4}. P k) \<longleftrightarrow> P 1 \<or> P 2 \<or> P 3 \<or> P (4 :: nat)"
proof -
  have "{1..4} = {1, 2, 3, 4 :: nat}" by auto
  then show ?thesis by simp
qed

text \<open>
  The two ends never block each other (C24). In every reachable state in which a write call has
  bytes left and a read call has room left, with both ends open and less than 2 GiB transferred,
  at most four moves of the writer publish another byte or at most four moves of the reader take
  another one.
\<close>

theorem pipe_progress:
  assumes "pipe_reach s" and "length (sent s) < pipe_limit" and "\<not> rd_closed s" and "\<not> wr_closed s"
    and w: "w_i (wr s) < length (w_src (wr s))" "\<forall>v. w_pc (wr s) \<noteq> WRet v"
    and r: "length (r_got (rd s)) < r_n (rd s)" "\<forall>v. r_pc (rd s) \<noteq> RRet v"
  shows "(\<exists>k \<in> {1..4}. length (sent ((wr_move ^^ k) s)) = Suc (length (sent s))) \<or>
    (\<exists>k \<in> {1..4}. length (taken ((rd_move ^^ k) s)) = Suc (length (taken s)))"
proof -
  have ok: "pipe_ok s" using assms by (simp add: pipe_reach_ok)
  then have pos: "unat (p_rpos (ring s)) = length (taken s)" "unat (p_wpos (ring s)) = length (sent s)"
    and le: "length (taken s) \<le> length (sent s)"
    by (auto simp: pipe_ok_defs prefix_length_le)
  then have ix: "pipe_index (p_rpos (ring s)) \<ge> 0" "pipe_index (p_wpos (ring s)) \<ge> 0"
    using assms(2) by (simp_all add: pipe_index_small)
  show ?thesis
  proof (cases "pipe_full (ring s)")
    case True
    then have "\<not> pipe_empty (ring s)"
      using pos le assms(2) by (auto simp: pipe_full_small pipe_empty_def PIPEBUFSIZ_def)
    note mv = rd_moves [OF this r(1) ix(1) assms(4)]
    show ?thesis
      using r(2) ok mv unfolding some_move
      by (cases "r_pc (rd s)") (simp_all add: pipe_ok_defs)
  next
    case False
    note mv = wr_moves [OF this w(1) ix(2) assms(3)]
    show ?thesis
      using w(2) ok mv unfolding some_move
      by (cases "w_pc (wr s)") (simp_all add: pipe_ok_defs)
  qed
qed

theorem pipe_progress_witness:
  "\<exists>s. pipe_reach s \<and> w_src (wr s) = [7] \<and> sent s = [] \<and> taken s = [] \<and>
     ((\<exists>k \<in> {1..4}. length (sent ((wr_move ^^ k) s)) = Suc (length (sent s))) \<or>
      (\<exists>k \<in> {1..4}. length (taken ((rd_move ^^ k) s)) = Suc (length (taken s))))"
proof -
  have "\<exists>s. acts_on [ReadCall 1, WriteCall [7], ReadMove] pipe_start = Some s \<and> sent s = [] \<and> taken s = [] \<and>
    \<not> rd_closed s \<and> \<not> wr_closed s \<and> w_src (wr s) = [7] \<and> w_i (wr s) = 0 \<and> w_pc (wr s) = WHead \<and>
    r_n (rd s) = 1 \<and> r_got (rd s) = [] \<and> r_pc (rd s) = REmpty"
    by (simp add: pipe_start_def rd_move_def devpipe_read_step_def pipe_empty_def)
  then obtain s where s: "pipe_reach s" "sent s = []" "taken s = []" "\<not> rd_closed s" "\<not> wr_closed s"
    "w_src (wr s) = [7]" "w_i (wr s) = 0" "w_pc (wr s) = WHead"
    "r_n (rd s) = 1" "r_got (rd s) = []" "r_pc (rd s) = REmpty"
    using acts_on_steps by blast
  have "(\<exists>k \<in> {1..4}. length (sent ((wr_move ^^ k) s)) = Suc (length (sent s))) \<or>
      (\<exists>k \<in> {1..4}. length (taken ((rd_move ^^ k) s)) = Suc (length (taken s)))"
    by (rule pipe_progress) (simp_all add: s)
  with s show ?thesis by blast
qed

text \<open>
  Positions beyond 2 GiB. The store of a byte stays inside the ring exactly when the write
  position is not negative as a signed integer or is a multiple of the buffer size; from position
  0x80000001 on the index is negative and the store hits memory in front of the buffer.
\<close>

theorem pipe_put_bounds:
  "(pipe_put c p = None) = (sint (p_wpos p) < 0 \<and> sint (p_wpos p) mod int PIPEBUFSIZ \<noteq> 0) \<and>
   pipe_put c (p\<lparr>p_wpos := 0x80000001\<rparr>) = None"
proof
  define x where "x = sint (p_wpos p)"
  have "0 < (- x) mod 32 \<longleftrightarrow> x mod 32 \<noteq> 0" and "\<not> x mod 32 < 0" by presburger+
  then have "(pipe_put c p = None) = (x < 0 \<and> x mod 32 \<noteq> 0)"
    by (cases "x < 0") (simp_all add: pipe_put_def pipe_index_def PIPEBUFSIZ_def x_def [symmetric])
  then show "(pipe_put c p = None) = (sint (p_wpos p) < 0 \<and> sint (p_wpos p) mod int PIPEBUFSIZ \<noteq> 0)"
    by (simp add: x_def PIPEBUFSIZ_def)
  show "pipe_put c (p\<lparr>p_wpos := 0x80000001\<rparr>) = None"
    by (simp add: pipe_put_def pipe_index_def PIPEBUFSIZ_def)
qed

end
