(* ===== verification/Kdebug.thy ===== *)
theory Kdebug
  imports Jos_Prelude
begin

text \<open>
  Looking up the function and the line of an instruction, \<^verbatim>\<open>kern/kdebug.c\<close>. The table of stabs
  is memory seen as an array, a function on indices; how many of its entries are stabs is a
  separate argument. The binary search takes and returns the bounds of a region.
\<close>

record Stab =
  n_strx :: u32
  n_type :: u8
  n_other :: u8
  n_desc :: u16
  n_value :: u32

type_synonym stabs = "int \<Rightarrow> Stab"

definition N_FUN :: u8 where [jos_consts]: "N_FUN = 0x24"
definition N_SLINE :: u8 where [jos_consts]: "N_SLINE = 0x44"
definition N_SO :: u8 where [jos_consts]: "N_SO = 0x64"
definition N_SOL :: u8 where [jos_consts]: "N_SOL = 0x84"
definition N_PSYM :: u8 where [jos_consts]: "N_PSYM = 0xA0"

section \<open>Binary search\<close>

text \<open>The last entry of the type at or before \<open>m\<close>, or \<open>l - 1\<close> when there is none from \<open>l\<close> on.\<close>

function scan_type :: "stabs \<Rightarrow> u8 \<Rightarrow> int \<Rightarrow> int \<Rightarrow> int" where
  "scan_type st ty l m = (if m \<ge> l \<and> n_type (st m) \<noteq> ty then scan_type st ty l (m - 1) else m)"
  by pat_completeness auto
termination
  by (relation "measure (\<lambda>(st, ty, l, m). nat (m - l + 1))") auto

declare scan_type.simps [simp del]

lemma scan_type_le: "scan_type st ty l m \<le> m"
proof (induction st ty l m rule: scan_type.induct)
  case (1 st ty l m)
  then show ?case
    by (cases "m \<ge> l \<and> n_type (st m) \<noteq> ty") (auto simp: scan_type.simps [of st ty l m])
qed

lemma scan_type_ge: "l \<le> m + 1 \<Longrightarrow> l - 1 \<le> scan_type st ty l m"
proof (induction st ty l m rule: scan_type.induct)
  case (1 st ty l m)
  then show ?case
    by (cases "m \<ge> l \<and> n_type (st m) \<noteq> ty") (auto simp: scan_type.simps [of st ty l m])
qed

lemma scan_type_hit: "l \<le> scan_type st ty l m \<Longrightarrow> n_type (st (scan_type st ty l m)) = ty"
proof (induction st ty l m rule: scan_type.induct)
  case (1 st ty l m)
  then show ?case using scan_type_le [of st ty l m]
    by (cases "m \<ge> l \<and> n_type (st m) \<noteq> ty") (auto simp: scan_type.simps [of st ty l m])
qed

lemma scan_type_last: "scan_type st ty l m < i \<Longrightarrow> i \<le> m \<Longrightarrow> l \<le> i \<Longrightarrow> n_type (st i) \<noteq> ty"
proof (induction st ty l m rule: scan_type.induct)
  case (1 st ty l m)
  then show ?case
    by (cases "i = m"; cases "m \<ge> l \<and> n_type (st m) \<noteq> ty") (auto simp: scan_type.simps [of st ty l m])
qed

text \<open>Division by two as C does it, towards zero.\<close>

definition half :: "int \<Rightarrow> int" where
  "half x = (if x < 0 then - ((- x) div 2) else x div 2)"

lemma half_between: "l \<le> r \<Longrightarrow> l \<le> half (l + r) \<and> half (l + r) \<le> r"
  unfolding half_def by presburger

text \<open>
  The loop: \<open>l\<close>, \<open>r\<close>, the region \<open>rl\<close>, \<open>rr\<close>, \<open>any_matches\<close> and \<open>addr\<close>. After an exact match \<open>l\<close> may
  stay, but then the entry at \<open>l\<close> no longer has the address that is searched for.
\<close>

function binsearch_loop ::
  "stabs \<Rightarrow> u8 \<Rightarrow> int \<Rightarrow> int \<Rightarrow> int \<Rightarrow> int \<Rightarrow> bool \<Rightarrow> u32 \<Rightarrow> int \<times> int \<times> bool" where
  "binsearch_loop st ty l r rl rr any addr =
     (if l \<le> r then
        let true_m = half (l + r); m = scan_type st ty l true_m in
        if m < l then binsearch_loop st ty (true_m + 1) r rl rr any addr
        else if n_value (st m) < addr then binsearch_loop st ty (true_m + 1) r m rr True addr
        else if n_value (st m) > addr then binsearch_loop st ty l (m - 1) rl (m - 1) True addr
        else binsearch_loop st ty m r m rr True (addr + 1)
      else (rl, rr, any))"
  by pat_completeness auto

lemma addr_Suc_neq: "(a :: u32) + 1 \<noteq> a"
  by simp

termination binsearch_loop
proof (relation "(\<lambda>(st, ty, l, r, rl, rr, any, addr). nat (r - l + 1)) <*mlex*>
    measure (\<lambda>(st, ty, l, r, rl, rr, any, addr). if n_value (st l) = addr then 1 else 0)", goal_cases)
  case 1
  show ?case by (intro wf_mlex) simp
next
  case (2 st ty l r rl rr any addr true_m m)
  then have "l \<le> true_m" "true_m \<le> r" using half_between by auto
  then show ?case by (intro mlex_less) simp
next
  case (3 st ty l r rl rr any addr true_m m)
  then have "l \<le> true_m" "true_m \<le> r" using half_between by auto
  then show ?case by (intro mlex_less) simp
next
  case (4 st ty l r rl rr any addr true_m m)
  then have "m \<le> true_m" "true_m \<le> r" "l \<le> m" using half_between scan_type_le by auto
  then show ?case by (intro mlex_less) simp
next
  case (5 st ty l r rl rr any addr true_m m)
  then have m: "m \<le> true_m" "true_m \<le> r" "l \<le> m" "n_value (st m) = addr"
    using half_between scan_type_le by auto
  show ?case
  proof (cases "m = l")
    case True
    then show ?thesis using m by (intro mlex_leq) (simp_all add: addr_Suc_neq [symmetric])
  next
    case False
    then show ?thesis using m by (intro mlex_less) simp
  qed
qed

declare binsearch_loop.simps [simp del]

definition stab_binsearch :: "stabs \<Rightarrow> int \<Rightarrow> int \<Rightarrow> u8 \<Rightarrow> u32 \<Rightarrow> int \<times> int" where
  "stab_binsearch st left right ty addr =
     (let (rl, rr, any) = binsearch_loop st ty left right left right False addr in
      if \<not> any then (rl, rl - 1)
      else (scan_type st ty (rl + 1) rr, rr))"

section \<open>What the search finds\<close>

definition stab_hit :: "stabs \<Rightarrow> u8 \<Rightarrow> int \<Rightarrow> int \<Rightarrow> int \<Rightarrow> bool" where
  "stab_hit st ty L R i \<longleftrightarrow> L \<le> i \<and> i \<le> R \<and> n_type (st i) = ty"

text \<open>
  The entries of the type are in the order of their addresses, and none of them is exactly one
  byte after the address that is searched for.
\<close>

definition stabs_sorted :: "stabs \<Rightarrow> u8 \<Rightarrow> int \<Rightarrow> int \<Rightarrow> bool" where
  "stabs_sorted st ty L R \<longleftrightarrow>
     (\<forall>i j. stab_hit st ty L R i \<and> stab_hit st ty L R j \<and> i \<le> j \<longrightarrow> n_value (st i) \<le> n_value (st j))"

lemma stabs_sortedD:
  "stabs_sorted st ty L R \<Longrightarrow> stab_hit st ty L R i \<Longrightarrow> stab_hit st ty L R j \<Longrightarrow> i \<le> j \<Longrightarrow>
    n_value (st i) \<le> n_value (st j)"
  by (simp add: stabs_sorted_def)

definition stabs_gap :: "stabs \<Rightarrow> u8 \<Rightarrow> int \<Rightarrow> int \<Rightarrow> u32 \<Rightarrow> bool" where
  "stabs_gap st ty L R a \<longleftrightarrow> a < 0xFFFFFFFF \<and> (\<forall>i. stab_hit st ty L R i \<longrightarrow> n_value (st i) \<noteq> a + 1)"

text \<open>The entries up to \<open>r\<close> are those at or before the address, and \<open>rl\<close> is the last of them.\<close>

definition bracket :: "stabs \<Rightarrow> u8 \<Rightarrow> int \<Rightarrow> int \<Rightarrow> u32 \<Rightarrow> int \<Rightarrow> int \<Rightarrow> int \<Rightarrow> bool \<Rightarrow> bool" where
  "bracket st ty L R a l r rl any \<longleftrightarrow>
     L \<le> l \<and> r \<le> R \<and> l \<le> r + 1 \<and> L \<le> rl \<and>
     (\<forall>i. stab_hit st ty L R i \<and> i < l \<longrightarrow> n_value (st i) \<le> a \<and> i \<le> rl) \<and>
     (\<forall>i. stab_hit st ty L R i \<and> r < i \<longrightarrow> a < n_value (st i)) \<and>
     (r = R \<or> stab_hit st ty L R (r + 1)) \<and>
     (rl = L \<or> stab_hit st ty L R rl \<and> n_value (st rl) \<le> a) \<and>
     (any \<or> r = R \<and> (\<forall>i. stab_hit st ty L R i \<longrightarrow> l \<le> i))"

lemma u32_le_Suc: "(a :: u32) < 0xFFFFFFFF \<Longrightarrow> v < a + 1 \<longleftrightarrow> v \<le> a"
proof -
  assume "a < 0xFFFFFFFF"
  then have "unat (a + 1) = unat a + 1"
    by (subst unat_add_no_wrap) (simp_all add: word_less_nat_alt)
  then show ?thesis by (simp add: word_less_nat_alt word_le_nat_alt less_Suc_eq_le)
qed

text \<open>The four branches of the loop keep the bracket.\<close>

lemma bracket_skip:
  assumes "bracket st ty L R a l r rl any" "l \<le> true_m" "true_m \<le> r" "scan_type st ty l true_m < l"
  shows "bracket st ty L R a (true_m + 1) r rl any"
proof -
  have none: "\<not> stab_hit st ty L R i" if "l \<le> i" "i \<le> true_m" for i
    using scan_type_last [of st ty l true_m i] assms(4) that by (auto simp: stab_hit_def)
  have "i < l" if "stab_hit st ty L R i" "i < true_m + 1" for i
    using none [of i] that by (cases "l \<le> i") auto
  moreover have "true_m + 1 \<le> i" if "stab_hit st ty L R i" "l \<le> i" for i
    using none [of i] that by (cases "i \<le> true_m") auto
  ultimately show ?thesis using assms(1-3) unfolding bracket_def by auto
qed

lemma bracket_left:
  assumes b: "bracket st ty L R a l r rl any" and t: "l \<le> true_m" "true_m \<le> r"
    and m: "m = scan_type st ty l true_m" "l \<le> m" "n_value (st m) \<le> a"
    and srt: "stabs_sorted st ty L R"
  shows "bracket st ty L R a (true_m + 1) r m True" and "bracket st ty L R a m r m True"
proof -
  have mt: "m \<le> true_m" using m(1) scan_type_le by simp
  have hit: "stab_hit st ty L R m"
    using b t m mt scan_type_hit by (auto simp: stab_hit_def bracket_def)
  have "i \<le> m" if "stab_hit st ty L R i" "i \<le> true_m" for i
    using scan_type_last [of st ty l true_m i] that m by (cases "m < i") (auto simp: stab_hit_def)
  moreover have "n_value (st i) \<le> a" if "stab_hit st ty L R i" "i \<le> m" for i
    using m(3) stabs_sortedD [OF srt that(1) hit that(2)] by simp
  ultimately show "bracket st ty L R a (true_m + 1) r m True" and "bracket st ty L R a m r m True"
    using b t hit m mt unfolding bracket_def by auto
qed

lemma bracket_right:
  assumes b: "bracket st ty L R a l r rl any" and t: "l \<le> true_m" "true_m \<le> r"
    and m: "m = scan_type st ty l true_m" "l \<le> m" "a < n_value (st m)"
    and srt: "stabs_sorted st ty L R"
  shows "bracket st ty L R a l (m - 1) rl True"
proof -
  have mt: "m \<le> true_m" using m(1) scan_type_le by simp
  have hit: "stab_hit st ty L R m"
    using b t m mt scan_type_hit by (auto simp: stab_hit_def bracket_def)
  have "a < n_value (st i)" if "stab_hit st ty L R i" "m - 1 < i" for i
    using m(3) stabs_sortedD [OF srt hit that(1)] that(2) by simp
  then show ?thesis using b t hit m mt unfolding bracket_def by auto
qed

lemma binsearch_loop_bracket:
  assumes "stabs_sorted st ty L R" "stabs_gap st ty L R a" "bracket st ty L R a l r rl any"
    and "rr = r" "addr = a \<or> addr = a + 1" "binsearch_loop st ty l r rl rr any addr = (rl', rr', any')"
  shows "bracket st ty L R a (rr' + 1) rr' rl' any'"
  using assms
proof (induction st ty l r rl rr any addr rule: binsearch_loop.induct)
  case (1 st ty l r rl rr any addr)
  define true_m where "true_m = half (l + r)"
  define m where "m = scan_type st ty l true_m"
  note loop = binsearch_loop.simps [of st ty l r rl rr any addr, folded true_m_def, unfolded Let_def, folded m_def]
  note IH = 1(1-4) [OF _ true_m_def m_def]
  have a: "a < 0xFFFFFFFF" using "1.prems" by (simp add: stabs_gap_def)
  show ?case
  proof (cases "l \<le> r")
    case False
    then have "l = r + 1" using "1.prems" by (auto simp: bracket_def)
    with False "1.prems" loop show ?thesis by simp
  next
    case True
    then have t: "l \<le> true_m" "true_m \<le> r" using half_between true_m_def by simp_all
    have gap: "n_value (st m) \<noteq> a + 1" if "l \<le> m"
      using "1.prems"(2,3) t that scan_type_hit [of l st ty true_m] scan_type_le [of st ty l true_m]
      by (auto simp: stabs_gap_def stab_hit_def bracket_def m_def)
    consider "m < l" | "l \<le> m" "n_value (st m) < addr" | "l \<le> m" "addr < n_value (st m)"
      | "l \<le> m" "n_value (st m) = addr" by fastforce
    then show ?thesis
    proof cases
      case 1
      then show ?thesis
        using IH(1) [OF True 1 _ _ bracket_skip] "1.prems" t loop True by (simp add: m_def)
    next
      case 2
      then have "n_value (st m) \<le> a" using "1.prems" a u32_le_Suc by auto
      with 2 show ?thesis
        using IH(2) [OF True] bracket_left(1) [OF "1.prems"(3) t m_def] "1.prems" loop True by simp
    next
      case 3
      then have "a < n_value (st m)"
        using "1.prems" a u32_le_Suc [of a "n_value (st m)"] by auto
      with 3 show ?thesis
        using IH(3) [OF True] bracket_right [OF "1.prems"(3) t m_def] "1.prems" loop True by simp
    next
      case 4
      with gap "1.prems" have "addr = a" "n_value (st m) \<le> a" by auto
      with 4 show ?thesis
        using IH(4) [OF True] bracket_left(2) [OF "1.prems"(3) t m_def] "1.prems" loop True by simp
    qed
  qed
qed

text \<open>
  The binary search finds the entry that contains the address (C26). When the entries of the type in
  the region are in the order of their addresses, some entry is at or before the address and none
  is exactly one byte behind it, the search returns the last entry at or before the address, and
  the right end of the region is just before the next entry of the type.
\<close>

theorem stab_binsearch_correct:
  assumes "L \<le> R" and "stabs_sorted st ty L R" and "stabs_gap st ty L R a"
    and ex: "stab_hit st ty L R k" "n_value (st k) \<le> a"
    and res: "stab_binsearch st L R ty a = (l, r)"
  shows "stab_hit st ty L R l \<and> n_value (st l) \<le> a \<and> l \<le> r \<and> r \<le> R \<and>
    (\<forall>i. stab_hit st ty L R i \<longrightarrow> (n_value (st i) \<le> a) = (i \<le> l) \<and> (l < i) = (r < i)) \<and>
    (r = R \<or> stab_hit st ty L R (r + 1))"
proof -
  obtain rl rr any where loop: "binsearch_loop st ty L R L R False a = (rl, rr, any)"
    by (metis prod_cases3)
  have "bracket st ty L R a L R L False"
    using assms(1) by (auto simp: bracket_def stab_hit_def)
  from binsearch_loop_bracket [OF assms(2,3) this refl _ loop]
  have b: "bracket st ty L R a (rr + 1) rr rl any" by simp
  have above: "a < n_value (st i)" if "stab_hit st ty L R i" "rr < i" for i
    using b that unfolding bracket_def by blast
  have below: "n_value (st i) \<le> a" "i \<le> rl" if "stab_hit st ty L R i" "i \<le> rr" for i
    using b that unfolding bracket_def by simp_all
  have "k \<le> rr" using above [OF ex(1)] ex(2) by (cases "rr < k") auto
  then have "any" and "k \<le> rl" using b ex(1) below unfolding bracket_def by auto
  then have hit: "stab_hit st ty L R rl" "n_value (st rl) \<le> a"
    using b ex unfolding bracket_def stab_hit_def by (cases "rl = L"; auto)+
  then have le: "rl \<le> rr" using above [of rl] by (cases "rr < rl") auto
  have "scan_type st ty (rl + 1) rr = rl"
  proof (rule ccontr)
    let ?m = "scan_type st ty (rl + 1) rr"
    assume "?m \<noteq> rl"
    then have "rl + 1 \<le> ?m" using scan_type_ge [of "rl + 1" rr st ty] le by simp
    moreover from this have "stab_hit st ty L R ?m"
      using scan_type_hit scan_type_le [of st ty "rl + 1" rr] b unfolding bracket_def stab_hit_def by fastforce
    ultimately show False using below(2) [of ?m] scan_type_le [of st ty "rl + 1" rr] by simp
  qed
  then have "l = rl" "r = rr" using res loop \<open>any\<close> by (simp_all add: stab_binsearch_def)
  moreover have "(n_value (st i) \<le> a) = (i \<le> rl) \<and> (rl < i) = (rr < i)" if "stab_hit st ty L R i" for i
    using above [OF that] below [OF that] le by (cases "rr < i") auto
  ultimately show ?thesis using hit le b unfolding bracket_def by auto
qed

text \<open>Three lines of a function, at offsets 0, 4 and 9, as the entries 0, 1 and 2.\<close>

definition line_stab :: "u32 \<Rightarrow> Stab" where
  "line_stab v = \<lparr>n_strx = 0, n_type = N_SLINE, n_other = 0, n_desc = 0, n_value = v\<rparr>"

definition three_lines :: "u32 \<Rightarrow> u32 \<Rightarrow> u32 \<Rightarrow> stabs" where
  "three_lines x y z i = line_stab (if i \<le> 0 then x else if i = 1 then y else z)"

lemmas stab_eval = stab_binsearch_def binsearch_loop.simps scan_type.simps half_def three_lines_def
  line_stab_def N_SLINE_def

theorem stab_binsearch_correct_witness:
  "stab_binsearch (three_lines 0 4 9) 0 2 N_SLINE 6 = (1, 1) \<and>
   stab_hit (three_lines 0 4 9) N_SLINE 0 2 1 \<and> n_value (three_lines 0 4 9 1) \<le> 6"
proof -
  have res: "stab_binsearch (three_lines 0 4 9) 0 2 N_SLINE 6 = (1, 1)"
    by (simp add: stab_eval)
  have "stabs_sorted (three_lines 0 4 9) N_SLINE 0 2"
    by (auto simp: stabs_sorted_def stab_hit_def three_lines_def line_stab_def word_le_nat_alt)
  moreover have "stabs_gap (three_lines 0 4 9) N_SLINE 0 2 6"
    by (auto simp: stabs_gap_def stab_hit_def three_lines_def line_stab_def word_less_nat_alt)
  moreover have "stab_hit (three_lines 0 4 9) N_SLINE 0 2 0" "n_value (three_lines 0 4 9 0) \<le> 6"
    by (simp_all add: stab_hit_def three_lines_def line_stab_def)
  ultimately show ?thesis
    using stab_binsearch_correct [OF _ _ _ _ _ res, of 0] res by simp
qed

text \<open>
  Adjacent entries confuse the search. After an exact match the code goes on with the next
  address: with lines at offsets 0 and 1 the search for offset 0 returns the line at offset 1,
  although entry 0 has exactly the address that is searched for.
\<close>

theorem stab_binsearch_adjacent:
  "stab_binsearch (three_lines 0 1 1) 0 1 N_SLINE 0 = (1, 1) \<and> n_value (three_lines 0 1 1 0) = 0 \<and>
   n_value (three_lines 0 1 1 1) = 1"
  by (simp add: stab_eval)

section \<open>Function, line and file\<close>

text \<open>
  Names are offsets into the string table; \<open>None\<close> stands for "<unknown>". The string table is a
  list of bytes.
\<close>

record Eipdebuginfo =
  eip_file :: "u32 option"
  eip_line :: u16
  eip_fn_name :: "u32 option"
  eip_fn_namelen :: nat
  eip_fn_addr :: u32
  eip_fn_narg :: nat

text \<open>\<open>strfind\<close>: the number of bytes before a colon or the end of the string.\<close>

definition name_len :: "u8 list \<Rightarrow> u32 option \<Rightarrow> nat" where
  "name_len str x =
     (case x of None \<Rightarrow> 9 | Some o' \<Rightarrow> length (takeWhile (\<lambda>c. c \<noteq> 0x3A \<and> c \<noteq> 0) (drop (unat o') str)))"

function file_stab :: "stabs \<Rightarrow> int \<Rightarrow> int \<Rightarrow> int" where
  "file_stab st lfile l =
     (if l \<ge> lfile \<and> n_type (st l) \<noteq> N_SOL \<and> (n_type (st l) \<noteq> N_SO \<or> n_value (st l) = 0)
      then file_stab st lfile (l - 1) else l)"
  by pat_completeness auto
termination
  by (relation "measure (\<lambda>(st, lfile, l). nat (l - lfile + 1))") auto

function count_params :: "stabs \<Rightarrow> int \<Rightarrow> int \<Rightarrow> nat" where
  "count_params st l rfun =
     (if l < rfun \<and> n_type (st l) = N_PSYM then Suc (count_params st (l + 1) rfun) else 0)"
  by pat_completeness auto
termination
  by (relation "measure (\<lambda>(st, l, rfun). nat (rfun - l))") auto

declare file_stab.simps [simp del] count_params.simps [simp del]

text \<open>
  \<open>debuginfo_eip\<close> from the check of the string table on, for a table of \<open>n\<close> stabs. The result is
  the return value and what has been stored in \<open>info\<close>.
\<close>

definition debuginfo_init :: "u32 \<Rightarrow> Eipdebuginfo" where
  "debuginfo_init addr =
     \<lparr>eip_file = None, eip_line = 0, eip_fn_name = None, eip_fn_namelen = 9, eip_fn_addr = addr, eip_fn_narg = 0\<rparr>"

definition debuginfo_eip :: "stabs \<Rightarrow> int \<Rightarrow> u8 list \<Rightarrow> u32 \<Rightarrow> int \<times> Eipdebuginfo" where
  "debuginfo_eip st n str addr =
     (let info = debuginfo_init addr in
      if str = [] \<or> last str \<noteq> 0 then (- 1, info)
      else
        let (lfile, rfile) = stab_binsearch st 0 (n - 1) N_SO addr in
        if lfile = 0 then (- 1, info)
        else
          let (lfun, rfun) = stab_binsearch st lfile rfile N_FUN addr;
              (info, a, lline, rline) =
                (if lfun \<le> rfun then
                   (info\<lparr>eip_fn_name := (if unat (n_strx (st lfun)) < length str
                                         then Some (n_strx (st lfun)) else None),
                         eip_fn_addr := n_value (st lfun)\<rparr>, addr - n_value (st lfun), lfun, rfun)
                 else (info\<lparr>eip_fn_addr := addr\<rparr>, addr, lfile, rfile));
              info = info\<lparr>eip_fn_namelen := name_len str (eip_fn_name info)\<rparr>;
              (lline, rline) = stab_binsearch st lline rline N_SLINE a in
          if lline > rline then (- 1, info)
          else
            let info = info\<lparr>eip_line := n_desc (st rline)\<rparr>;
                lline = file_stab st lfile lline;
                info = (if lline \<ge> lfile \<and> unat (n_strx (st lline)) < length str
                        then info\<lparr>eip_file := Some (n_strx (st lline))\<rparr> else info);
                info = (if lfun < rfun then info\<lparr>eip_fn_narg := count_params st (lfun + 1) rfun\<rparr> else info) in
            (0, info))"

text \<open>
  A source file at address 100 with one function, whose line 5 starts at offset 0, followed by the
  entry of a local variable.
\<close>

definition N_LSYM :: u8 where [jos_consts]: "N_LSYM = 0x80"

definition small_stabs :: stabs where
  "small_stabs i =
     (if i \<le> 0 then \<lparr>n_strx = 0, n_type = 0, n_other = 0, n_desc = 0, n_value = 0\<rparr>
      else if i = 1 then \<lparr>n_strx = 1, n_type = N_SO, n_other = 0, n_desc = 0, n_value = 100\<rparr>
      else if i = 2 then \<lparr>n_strx = 1, n_type = N_FUN, n_other = 0, n_desc = 0, n_value = 100\<rparr>
      else if i = 3 then \<lparr>n_strx = 0, n_type = N_SLINE, n_other = 0, n_desc = 5, n_value = 0\<rparr>
      else \<lparr>n_strx = 0, n_type = N_LSYM, n_other = 0, n_desc = 0, n_value = 0\<rparr>)"

text \<open>
  The line may be taken from the wrong entry. The code reads the line number from the right
  end of the region instead of the entry it has found: with the five stabs above, address 102 is
  in line 5, but line 0 is reported, from the entry of the local variable.
\<close>

theorem debuginfo_wrong_line:
  "debuginfo_eip small_stabs 5 [0, 0x66, 0] 102 =
     (0, \<lparr>eip_file = Some 1, eip_line = 0, eip_fn_name = Some 1, eip_fn_namelen = 1, eip_fn_addr = 100,
          eip_fn_narg = 0\<rparr>) \<and>
   stab_binsearch small_stabs 2 4 N_SLINE (102 - 100) = (3, 4) \<and> n_desc (small_stabs 3) = 5"
  by (simp add: debuginfo_eip_def debuginfo_init_def stab_binsearch_def binsearch_loop.simps scan_type.simps
      half_def small_stabs_def name_len_def file_stab.simps count_params.simps
      N_SLINE_def N_SO_def N_FUN_def N_SOL_def N_PSYM_def N_LSYM_def)

end
