(* ===== verification/Spin_Steps.thy ===== *)
theory Spin_Steps
  imports Spinlock Pmap_Spec
begin

text \<open>
  The spin lock of \<^verbatim>\<open>kern/spinlock.c\<close> as the processors execute it: every access of the lock is
  a step of its own, and the steps of the CPUs interleave in any order. Shown are mutual
  exclusion, that the debugging checks never fire, and that the steps implement the atomic
  operations \<open>lock_kernel\<close> and \<open>unlock_kernel\<close>.
\<close>

section \<open>The lock and the CPUs\<close>

text \<open>
  \<open>struct spinlock\<close> and where a CPU is in \<open>spin_lock\<close> or \<open>spin_unlock\<close>. The call stack in \<open>pcs\<close> is
  only printed; its first word stands for it. Memory is sequentially consistent.
\<close>

record spinlock =
  locked :: u32
  lk_cpu :: "nat option"
  lk_pcs0 :: u32

datatype lkpc =
    Outside
  | LHold1 | LHold2 | LXchg | LSetCpu | LSetPcs
  | Critical
  | UHold1 | UHold2 | UClrPcs | UClrCpu | UXchg
  | LockPanic

record smp =
  lk :: spinlock
  lkat :: "nat \<Rightarrow> lkpc"

text \<open>
  One access of the lock by CPU \<open>i\<close> in \<open>spin_lock\<close>, \<open>pc\<close> being the caller's address, and in
  \<open>spin_unlock\<close>; the result is the lock and where the CPU goes on. \<open>holding\<close> reads \<open>locked\<close> and then
  \<open>cpu\<close>. The message before a panic is left out.
\<close>

definition spin_lock_step :: "u32 \<Rightarrow> nat \<Rightarrow> lkpc \<Rightarrow> spinlock \<Rightarrow> lkpc \<times> spinlock" where
  "spin_lock_step pc i at l =
     (case at of
        LHold1 \<Rightarrow> (if locked l \<noteq> 0 then LHold2 else LXchg, l)
      | LHold2 \<Rightarrow> (if lk_cpu l = Some i then LockPanic else LXchg, l)
      | LXchg \<Rightarrow> (if locked l \<noteq> 0 then LXchg else LSetCpu, l\<lparr>locked := 1\<rparr>)
      | LSetCpu \<Rightarrow> (LSetPcs, l\<lparr>lk_cpu := Some i\<rparr>)
      | LSetPcs \<Rightarrow> (Critical, l\<lparr>lk_pcs0 := pc\<rparr>)
      | _ \<Rightarrow> (at, l))"

definition spin_unlock_step :: "nat \<Rightarrow> lkpc \<Rightarrow> spinlock \<Rightarrow> lkpc \<times> spinlock" where
  "spin_unlock_step i at l =
     (case at of
        UHold1 \<Rightarrow> (if locked l \<noteq> 0 then UHold2 else LockPanic, l)
      | UHold2 \<Rightarrow> (if lk_cpu l = Some i then UClrPcs else LockPanic, l)
      | UClrPcs \<Rightarrow> (UClrCpu, l\<lparr>lk_pcs0 := 0\<rparr>)
      | UClrCpu \<Rightarrow> (UXchg, l\<lparr>lk_cpu := None\<rparr>)
      | UXchg \<Rightarrow> (Outside, l\<lparr>locked := 0\<rparr>)
      | _ \<Rightarrow> (at, l))"

text \<open>From Outside a CPU calls \<open>spin_lock\<close>, from Critical it calls \<open>spin_unlock\<close>.\<close>

definition spin_step :: "u32 \<Rightarrow> nat \<Rightarrow> smp \<Rightarrow> smp" where
  "spin_step pc i s =
     (let at = lkat s i;
          (p, l) = (if at = Outside then (LHold1, lk s)
                    else if at = Critical then (UHold1, lk s)
                    else if at \<in> {UHold1, UHold2, UClrPcs, UClrCpu, UXchg} then spin_unlock_step i at (lk s)
                    else spin_lock_step pc i at (lk s)) in
      \<lparr>lk = l, lkat = (lkat s)(i := p)\<rparr>)"

definition smp_start :: smp where
  "smp_start = \<lparr>lk = \<lparr>locked = 0, lk_cpu = None, lk_pcs0 = 0\<rparr>, lkat = (\<lambda>_. Outside)\<rparr>"

inductive smp_reach :: "smp \<Rightarrow> bool" where
  start: "smp_reach smp_start"
| step: "smp_reach s \<Longrightarrow> smp_reach (spin_step pc i s)"

text \<open>Between its successful exchange and the releasing one a CPU owns the lock.\<close>

definition owns :: "lkpc \<Rightarrow> bool" where
  "owns p \<longleftrightarrow> p \<in> {LSetCpu, LSetPcs, Critical, UHold1, UHold2, UClrPcs, UClrCpu, UXchg}"

definition recorded :: "lkpc \<Rightarrow> bool" where
  "recorded p \<longleftrightarrow> p \<in> {LSetPcs, Critical, UHold1, UHold2, UClrPcs, UClrCpu}"

definition lock_inv :: "smp \<Rightarrow> bool" where
  "lock_inv s \<longleftrightarrow>
     (\<forall>i. owns (lkat s i) \<longrightarrow> locked (lk s) \<noteq> 0) \<and>
     (locked (lk s) \<noteq> 0 \<longrightarrow> (\<exists>i. owns (lkat s i))) \<and>
     (\<forall>i j. owns (lkat s i) \<and> owns (lkat s j) \<longrightarrow> i = j) \<and>
     (\<forall>i. (lk_cpu (lk s) = Some i) = recorded (lkat s i)) \<and>
     (\<forall>i. lkat s i \<noteq> LockPanic)"

lemma recorded_owns: "recorded p \<Longrightarrow> owns p"
  by (auto simp: recorded_def owns_def)

text \<open>Most steps change neither who owns the lock nor what it records.\<close>

lemma lock_inv_keep:
  assumes inv: "lock_inv s" and p: "owns p = owns (lkat s i)" "recorded p = recorded (lkat s i)" "p \<noteq> LockPanic"
    and l: "(locked l = 0) = (locked (lk s) = 0)" "lk_cpu l = lk_cpu (lk s)"
  shows "lock_inv \<lparr>lk = l, lkat = (lkat s)(i := p)\<rparr>"
proof -
  have "\<And>j. owns (((lkat s)(i := p)) j) = owns (lkat s j)"
    and "\<And>j. recorded (((lkat s)(i := p)) j) = recorded (lkat s j)" using p by simp_all
  then show ?thesis using inv p(3) l unfolding lock_inv_def by simp
qed

lemma lock_inv_acquire:
  assumes inv: "lock_inv s" and free: "locked (lk s) = 0" and i: "lkat s i = LXchg"
  shows "lock_inv \<lparr>lk = (lk s)\<lparr>locked := 1\<rparr>, lkat = (lkat s)(i := LSetCpu)\<rparr>"
proof -
  have no: "\<And>j. \<not> owns (lkat s j)" using inv free by (auto simp: lock_inv_def)
  have "\<And>j. owns (((lkat s)(i := LSetCpu)) j) = (j = i)" using no by (simp add: owns_def)
  moreover have "\<And>j. recorded (((lkat s)(i := LSetCpu)) j) = recorded (lkat s j)"
    using i by (simp add: recorded_def)
  ultimately show ?thesis using inv unfolding lock_inv_def by simp
qed

lemma lock_inv_release:
  assumes inv: "lock_inv s" and i: "lkat s i = UXchg"
  shows "lock_inv \<lparr>lk = (lk s)\<lparr>locked := 0\<rparr>, lkat = (lkat s)(i := Outside)\<rparr>"
proof -
  have "owns (lkat s i)" using i by (simp add: owns_def)
  then have "\<And>j. owns (lkat s j) \<Longrightarrow> j = i" using inv unfolding lock_inv_def by blast
  then have "\<And>j. \<not> owns (((lkat s)(i := Outside)) j)" by (auto simp: owns_def)
  moreover have "\<And>j. recorded (((lkat s)(i := Outside)) j) = recorded (lkat s j)"
    using i by (simp add: recorded_def)
  ultimately show ?thesis using inv unfolding lock_inv_def by simp
qed

lemma lock_inv_record:
  assumes inv: "lock_inv s" and own: "owns (lkat s i)" "owns p" "p \<noteq> LockPanic"
    and l: "locked l = locked (lk s)" "lk_cpu l = (if recorded p then Some i else None)"
  shows "lock_inv \<lparr>lk = l, lkat = (lkat s)(i := p)\<rparr>"
proof -
  have one: "\<And>j. owns (lkat s j) \<Longrightarrow> j = i" using inv own unfolding lock_inv_def by blast
  have "owns (((lkat s)(i := p)) j) = owns (lkat s j)" for j using own by (cases "j = i") simp_all
  moreover have "recorded (((lkat s)(i := p)) j) = (j = i \<and> recorded p)" for j
    using one [of j] recorded_owns [of "lkat s j"] by (cases "j = i") auto
  ultimately show ?thesis using inv own(3) l unfolding lock_inv_def by (simp add: eq_commute [of i])
qed

lemma lock_inv_facts:
  assumes "lock_inv s"
  shows "lk_cpu (lk s) = Some i \<longleftrightarrow> recorded (lkat s i)" and "owns (lkat s i) \<Longrightarrow> locked (lk s) \<noteq> 0"
    and "lkat s i \<noteq> LockPanic"
  using assms unfolding lock_inv_def by blast+

lemma lock_inv_step:
  assumes inv: "lock_inv s"
  shows "lock_inv (spin_step pc i s)"
proof -
  note f = lock_inv_facts [OF inv, of i]
  note keep = lock_inv_keep [OF inv] lock_inv_record [OF inv]
  show ?thesis
  proof (cases "lkat s i")
    case LXchg
    then show ?thesis
    proof (cases "locked (lk s) = 0")
      case True
      then show ?thesis using LXchg lock_inv_acquire [OF inv True] by (simp add: spin_step_def spin_lock_step_def spin_unlock_step_def)
    next
      case False
      then show ?thesis using LXchg lock_inv_keep [OF inv, of LXchg i "(lk s)\<lparr>locked := 1\<rparr>"]
        by (simp add: spin_step_def spin_lock_step_def spin_unlock_step_def)
    qed
  next
    case UXchg
    then show ?thesis using lock_inv_release [OF inv] by (simp add: spin_step_def spin_lock_step_def spin_unlock_step_def)
  next
    case LSetCpu
    then show ?thesis using lock_inv_record [OF inv, of i LSetPcs]
      by (simp add: spin_step_def spin_lock_step_def spin_unlock_step_def owns_def recorded_def)
  next
    case UClrCpu
    then show ?thesis using lock_inv_record [OF inv, of i UXchg]
      by (simp add: spin_step_def spin_lock_step_def spin_unlock_step_def owns_def recorded_def)
  qed (use f in \<open>simp_all add: spin_step_def spin_lock_step_def spin_unlock_step_def lock_inv_keep [OF inv] owns_def recorded_def\<close>)
qed

lemma smp_reach_inv: "smp_reach s \<Longrightarrow> lock_inv s"
proof (induction rule: smp_reach.induct)
  case start
  show ?case by (simp add: lock_inv_def smp_start_def owns_def recorded_def)
qed (rule lock_inv_step)

section \<open>Properties\<close>

text \<open>
  Mutual exclusion (C12). In every interleaving of any number of CPUs, at most one CPU is between
  the acquisition and the release of the kernel lock, and neither \<open>spin_lock\<close> nor \<open>spin_unlock\<close>
  ever panics because of its \<open>holding\<close> check.
\<close>

theorem spin_mutual_exclusion:
  assumes "smp_reach s"
  shows "(owns (lkat s i) \<and> owns (lkat s j) \<longrightarrow> i = j) \<and> lkat s i \<noteq> LockPanic"
  using smp_reach_inv [OF assms] by (simp add: lock_inv_def)

text \<open>CPU 0 takes the lock and CPU 1 spins on it.\<close>

definition contended :: smp where
  "contended = foldl (\<lambda>s i. spin_step 0 i s) smp_start [0, 0, 0, 1, 0, 0, 1, 1]"

lemma contended_reach: "smp_reach contended"
  unfolding contended_def foldl_Cons foldl_Nil by (intro smp_reach.intros)

lemma contended_at: "lkat contended 0 = Critical" "lkat contended 1 = LXchg"
  by (simp_all add: contended_def smp_start_def spin_step_def spin_lock_step_def spin_unlock_step_def)

theorem spin_mutual_exclusion_witness:
  "smp_reach contended \<and> lkat contended 0 = Critical \<and> lkat contended 1 = LXchg \<and> \<not> owns (lkat contended 1) \<and>
   lkat contended 1 \<noteq> LockPanic"
  using spin_mutual_exclusion [OF contended_reach, of 1 0] contended_reach contended_at
  by (simp add: owns_def)

text \<open>
  \<open>lock_abs\<close> relates the lock in memory to the field \<open>lock_cpu\<close> of the kernel state.
\<close>

definition lock_abs :: "smp \<Rightarrow> kstate \<Rightarrow> bool" where
  "lock_abs s ks \<longleftrightarrow> (\<forall>i. (lock_cpu ks = Some i) = owns (lkat s i))"

text \<open>
  The steps implement the atomic lock (C13). A step of CPU \<open>i\<close> either leaves the owner of the lock as it
  is, or it is a successful \<open>lock_kernel\<close> of that CPU, or a successful \<open>unlock_kernel\<close> of that CPU.
\<close>

theorem spin_refines_lock:
  assumes "smp_reach s" and abs: "lock_abs s ks" and cpu: "cpunum ks = i"
  shows "lock_abs (spin_step pc i s) ks \<or>
    (\<exists>ks'. lock_kernel ks = Ret () ks' \<and> lock_abs (spin_step pc i s) ks') \<or>
    (\<exists>ks'. unlock_kernel ks = Ret () ks' \<and> lock_abs (spin_step pc i s) ks')"
proof -
  have inv: "lock_inv s" using assms(1) by (rule smp_reach_inv)
  show ?thesis
  proof (cases "lkat s i = LXchg \<and> locked (lk s) = 0")
    case True
    then have no: "\<And>j. \<not> owns (lkat s j)" using inv by (auto simp: lock_inv_def)
    then have "lock_cpu ks = None" using abs by (auto simp: lock_abs_def)
    then have "lock_kernel ks = Ret () (ks\<lparr>lock_cpu := Some i\<rparr>)"
      using cpu by (simp add: lock_kernel_def holding_def)
    moreover have "lock_abs (spin_step pc i s) (ks\<lparr>lock_cpu := Some i\<rparr>)"
      using True no by (auto simp: lock_abs_def spin_step_def spin_lock_step_def spin_unlock_step_def owns_def)
    ultimately show ?thesis by blast
  next
    case acq: False
    show ?thesis
    proof (cases "lkat s i = UXchg")
      case True
      then have "owns (lkat s i)" by (simp add: owns_def)
      then have own: "lock_cpu ks = Some i" "\<And>j. owns (lkat s j) \<Longrightarrow> j = i"
        using abs inv by (auto simp: lock_abs_def lock_inv_def)
      then have "unlock_kernel ks = Ret () (ks\<lparr>lock_cpu := None\<rparr>)"
        using cpu by (simp add: unlock_kernel_def holding_def)
      moreover have "lock_abs (spin_step pc i s) (ks\<lparr>lock_cpu := None\<rparr>)"
        using True own by (auto simp: lock_abs_def spin_step_def spin_lock_step_def spin_unlock_step_def owns_def)
      ultimately show ?thesis by blast
    next
      case False
      then have "owns (lkat (spin_step pc i s) i) = owns (lkat s i)"
        using acq lock_inv_facts [OF inv, of i]
        by (cases "lkat s i") (auto simp: spin_step_def spin_lock_step_def spin_unlock_step_def owns_def recorded_def)
      moreover have "lkat (spin_step pc i s) j = lkat s j" if "j \<noteq> i" for j
        using that by (cases "lkat s i") (simp_all add: spin_step_def spin_lock_step_def spin_unlock_step_def)
      ultimately have "owns (lkat (spin_step pc i s) j) = owns (lkat s j)" for j
        by (cases "j = i") simp_all
      then show ?thesis using abs by (simp add: lock_abs_def)
    qed
  qed
qed

lemma contended_abs: "lock_abs contended small_machine"
  by (auto simp: lock_abs_def contended_def smp_start_def spin_step_def spin_lock_step_def spin_unlock_step_def owns_def small_machine_def)

theorem spin_refines_lock_witness:
  "smp_reach contended \<and> lock_abs contended small_machine \<and> cpunum small_machine = 0 \<and>
   (lock_abs (spin_step 0 0 contended) small_machine \<or>
    (\<exists>ks'. lock_kernel small_machine = Ret () ks' \<and> lock_abs (spin_step 0 0 contended) ks') \<or>
    (\<exists>ks'. unlock_kernel small_machine = Ret () ks' \<and> lock_abs (spin_step 0 0 contended) ks'))"
  using spin_refines_lock [OF contended_reach contended_abs, of 0 0] contended_reach contended_abs
  by (simp add: small_machine_def)

end
