(* ===== verification/Fd.thy ===== *)
theory Fd
  imports Uvm
begin

text \<open>
  File descriptors of user programs, \<^verbatim>\<open>lib/fd.c\<close>, and the creation of pipes, \<^verbatim>\<open>lib/pipe.c\<close>. A
  descriptor is a page of its own at FDTABLE, with a second page for data at FILEDATA. The
  operations of the devices are arguments: they talk to other environments.
\<close>

section \<open>Addresses\<close>

definition MAXFD :: int where [jos_consts]: "MAXFD = 32"
definition FDTABLE :: u32 where [jos_consts]: "FDTABLE = 0xD0000000"
definition FILEDATA :: u32 where [jos_consts]: "FILEDATA = FDTABLE + of_int MAXFD * PGSIZE"

definition INDEX2FD :: "int \<Rightarrow> u32" where "INDEX2FD i = FDTABLE + of_int i * PGSIZE"
definition INDEX2DATA :: "int \<Rightarrow> u32" where "INDEX2DATA i = FILEDATA + of_int i * PGSIZE"

definition fd2num :: "u32 \<Rightarrow> int" where
  "fd2num fd = sint ((fd - FDTABLE) div PGSIZE)"

definition fd2data :: "u32 \<Rightarrow> u32" where
  "fd2data fd = INDEX2DATA (fd2num fd)"

section \<open>Memory of the program\<close>

text \<open>A word of a mapped page; an access to a page that is not mapped is a fault.\<close>

definition uload32 :: "nat \<Rightarrow> u32 \<Rightarrow> uvm \<Rightarrow> u32 ures" where
  "uload32 e va u =
     (case upt u e (pn_of va) of
        None \<Rightarrow> UPanic ''page fault''
      | Some (f, p) \<Rightarrow> URet (word_of (map (\<lambda>i. umem u f (unat (PGOFF va) + i)) [0..<4])) u)"

definition ustore32 :: "nat \<Rightarrow> u32 \<Rightarrow> u32 \<Rightarrow> uvm \<Rightarrow> unit ures" where
  "ustore32 e va w u =
     (case upt u e (pn_of va) of
        None \<Rightarrow> UPanic ''page fault''
      | Some (f, p) \<Rightarrow>
          URet () (u\<lparr>umem := (umem u)(f := (\<lambda>i.
            if unat (PGOFF va) \<le> i \<and> i < unat (PGOFF va) + 4 then get_byte w (i - unat (PGOFF va)) else umem u f i))\<rparr>))"

section \<open>Devices\<close>

record dev =
  dev_id :: u32
  dev_read :: "(u32 \<Rightarrow> u32 \<Rightarrow> u32 \<Rightarrow> uvm \<Rightarrow> int ures) option"
  dev_write :: "(u32 \<Rightarrow> u32 \<Rightarrow> u32 \<Rightarrow> uvm \<Rightarrow> int ures) option"
  dev_close :: "(u32 \<Rightarrow> uvm \<Rightarrow> int ures) option"
  dev_stat :: "(u32 \<Rightarrow> u32 \<Rightarrow> uvm \<Rightarrow> int ures) option"
  dev_trunc :: "(u32 \<Rightarrow> u32 \<Rightarrow> uvm \<Rightarrow> int ures) option"

text \<open>The result is the code and the device; the table is \<open>devtab\<close>.\<close>

fun dev_lookup :: "dev list \<Rightarrow> u32 \<Rightarrow> int \<times> dev option" where
  "dev_lookup [] d = (- E_INVAL, None)"
| "dev_lookup (x # xs) d = (if dev_id x = d then (0, Some x) else dev_lookup xs d)"

section \<open>Descriptors\<close>

fun fd_alloc_loop :: "nat \<Rightarrow> int \<Rightarrow> nat \<Rightarrow> uvm \<Rightarrow> int \<times> u32" where
  "fd_alloc_loop me i 0 u = (- E_MAX_OPEN, 0)"
| "fd_alloc_loop me i (Suc n) u =
     (if uvpt me (pn_of (INDEX2FD i)) u AND PTE_P = 0 then (0, INDEX2FD i) else fd_alloc_loop me (i + 1) n u)"

definition fd_alloc :: "nat \<Rightarrow> uvm \<Rightarrow> int \<times> u32" where
  "fd_alloc me u = fd_alloc_loop me 0 (nat MAXFD) u"

definition fd_lookup :: "nat \<Rightarrow> int \<Rightarrow> uvm \<Rightarrow> int \<times> u32" where
  "fd_lookup me fdnum u =
     (if fdnum < 0 \<or> fdnum \<ge> MAXFD then (- E_INVAL, 0)
      else if uvpt me (pn_of (INDEX2FD fdnum)) u AND PTE_P = 0 then (- E_INVAL, 0)
      else (0, INDEX2FD fdnum))"

definition fd_close :: "dev list \<Rightarrow> nat \<Rightarrow> u32 \<Rightarrow> bool \<Rightarrow> uvm \<Rightarrow> int ures" where
  "fd_close devtab me fd must_exist u =
     (let (r, fd2) = fd_lookup me (fd2num fd) u in
      if r < 0 \<or> fd \<noteq> fd2 then URet (if must_exist then r else 0) u
      else
        ubind (uload32 me fd u) (\<lambda>devid u.
        let (r, d) = dev_lookup devtab devid in
        ubind (case d of
                 None \<Rightarrow> URet r u
               | Some d \<Rightarrow> (case dev_close d of None \<Rightarrow> URet 0 u | Some cl \<Rightarrow> cl fd u)) (\<lambda>r u.
        let (_, u) = usys_page_unmap me fd u in URet r u)))"

definition close :: "dev list \<Rightarrow> nat \<Rightarrow> int \<Rightarrow> uvm \<Rightarrow> int ures" where
  "close devtab me fdnum u =
     (let (r, fd) = fd_lookup me fdnum u in if r < 0 then URet r u else fd_close devtab me fd True u)"

fun close_all_loop :: "dev list \<Rightarrow> nat \<Rightarrow> int \<Rightarrow> nat \<Rightarrow> uvm \<Rightarrow> unit ures" where
  "close_all_loop devtab me i 0 u = URet () u"
| "close_all_loop devtab me i (Suc n) u =
     ubind (close devtab me i u) (\<lambda>_ u. close_all_loop devtab me (i + 1) n u)"

definition close_all :: "dev list \<Rightarrow> nat \<Rightarrow> uvm \<Rightarrow> unit ures" where
  "close_all devtab me u = close_all_loop devtab me 0 (nat MAXFD) u"

text \<open>\<open>sys_page_map\<close> never returns an error, so the code after \<open>err\<close> is not reached.\<close>

definition dup :: "dev list \<Rightarrow> nat \<Rightarrow> int \<Rightarrow> int \<Rightarrow> uvm \<Rightarrow> int ures" where
  "dup devtab me oldfdnum newfdnum u =
     (let (r, oldfd) = fd_lookup me oldfdnum u in
      if r < 0 then URet r u
      else
        ubind (close devtab me newfdnum u) (\<lambda>_ u.
        let newfd = INDEX2FD newfdnum; ova = fd2data oldfd; nva = fd2data newfd;
            undo = (\<lambda>r u. let (_, u) = usys_page_unmap me newfd u; (_, u) = usys_page_unmap me nva u in URet r u) in
        ubind (if uvpt me (pn_of ova) u AND PTE_P \<noteq> 0
               then usys_page_map me ova me nva (uvpt me (pn_of ova) u AND PTE_SYSCALL) u
               else URet 0 u) (\<lambda>r u.
        if r < 0 then undo r u
        else
          ubind (usys_page_map me oldfd me newfd (uvpt me (pn_of oldfd) u AND PTE_SYSCALL) u) (\<lambda>r u.
          if r < 0 then undo r u else URet newfdnum u))))"

section \<open>Operations on open files\<close>

definition O_RDONLY :: u32 where [jos_consts]: "O_RDONLY = 0"
definition O_WRONLY :: u32 where [jos_consts]: "O_WRONLY = 1"
definition ACCMODE :: u32 where [jos_consts]: "ACCMODE = 3"

text \<open>The descriptor and its device, or the error; \<open>bad\<close> is the access mode that is refused.\<close>

definition with_dev ::
  "dev list \<Rightarrow> nat \<Rightarrow> int \<Rightarrow> u32 option \<Rightarrow> (u32 \<Rightarrow> dev \<Rightarrow> uvm \<Rightarrow> int ures) \<Rightarrow> uvm \<Rightarrow> int ures" where
  "with_dev devtab me fdnum bad k u =
     (let (r, fd) = fd_lookup me fdnum u in
      if r < 0 then URet r u
      else
        ubind (uload32 me fd u) (\<lambda>devid u.
        let (r, d) = dev_lookup devtab devid in
        case d of
          None \<Rightarrow> URet r u
        | Some d \<Rightarrow>
            ubind (uload32 me (fd + 8) u) (\<lambda>omode u.
            if bad = Some (omode AND ACCMODE) then URet (- E_INVAL) u else k fd d u)))"

definition read_fd :: "dev list \<Rightarrow> nat \<Rightarrow> int \<Rightarrow> u32 \<Rightarrow> u32 \<Rightarrow> uvm \<Rightarrow> int ures" where
  "read_fd devtab me fdnum buf n u =
     with_dev devtab me fdnum (Some O_WRONLY) (\<lambda>fd d u.
       case dev_read d of None \<Rightarrow> URet (- E_NOT_SUPP) u | Some f \<Rightarrow> f fd buf n u) u"

definition write_fd :: "dev list \<Rightarrow> nat \<Rightarrow> int \<Rightarrow> u32 \<Rightarrow> u32 \<Rightarrow> uvm \<Rightarrow> int ures" where
  "write_fd devtab me fdnum buf n u =
     with_dev devtab me fdnum (Some O_RDONLY) (\<lambda>fd d u.
       case dev_write d of None \<Rightarrow> URet (- E_NOT_SUPP) u | Some f \<Rightarrow> f fd buf n u) u"

definition seek :: "nat \<Rightarrow> int \<Rightarrow> u32 \<Rightarrow> uvm \<Rightarrow> int ures" where
  "seek me fdnum offset u =
     (let (r, fd) = fd_lookup me fdnum u in
      if r < 0 then URet r u else ubind (ustore32 me (fd + 4) offset u) (\<lambda>_ u. URet 0 u))"

definition ftruncate :: "dev list \<Rightarrow> nat \<Rightarrow> int \<Rightarrow> u32 \<Rightarrow> uvm \<Rightarrow> int ures" where
  "ftruncate devtab me fdnum newsize u =
     with_dev devtab me fdnum (Some O_RDONLY) (\<lambda>fd d u.
       case dev_trunc d of None \<Rightarrow> URet (- E_NOT_SUPP) u | Some f \<Rightarrow> f fd newsize u) u"

section \<open>Pipes\<close>

definition pipe_flags :: u32 where "pipe_flags = (PTE_P OR PTE_W OR PTE_U OR PTE_SHARE)"
definition devpipe_id :: u32 where [jos_consts]: "devpipe_id = 0x70"

text \<open>The result is the code and the two descriptor numbers.\<close>

definition pipe_setup :: "nat \<Rightarrow> u32 \<Rightarrow> u32 \<Rightarrow> uvm \<Rightarrow> (int \<times> int \<times> int) ures" where
  "pipe_setup me fd0 fd1 u =
     ubind (ustore32 me fd0 devpipe_id u) (\<lambda>_ u.
     ubind (ustore32 me (fd0 + 8) O_RDONLY u) (\<lambda>_ u.
     ubind (ustore32 me fd1 devpipe_id u) (\<lambda>_ u.
     ubind (ustore32 me (fd1 + 8) O_WRONLY u) (\<lambda>_ u.
     URet (0, fd2num fd0, fd2num fd1) u))))"

definition pipe :: "nat \<Rightarrow> uvm \<Rightarrow> (int \<times> int \<times> int) ures" where
  "pipe me u =
     (let (r, fd0) = fd_alloc me u in
      if r < 0 then URet (r, 0, 0) u
      else
        let (r, u) = usys_page_alloc me fd0 pipe_flags u in
        if r < 0 then URet (r, 0, 0) u
        else
          let (r, fd1) = fd_alloc me u;
              (r, u) = (if r < 0 then (r, u) else usys_page_alloc me fd1 pipe_flags u) in
          if r < 0 then URet (r, 0, 0) (snd (usys_page_unmap me fd0 u))
          else
            let va = fd2data fd0; (r, u) = usys_page_alloc me va pipe_flags u in
            if r < 0 then URet (r, 0, 0) (snd (usys_page_unmap me fd0 (snd (usys_page_unmap me fd1 u))))
            else
              ubind (usys_page_map me va me (fd2data fd1) pipe_flags u) (\<lambda>r u.
              if r < 0
              then URet (r, 0, 0) (snd (usys_page_unmap me fd0 (snd (usys_page_unmap me fd1 (snd (usys_page_unmap me va u))))))
              else pipe_setup me fd0 fd1 u))"

definition devpipe_close :: "nat \<Rightarrow> u32 \<Rightarrow> uvm \<Rightarrow> int ures" where
  "devpipe_close me fd u =
     (let (_, u) = usys_page_unmap me fd u; (r, u) = usys_page_unmap me (fd2data fd) u in URet r u)"

section \<open>Properties\<close>

lemma unat_INDEX2FD: "0 \<le> i \<Longrightarrow> i < 64 \<Longrightarrow> unat (INDEX2FD i) = 0xD0000000 + nat i * 4096"
proof -
  assume "0 \<le> i" "i < 64"
  then obtain k where k: "i = int k" "k < 64" using zero_le_imp_eq_int by auto
  then show ?thesis
    by (simp add: INDEX2FD_def FDTABLE_def PGSIZE_def unat_word_ariths unat_of_nat take_bit_nat_eq_self)
qed

lemma fd2num_INDEX2FD: "0 \<le> i \<Longrightarrow> i < 64 \<Longrightarrow> fd2num (INDEX2FD i) = i"
proof -
  assume i: "0 \<le> i" "i < 64"
  then obtain k where k: "i = int k" "k < 64" using zero_le_imp_eq_int by auto
  have "unat (INDEX2FD i - FDTABLE) = k * 4096"
    using k by (simp add: INDEX2FD_def PGSIZE_def unat_word_ariths unat_of_nat take_bit_nat_eq_self)
  then have "unat ((INDEX2FD i - FDTABLE) div PGSIZE) = k" by (simp add: unat_div PGSIZE_def)
  then show ?thesis using k by (simp add: fd2num_def sint_eq_unat)
qed

lemma pn_INDEX2FD: "0 \<le> i \<Longrightarrow> i < 64 \<Longrightarrow> pn_of (INDEX2FD i) = 0xD0000 + nat i"
  by (simp add: pn_of_def unat_PGNUM unat_INDEX2FD)

lemma INDEX2DATA_eq: "INDEX2DATA i = INDEX2FD (i + 32)"
  by (simp add: INDEX2DATA_def FILEDATA_def INDEX2FD_def MAXFD_def algebra_simps)

text \<open>
  Descriptor numbers and pages. A descriptor number survives the round trip through its page
  address, and its descriptor page and its data page are different from the pages of every
  other descriptor.
\<close>

theorem fd_pages_roundtrip:
  assumes "0 \<le> i" and "i < MAXFD" and "0 \<le> j" and "j < MAXFD"
  shows "fd2num (INDEX2FD i) = i \<and> pn_of (INDEX2FD i) \<noteq> pn_of (fd2data (INDEX2FD j)) \<and>
    (pn_of (INDEX2FD i) = pn_of (INDEX2FD j)) = (i = j) \<and>
    (pn_of (fd2data (INDEX2FD i)) = pn_of (fd2data (INDEX2FD j))) = (i = j)"
proof -
  have "pn_of (fd2data (INDEX2FD k)) = 0xD0020 + nat k" if "0 \<le> k" "k < 32" for k
    using that by (simp add: fd2data_def fd2num_INDEX2FD INDEX2DATA_eq pn_INDEX2FD nat_add_distrib)
  then show ?thesis
    using assms by (auto simp: MAXFD_def fd2num_INDEX2FD pn_INDEX2FD)
qed

theorem fd_pages_roundtrip_witness:
  "fd2num (INDEX2FD 3) = 3 \<and> pn_of (INDEX2FD 3) \<noteq> pn_of (INDEX2FD 4)"
  using fd_pages_roundtrip [of 3 4] by (simp add: MAXFD_def)

lemma fd_alloc_loop_spec:
  "fd_alloc_loop me i n u = (r, fd) \<Longrightarrow>
    (r = - E_MAX_OPEN \<and> fd = 0 \<and> (\<forall>k < n. uvpt me (pn_of (INDEX2FD (i + int k))) u AND PTE_P \<noteq> 0)) \<or>
    (\<exists>k < n. r = 0 \<and> fd = INDEX2FD (i + int k) \<and> uvpt me (pn_of fd) u AND PTE_P = 0 \<and>
       (\<forall>j < k. uvpt me (pn_of (INDEX2FD (i + int j))) u AND PTE_P \<noteq> 0))"
proof (induction n arbitrary: i)
  case (Suc n)
  let ?free = "\<lambda>k. uvpt me (pn_of (INDEX2FD (i + int k))) u AND PTE_P = 0"
  show ?case
  proof (cases "?free 0")
    case True
    then show ?thesis using Suc.prems by (intro disjI2 exI [of _ 0]) auto
  next
    case False
    then have "fd_alloc_loop me (i + 1) n u = (r, fd)" using Suc.prems by simp
    from Suc.IH [OF this]
    have "(r = - E_MAX_OPEN \<and> fd = 0 \<and> (\<forall>k < n. \<not> ?free (Suc k))) \<or>
      (\<exists>k < n. r = 0 \<and> fd = INDEX2FD (i + int (Suc k)) \<and> uvpt me (pn_of fd) u AND PTE_P = 0 \<and>
        (\<forall>j < k. \<not> ?free (Suc j)))"
      by (simp add: add.assoc)
    then show ?thesis
    proof (elim disjE exE conjE)
      assume "r = - E_MAX_OPEN" "fd = 0" "\<forall>k < n. \<not> ?free (Suc k)"
      then show ?thesis using False by (auto simp: less_Suc_eq_0_disj)
    next
      fix k assume "k < n" "r = 0" "fd = INDEX2FD (i + int (Suc k))" "uvpt me (pn_of fd) u AND PTE_P = 0"
        "\<forall>j < k. \<not> ?free (Suc j)"
      then show ?thesis using False by (intro disjI2 exI [of _ "Suc k"]) (auto simp: less_Suc_eq_0_disj)
    qed
  qed
qed simp

text \<open>
  Allocation of descriptors. \<open>fd_alloc\<close> returns the page of the smallest descriptor number whose
  page is not mapped; it fails, with a null page, only when all of them are mapped.
\<close>

theorem fd_alloc_smallest:
  "case fd_alloc me u of (r, fd) \<Rightarrow>
     (r = - E_MAX_OPEN \<and> fd = 0 \<and> (\<forall>i < 32. fst (fd_lookup me (int i) u) = 0)) \<or>
     (\<exists>i < 32. r = 0 \<and> fd = INDEX2FD (int i) \<and> fst (fd_lookup me (int i) u) = - E_INVAL \<and>
        (\<forall>j < i. fst (fd_lookup me (int j) u) = 0))"
proof -
  obtain r fd where res: "fd_alloc me u = (r, fd)" by (cases "fd_alloc me u")
  have lk: "fst (fd_lookup me (int k) u) = (if uvpt me (pn_of (INDEX2FD (int k))) u AND PTE_P = 0 then - E_INVAL else 0)"
    if "k < 32" for k
    using that by (simp add: fd_lookup_def MAXFD_def)
  have "fd_alloc_loop me 0 32 u = (r, fd)" using res by (simp add: fd_alloc_def MAXFD_def)
  from fd_alloc_loop_spec [OF this] show ?thesis
  proof (elim disjE exE conjE)
    assume "\<forall>k < 32. uvpt me (pn_of (INDEX2FD (0 + int k))) u AND PTE_P \<noteq> 0" "r = - E_MAX_OPEN" "fd = 0"
    then show ?thesis using res lk by simp
  next
    fix k assume k: "k < 32" "r = 0" "fd = INDEX2FD (0 + int k)" "uvpt me (pn_of fd) u AND PTE_P = 0"
      and "\<forall>j < k. uvpt me (pn_of (INDEX2FD (0 + int j))) u AND PTE_P \<noteq> 0"
    then have "\<forall>j < k. fst (fd_lookup me (int j) u) = 0" using lk by simp
    then show ?thesis using res k lk [OF k(1)] by auto
  qed
qed

text \<open>An environment whose only descriptor is number 0, a pipe without a data page.\<close>

definition one_fd :: uvm where
  "one_fd =
     \<lparr>upt = (\<lambda>e pn. if e = 0 \<and> pn = 0xD0000 then Some (0, PTE_P OR PTE_U OR PTE_W OR PTE_SHARE) else None),
      umem = (\<lambda>f i. if i = 0 then 0x70 else 0), uref = (\<lambda>f. if f = 0 then 1 else 0), ufree = [1, 2, 3, 4]\<rparr>"

lemma one_fd_uvpt:
  "0 \<le> i \<Longrightarrow> i < 64 \<Longrightarrow> uvpt 0 (pn_of (INDEX2FD i)) one_fd = (if i = 0 then PTE_P OR PTE_U OR PTE_W OR PTE_SHARE else 0)"
  by (simp add: pn_INDEX2FD uvpt_def one_fd_def nat_eq_iff)

lemma one_fd_alloc: "fd_alloc 0 one_fd = (0, INDEX2FD 1)"
proof -
  have n: "nat MAXFD = Suc (Suc 30)" by (simp add: MAXFD_def)
  have "(PTE_P OR PTE_U OR PTE_W OR PTE_SHARE) AND PTE_P \<noteq> 0" by (simp add: jos_consts)
  then show ?thesis unfolding fd_alloc_def n fd_alloc_loop.simps by (simp add: one_fd_uvpt)
qed

theorem fd_alloc_smallest_witness:
  "fd_alloc 0 one_fd = (0, INDEX2FD 1) \<and>
   (\<exists>i < 32. INDEX2FD 1 = INDEX2FD (int i) \<and> fst (fd_lookup 0 (int i) one_fd) = - E_INVAL)"
  using fd_alloc_smallest [of 0 one_fd] one_fd_alloc by (auto simp: E_MAX_OPEN_def)

text \<open>A device without operations.\<close>

definition plain_dev :: dev where
  "plain_dev = \<lparr>dev_id = 0x70, dev_read = None, dev_write = None, dev_close = None, dev_stat = None, dev_trunc = None\<rparr>"

text \<open>
  Duplicating a descriptor onto itself brings the kernel down. \<open>dup\<close> closes the new descriptor
  before it maps the old one; when both are the same, the page to map is gone and the kernel
  panics in \<open>sys_page_map\<close>.
\<close>

theorem dup_self_panics:
  "dup [plain_dev] 0 0 0 one_fd = UPanic ''sys_page_map: page_lookup failed''"
proof -
  have fd0: "INDEX2FD 0 = 0xD0000000" "pn_of 0xD0000000 = 0xD0000" "fd2num 0xD0000000 = 0"
    "fd2data 0xD0000000 = 0xD0020000" "pn_of 0xD0020000 = 0xD0020"
    using fd2num_INDEX2FD [of 0]
    by (simp_all add: INDEX2FD_def FDTABLE_def pn_of_def unat_PGNUM fd2data_def INDEX2DATA_def FILEDATA_def MAXFD_def PGSIZE_def)
  have fl: "PTE_P OR PTE_U OR PTE_W OR PTE_SHARE = 0x407" "PTE_P = 1" by (simp_all add: jos_consts)
  have look: "fd_lookup 0 0 one_fd = (0, 0xD0000000)"
    by (simp add: fd_lookup_def MAXFD_def fd0 uvpt_def one_fd_def fl)
  have va: "\<not> bad_va 0xD0000000" by (simp add: bad_va_def ROUNDUP_def ROUNDDOWN_def jos_consts)
  have four: "[0..<4] = [0, 1, 2, 3 :: nat]" by code_simp
  have "uload32 0 0xD0000000 one_fd = URet 0x70 one_fd"
    by (simp add: uload32_def fd0 one_fd_def PGOFF_def four)
  then have "close [plain_dev] 0 0 one_fd = URet 0 (unmap_page 0 0xD0000 one_fd)"
    by (simp add: close_def look fd_close_def fd0 plain_dev_def usys_page_unmap_def va)
  then show ?thesis
    by (simp add: dup_def look fd0 uvpt_def upt_unmap_page usys_page_map_def va) (simp add: one_fd_def)
qed

end
