(* ===== verification/Malloc.thy ===== *)
theory Malloc
  imports Fd
begin

text \<open>
  The memory allocator of user programs, \<^verbatim>\<open>lib/malloc.c\<close>, on the address space of \<open>Uvm\<close>. The pointer
  \<open>mptr\<close> is passed along; page-aligned addresses are 20-bit page numbers, which wrap around
  like the addresses do.
\<close>

section \<open>Searching the arena\<close>

type_synonym pno = "20 word"

definition MAXMALLOC :: u32 where [jos_consts]: "MAXMALLOC = 1024 * 1024"
definition PTE_CONTINUED :: u32 where [jos_consts]: "PTE_CONTINUED = 0x200"
definition mbegin :: u32 where [jos_consts]: "mbegin = 0x08000000"
definition mend :: u32 where [jos_consts]: "mend = 0x10000000"

definition page_va :: "pno \<Rightarrow> u32" where "page_va p = push_bit 12 (ucast p)"

definition mbegin_pg :: pno where [jos_consts]: "mbegin_pg = 0x08000"
definition mend_pg :: pno where [jos_consts]: "mend_pg = 0x10000"

text \<open>The number of pages that \<open>n\<close> bytes from a page boundary on take.\<close>

definition npages_of :: "nat \<Rightarrow> nat" where "npages_of n = (n + 4095) div 4096"

text \<open>\<open>isfree\<close> of a page-aligned address and \<open>k\<close> pages.\<close>

fun isfree :: "nat \<Rightarrow> pno \<Rightarrow> nat \<Rightarrow> uvm \<Rightarrow> bool" where
  "isfree me p 0 u = True"
| "isfree me p (Suc k) u =
     (if p \<ge> mend_pg \<or> uvpt me (unat p) u AND PTE_P \<noteq> 0 then False else isfree me (p + 1) k u)"

text \<open>The search loop; \<open>wrapped\<close> says that \<open>nwrap\<close> is 1.\<close>

function msearch :: "nat \<Rightarrow> nat \<Rightarrow> pno \<Rightarrow> bool \<Rightarrow> uvm \<Rightarrow> pno option" where
  "msearch me k p wrapped u =
     (if isfree me p k u then Some p
      else if p + 1 = mend_pg then (if wrapped then None else msearch me k mbegin_pg True u)
      else msearch me k (p + 1) wrapped u)"
  by pat_completeness auto

lemma pno_step:
  assumes "p + 1 \<noteq> mend_pg"
  shows "unat (mend_pg - p - 2) < unat (mend_pg - 1 - p)"
proof -
  have nz: "mend_pg - 1 - p \<noteq> 0" using assms by (metis add.commute diff_add_cancel right_minus_eq)
  have "mend_pg - p - 2 = (mend_pg - 1 - p) - 1" by simp
  then have "unat (mend_pg - p - 2) = unat (mend_pg - 1 - p) - 1" using nz by (metis unat_minus_one)
  moreover have "0 < unat (mend_pg - 1 - p)" using nz by (metis unat_gt_0 word_neq_0_conv)
  ultimately show ?thesis by linarith
qed

termination msearch
  by (relation "measures [\<lambda>(me, k, p, wrapped, u). if wrapped then 0 else 1,
        \<lambda>(me, k, p, wrapped, u). unat (mend_pg - 1 - p)]")
    (auto simp: pno_step)

declare msearch.simps [simp del]

section \<open>Allocation\<close>

text \<open>
  Pages \<open>i\<close> to \<open>k - 1\<close> of the chunk at \<open>p\<close>. All but the last page are marked PTE_CONTINUED; when the
  kernel has no page left, those allocated so far are given back.
\<close>

fun unmap_pages :: "nat \<Rightarrow> pno \<Rightarrow> nat \<Rightarrow> uvm \<Rightarrow> uvm" where
  "unmap_pages me p 0 u = snd (usys_page_unmap me (page_va p) u)"
| "unmap_pages me p (Suc i) u = unmap_pages me p i (snd (usys_page_unmap me (page_va (p + of_nat (Suc i))) u))"

fun alloc_pages :: "nat \<Rightarrow> pno \<Rightarrow> nat \<Rightarrow> nat \<Rightarrow> uvm \<Rightarrow> bool \<times> uvm" where
  "alloc_pages me p i 0 u = (True, u)"
| "alloc_pages me p i (Suc n) u =
     (let cont = (if n > 0 then PTE_CONTINUED else 0);
          (r, u) = usys_page_alloc me (page_va (p + of_nat i)) (PTE_P OR PTE_U OR PTE_W OR cont) u in
      if r < 0 then (False, unmap_pages me p i u) else alloc_pages me p (Suc i) n u)"

text \<open>The loop of \<open>free\<close> over the pages that are marked as continued.\<close>

function free_loop :: "nat \<Rightarrow> u32 \<Rightarrow> uvm \<Rightarrow> u32 ures" where
  "free_loop me c u =
     (if uvpt me (pn_of c) u AND PTE_CONTINUED \<noteq> 0 then
        let (_, u) = usys_page_unmap me c u; c' = c + PGSIZE in
        if mbegin \<le> c' \<and> c' < mend then free_loop me c' u
        else UPanic ''assertion failed: mbegin <= c && c < mend''
      else URet c u)"
  by pat_completeness auto

lemma free_step: "mbegin \<le> c + PGSIZE \<Longrightarrow> unat c < unat (c + PGSIZE)"
proof -
  assume "mbegin \<le> c + PGSIZE"
  then have ge: "0x8000000 \<le> unat (c + 4096)" by (simp add: word_le_nat_alt jos_consts)
  show ?thesis
  proof (cases "unat c + 4096 < 4294967296")
    case True
    then show ?thesis by (simp add: PGSIZE_def unat_add_no_wrap)
  next
    case False
    then have "unat (c + 4096) = unat c + 4096 - 4294967296"
      using u32_less [of c] by (simp add: unat_word_ariths le_mod_geq)
    then show ?thesis using ge u32_less [of c] by simp
  qed
qed

termination free_loop
  by (relation "measure (\<lambda>(me, c, u). 4294967296 - unat c)")
    (auto simp: free_step u32_less diff_less_mono2)

declare free_loop.simps [simp del]

definition free :: "nat \<Rightarrow> u32 \<Rightarrow> uvm \<Rightarrow> unit ures" where
  "free me v u =
     (if v = 0 then URet () u
      else if \<not> (mbegin \<le> v \<and> v < mend) then UPanic ''assertion failed: mbegin <= v && v < mend''
      else
        ubind (free_loop me (ROUNDDOWN v PGSIZE) u) (\<lambda>c u.
        ubind (uload32 me (c + PGSIZE - 4) u) (\<lambda>ref u.
        ubind (ustore32 me (c + PGSIZE - 4) (ref - 1) u) (\<lambda>_ u.
        if ref - 1 = 0 then URet () (snd (usys_page_unmap me c u)) else URet () u))))"

text \<open>
  The part of \<open>malloc\<close> that takes new pages, from a page-aligned \<open>mptr\<close> on. The result is the block
  and the new \<open>mptr\<close>; a failed search leaves \<open>mptr\<close> at \<open>mbegin\<close>.
\<close>

definition malloc_fresh :: "nat \<Rightarrow> u32 \<Rightarrow> u32 \<Rightarrow> uvm \<Rightarrow> (u32 \<times> u32) ures" where
  "malloc_fresh me n mptr u =
     (let k = npages_of (unat n + 4) in
      case msearch me k (ucast (PGNUM mptr)) False u of
        None \<Rightarrow> URet (0, mbegin) u
      | Some p \<Rightarrow>
          let (ok, u) = alloc_pages me p 0 k u in
          if \<not> ok then URet (0, page_va p) u
          else
            ubind (ustore32 me (page_va p + of_nat k * PGSIZE - 4) 2 u) (\<lambda>_ u.
            URet (page_va p, page_va p + n) u))"

definition malloc :: "nat \<Rightarrow> u32 \<Rightarrow> u32 \<Rightarrow> uvm \<Rightarrow> (u32 \<times> u32) ures" where
  "malloc me n mptr u =
     (let mptr = (if mptr = 0 then mbegin else mptr); n = ROUNDUP n 4 in
      if n \<ge> MAXMALLOC then URet (0, mptr) u
      else if mptr mod PGSIZE \<noteq> 0 then
        if mptr div PGSIZE = (mptr + n - 1 + 4) div PGSIZE then
          let ref = ROUNDUP mptr PGSIZE - 4 in
          ubind (uload32 me ref u) (\<lambda>w u.
          ubind (ustore32 me ref (w + 1) u) (\<lambda>_ u. URet (mptr, mptr + n) u))
        else
          ubind (free me mptr u) (\<lambda>_ u. malloc_fresh me n (ROUNDDOWN (mptr + PGSIZE) PGSIZE) u)
      else malloc_fresh me n mptr u)"

section \<open>What the search finds\<close>

definition free_run :: "nat \<Rightarrow> nat \<Rightarrow> nat \<Rightarrow> uvm \<Rightarrow> bool" where
  "free_run me p k u \<longleftrightarrow> (\<forall>i < k. p + i < 0x10000 \<and> uvpt me (p + i) u AND PTE_P = 0)"

lemma free_run_Suc:
  "free_run me p (Suc k) u \<longleftrightarrow> p < 0x10000 \<and> uvpt me p u AND PTE_P = 0 \<and> free_run me (Suc p) k u"
  unfolding free_run_def All_less_Suc2 by simp

lemma pno_less: "unat (p :: pno) < 0x100000"
  using unsigned_less [of p] by simp

lemma pno_Suc: "unat (p :: pno) < 0x10000 \<Longrightarrow> unat (p + 1) = Suc (unat p)"
  by (subst unat_add_no_wrap) simp_all

lemma isfree_run: "isfree me p k u \<longleftrightarrow> free_run me (unat p) k u"
proof (induction k arbitrary: p)
  case (Suc k)
  have "p \<ge> mend_pg \<longleftrightarrow> \<not> unat p < 0x10000" by (simp add: word_le_nat_alt mend_pg_def not_less)
  then show ?case using Suc pno_Suc [of p] by (auto simp: free_run_Suc)
qed (simp add: free_run_def)









text \<open>The last page of the arena is in use, with five references; everything else is free.\<close>

definition last_page :: uvm where
  "last_page =
     \<lparr>upt = (\<lambda>e pn. if e = 0 \<and> pn = 0xFFFF then Some (0, PTE_P OR PTE_U OR PTE_W) else None),
      umem = (\<lambda>f i. if i = 4092 then 5 else 0), uref = (\<lambda>f. if f = 0 then 1 else 0), ufree = [1, 2, 3, 4]\<rparr>"

lemma last_page_uvpt: "uvpt 0 pn last_page = (if pn = 0xFFFF then PTE_P OR PTE_U OR PTE_W else 0)"
  by (simp add: uvpt_def last_page_def)


section \<open>Running off the arena\<close>

lemma msearch_past_end:
  assumes "0x10000 \<le> unat p" "k > 0"
  shows "msearch me k p w u = msearch me k 0 w u"
  using assms
proof (induction "0x100000 - unat p" arbitrary: p)
  case 0
  then show ?case using pno_less [of p] by simp
next
  case (Suc d)
  have "\<not> isfree me p k u" using Suc.prems by (cases k) (simp_all add: isfree_run free_run_Suc)
  moreover have "p + 1 \<noteq> mend_pg"
  proof
    assume "p + 1 = mend_pg"
    then have "p = mend_pg - 1" by (metis add_diff_cancel_right')
    then show False using Suc.prems by (simp add: mend_pg_def)
  qed
  ultimately have step: "msearch me k p w u = msearch me k (p + 1) w u" by (simp add: msearch.simps [of me k p])
  show ?case
  proof (cases "unat p = 0xFFFFF")
    case True
    then have "p + 1 = 0" by (simp add: word_unat_eq_iff unat_word_ariths)
    with step show ?thesis by simp
  next
    case False
    then have "unat (p + 1) = Suc (unat p)"
      using pno_less [of p] by (subst unat_add_no_wrap) simp_all
    then show ?thesis using Suc.hyps(1) [of "p + 1"] Suc.hyps(2) Suc.prems step by simp
  qed
qed

lemma last_page_free:
  obtains u where "free 0 0x0FFFF100 last_page = URet () u" and "upt u = upt last_page" and "ufree u = [1, 2, 3, 4]"
proof -
  have c: "pn_of 0x0FFFF000 = 0xFFFF" "pn_of 0x0FFFFFFC = 0xFFFF" "PGOFF 0x0FFFFFFC = 4092" "[0..<4] = [0, 1, 2, 3 :: nat]"
    by (simp_all add: pn_of_def unat_PGNUM PGOFF_def) code_simp
  have "free_loop 0 0x0FFFF000 last_page = URet 0x0FFFF000 last_page"
    by (simp add: free_loop.simps c last_page_uvpt) (simp add: jos_consts)
  moreover have "uload32 0 0x0FFFFFFC last_page = URet 5 last_page"
    by (simp add: uload32_def c last_page_def)
  moreover obtain u where u: "ustore32 0 0x0FFFFFFC 4 last_page = URet () u" "upt u = upt last_page"
    "ufree u = [1, 2, 3, 4]"
    by (simp add: ustore32_def c last_page_def)
  ultimately have "free 0 0x0FFFF100 last_page = URet () u"
    by (simp add: free_def ROUNDDOWN_def jos_consts)
  then show thesis using u by (intro that)
qed

text \<open>Two pages at address 0, from an address space in which they are free.\<close>

lemma alloc_at_zero:
  assumes u: "upt u 0 0 = None" "upt u 0 1 = None" "ufree u = [1, 2, 3, 4]"
  obtains t where "alloc_pages 0 0 0 2 u = (True, t)" and "upt t 0 0 = Some (1, PTE_P OR PTE_U OR PTE_W OR PTE_CONTINUED)"
    and "upt t 0 1 = Some (2, PTE_P OR PTE_U OR PTE_W)"
proof -
  let ?c = "PTE_P OR PTE_U OR PTE_W OR PTE_CONTINUED" and ?w = "PTE_P OR PTE_U OR PTE_W"
  have pv: "page_va 0 = va_of 0" "page_va 1 = va_of (Suc 0)" by (simp_all add: page_va_def va_of_def PGSIZE_def)
  have pg: "\<not> bad_va (va_of 0)" "\<not> bad_va (va_of (Suc 0))" "pn_of (va_of 0) = 0" "pn_of (va_of (Suc 0)) = 1"
    by (simp_all add: va_of_ok pn_of_va_of)
  have w: "?c AND NOT PTE_SYSCALL = 0" "?w AND NOT PTE_SYSCALL = 0" "?c OR PTE_P = ?c" "?w OR PTE_P = ?w"
    by (simp_all add: jos_consts)
  define a where "a = insert_page 0 0 1 ?c (u\<lparr>ufree := [2, 3, 4], umem := (umem u)(1 := (\<lambda>_. 0))\<rparr>)"
  define b where "b = insert_page 0 1 2 ?w (a\<lparr>ufree := [3, 4], umem := (umem a)(2 := (\<lambda>_. 0))\<rparr>)"
  have a: "upt a 0 0 = Some (1, ?c)" "ufree a = [2, 3, 4]" by (simp_all add: a_def insert_new u w)
  have "usys_page_alloc 0 (va_of 0) ?c u = (0, a)" by (simp add: usys_page_alloc_def pg w u a_def)
  moreover have "usys_page_alloc 0 (va_of (Suc 0)) ?w a = (0, b)" by (simp add: usys_page_alloc_def pg w a b_def)
  ultimately have "alloc_pages 0 0 0 2 u = (True, b)" by (simp add: numeral_2_eq_2 pv)
  moreover have "upt b 0 0 = Some (1, ?c)" "upt b 0 1 = Some (2, ?w)"
    by (simp_all add: b_def upt_insert_page a w)
  ultimately show thesis by (rule that)
qed

text \<open>
  Behind the last page the allocator leaves its arena. When the current page is the last page of
  the arena and the next block does not fit, \<open>mptr\<close> becomes \<open>mend\<close>, and the search does not come back to
  \<open>mend\<close> before the address wraps around: the block is allocated at address 0, the caller gets a
  null pointer, and two pages at address 0 are mapped, although the arena is almost empty.
\<close>

theorem malloc_off_the_arena:
  "\<exists>t. malloc 0 0x1000 0x0FFFF100 last_page = URet (0, 0x1000) t \<and>
     upt t 0 0 = Some (1, PTE_P OR PTE_U OR PTE_W OR PTE_CONTINUED) \<and> upt t 0 1 = Some (2, PTE_P OR PTE_U OR PTE_W) \<and>
     free_run 0 0x8000 0x7FFF last_page"
proof -
  have run: "free_run 0 0x8000 0x7FFF last_page" by (auto simp: free_run_def last_page_uvpt)
  obtain u where free: "free 0 0x0FFFF100 last_page = URet () u" and u: "upt u = upt last_page" "ufree u = [1, 2, 3, 4]"
    by (rule last_page_free)
  have none: "upt u 0 0 = None" "upt u 0 1 = None" by (simp_all add: u last_page_def)
  have "free_run 0 0 2 u" using none by (simp add: free_run_def uvpt_def less_2_cases_iff all_conj_distrib)
  then have srch: "msearch 0 2 mend_pg False u = Some 0"
    by (simp add: msearch_past_end mend_pg_def msearch.simps [of 0 2 0] isfree_run)
  obtain b where b: "alloc_pages 0 0 0 2 u = (True, b)" "upt b 0 0 = Some (1, PTE_P OR PTE_U OR PTE_W OR PTE_CONTINUED)"
    "upt b 0 1 = Some (2, PTE_P OR PTE_U OR PTE_W)"
    by (rule alloc_at_zero [OF none u(2)])
  have "pn_of 0x1FFC = 1" by (simp add: pn_of_def unat_PGNUM)
  then obtain t where t: "ustore32 0 0x1FFC 2 b = URet () t" "upt t = upt b"
    using b(3) by (simp add: ustore32_def)
  have "malloc_fresh 0 0x1000 0x10000000 u = URet (0, 0x1000) t"
    using srch b(1) t(1) by (simp add: malloc_fresh_def npages_of_def page_va_def PGNUM_def mend_pg_def PGSIZE_def)
  then have "malloc 0 0x1000 0x0FFFF100 last_page = URet (0, 0x1000) t"
    using free by (simp add: malloc_def ROUNDUP_def ROUNDDOWN_def jos_consts)
  then show ?thesis using run b t by auto
qed

text \<open>
  Huge requests succeed. The size is rounded up before it is compared with the limit, and the
  rounding wraps around: a request for more than 4 GiB - 4 bytes returns a block of no bytes.
\<close>

theorem malloc_huge:
  "malloc 0 0xFFFFFFFF 0x0FFFF100 last_page = malloc 0 0 0x0FFFF100 last_page \<and>
   (\<exists>t. malloc 0 0xFFFFFFFF 0x0FFFF100 last_page = URet (0x0FFFF100, 0x0FFFF100) t)"
proof
  have r: "ROUNDUP 0xFFFFFFFF 4 = 0" "ROUNDUP 0 4 = 0" "ROUNDUP 0x0FFFF100 0x1000 = 0x10000000" by code_simp+
  show "malloc 0 0xFFFFFFFF 0x0FFFF100 last_page = malloc 0 0 0x0FFFF100 last_page"
    by (simp add: malloc_def r)
  have pn: "pn_of 0x0FFFFFFC = 0xFFFF" by (simp add: pn_of_def unat_PGNUM)
  have k: "PGSIZE = 0x1000" "MAXMALLOC = 0x100000" by (simp_all add: jos_consts)
  show "\<exists>t. malloc 0 0xFFFFFFFF 0x0FFFF100 last_page = URet (0x0FFFF100, 0x0FFFF100) t"
    by (simp add: malloc_def k r uload32_def ustore32_def pn last_page_def)
qed

end
