(* ===== verification/Spec2Isabelle.thy ===== *)
theory Spec2Isabelle
  imports Pmap_Spec Kern_Spec Syscall_Spec Console_Spec Lib_Spec File_Client Cmdline Args Pipe Kdebug Spin_Steps
    Malloc
begin

text \<open>
  Verification of JOS, an exokernel-style teaching operating system in C
  (\<^verbatim>\<open>src/lab\<close>; the directories under \<^verbatim>\<open>src/lab/finished\<close> are older copies of the same files).

  \<^bold>\<open>The parts and how they interact.\<close> The kernel (\<^verbatim>\<open>kern\<close>) owns physical memory, the page tables,
  the environments (processes), the console and the network card. User programs enter it through
  traps; \<^verbatim>\<open>kern/trap.c\<close> dispatches them to the system calls of \<^verbatim>\<open>kern/syscall.c\<close>, to the scheduler and
  to the devices, all under one big lock. The file server (\<^verbatim>\<open>fs\<close>) is a user program that keeps the
  disk in a demand-paged block cache and answers requests that arrive by message. The library
  (\<^verbatim>\<open>lib\<close>) gives user programs fork, file descriptors, pipes, memory allocation, strings and
  formatted output on top of the system calls.

  \<^bold>\<open>Theories and the code they model.\<close>
  \<^item> \<^verbatim>\<open>Jos_Prelude\<close>: word types, the collection \<open>jos_consts\<close>, lemmas on words and lists;
    \<^verbatim>\<open>Layout\<close> (\<^verbatim>\<open>inc/mmu.h\<close>, \<^verbatim>\<open>inc/memlayout.h\<close>); \<^verbatim>\<open>Errors\<close> (\<^verbatim>\<open>inc/error.h\<close>); \<^verbatim>\<open>Bytes\<close> (bytes of a
    word); \<^verbatim>\<open>Allocator\<close>: the contract of a resource allocator, as a locale.
  \<^item> \<^verbatim>\<open>Kstate\<close>: the kernel state, one record with physical memory, page descriptors, environments,
    CPUs, console and network card; kernel functions return \<open>Ret\<close>, \<open>Exit\<close> (they leave the kernel
    without returning) or \<open>Panic\<close>. \<^verbatim>\<open>Kmem\<close>: accesses through virtual addresses.
  \<^item> \<^verbatim>\<open>Pmap\<close> (\<^verbatim>\<open>kern/pmap.c\<close>), with \<^verbatim>\<open>Pmap_Alloc\<close> (the free list; interpretation of the allocator
    contract), \<^verbatim>\<open>Pmap_Tables\<close> (page tables as data), \<^verbatim>\<open>Pmap_Inv\<close> (the reference-count invariant and
    what each operation does under it) and \<^verbatim>\<open>Pmap_Spec\<close> (the properties).
  \<^item> \<^verbatim>\<open>Environments\<close> (\<^verbatim>\<open>kern/env.c\<close>), \<^verbatim>\<open>Sched\<close> (\<^verbatim>\<open>kern/sched.c\<close>), \<^verbatim>\<open>Spinlock\<close> and \<^verbatim>\<open>Spin_Steps\<close>
    (\<^verbatim>\<open>kern/spinlock.c\<close>, atomically and access by access), \<^verbatim>\<open>Console\<close> (\<^verbatim>\<open>kern/console.c\<close>), \<^verbatim>\<open>E1000\<close> and
    \<^verbatim>\<open>E1000_Kern\<close> (\<^verbatim>\<open>kern/e1000.c\<close>), \<^verbatim>\<open>Syscall\<close> (\<^verbatim>\<open>kern/syscall.c\<close>, \<^verbatim>\<open>kern/time.c\<close>), \<^verbatim>\<open>Trap\<close>
    (\<^verbatim>\<open>kern/trap.c\<close>), \<^verbatim>\<open>Kdebug\<close> (\<^verbatim>\<open>kern/kdebug.c\<close>); \<^verbatim>\<open>Kern_Spec\<close> has the properties of the kernel above
    the page tables, \<^verbatim>\<open>Console_Spec\<close> those of the console, with the contract of a bounded queue as a
    locale.
  \<^item> \<^verbatim>\<open>Env_Inv\<close> (building and taking down address spaces), \<^verbatim>\<open>Kern_Inv\<close> (the invariant \<open>kern_ok\<close> of the
    whole kernel: one page directory per live environment, exact reference counts, exact free lists),
    \<^verbatim>\<open>Syscall_Inv\<close> and \<^verbatim>\<open>Syscall_Spec\<close> (what every system call does to it, up to the dispatcher).
  \<^item> \<^verbatim>\<open>Fs_Mem\<close> (\<^verbatim>\<open>fs/bc.c\<close>, \<^verbatim>\<open>fs/ide.c\<close>), \<^verbatim>\<open>Fs\<close> (\<^verbatim>\<open>fs/fs.c\<close>), \<^verbatim>\<open>Fs_Serv\<close> (\<^verbatim>\<open>fs/serv.c\<close>); \<^verbatim>\<open>Fs_Cache\<close> (the
    cache as an array of blocks), \<^verbatim>\<open>Fs_Spec\<close> (blocks and the bitmap), \<^verbatim>\<open>Fs_File\<close> (reading and writing of
    files); \<^verbatim>\<open>File_Client\<close> (\<^verbatim>\<open>lib/file.c\<close>, run against the server).
  \<^item> \<^verbatim>\<open>Libstring\<close> (\<^verbatim>\<open>lib/string.c\<close>), \<^verbatim>\<open>Printfmt\<close> (\<^verbatim>\<open>lib/printfmt.c\<close>) and \<^verbatim>\<open>Lib_Spec\<close> with their
    properties; \<^verbatim>\<open>Uvm\<close> (address spaces as user programs see them), \<^verbatim>\<open>Fork\<close> (\<^verbatim>\<open>lib/fork.c\<close>), \<^verbatim>\<open>Fd\<close>
    (\<^verbatim>\<open>lib/fd.c\<close>), \<^verbatim>\<open>Pipe\<close> (\<^verbatim>\<open>lib/pipe.c\<close>), \<^verbatim>\<open>Malloc\<close> (\<^verbatim>\<open>lib/malloc.c\<close>).
  \<^item> \<^verbatim>\<open>Printf\<close> (\<^verbatim>\<open>kern/printf.c\<close>, \<^verbatim>\<open>lib/printf.c\<close>, \<^verbatim>\<open>lib/fprintf.c\<close>), \<^verbatim>\<open>Readline\<close> (\<^verbatim>\<open>lib/readline.c\<close> and the
    console device of \<^verbatim>\<open>lib/console.c\<close>), \<^verbatim>\<open>Cmdline\<close> (the command interpreter of \<^verbatim>\<open>kern/monitor.c\<close>), \<^verbatim>\<open>Args\<close>
    (\<^verbatim>\<open>lib/args.c\<close>).

  \<^bold>\<open>What the theorems show.\<close> Page tables: insertion and removal change exactly one mapping and keep
  every reference count equal to the number of mappings, leave no stale translation, and user
  memory checks are exact except for ranges that wrap. The lock excludes and implements the atomic
  lock. Every system call that does not write through a user pointer keeps the invariant of the
  kernel, changes no environment but the caller and its children except where one has agreed to
  receive a page, and makes no page writable that was neither writable for someone nor free.
  Environment identifiers are never reused in a row, the scheduler is fair. The console keeps inside its
  buffers and its input is a queue. The block cache implements an array of blocks, allocation is exact,
  blocks do not leak, a flush reaches the disk, and what is written to a file is read back, in the
  server and from a client through the server. Pipes deliver in order under every interleaving. Fork and
  its page fault handler give private copies. The library's block operations equal their specification,
  buffered printing prints what the format says, and line editing, the words of a command line and the
  flags of a program are what the reference definitions say. The remaining theorems pin down behaviour
  that the comments do not promise; it is listed among the findings of the development.

  \<^bold>\<open>Bounds and fuel.\<close> Loops that end by structure are structural recursions; loops with a changing
  address or position have a termination proof. Fuel is used in four places: \<open>touch\<close> bounds the
  nesting of page faults in the file server by LEVELS = 4, one more than a block, its bitmap block
  and the first bitmap block need; \<open>cons_intr\<close> runs one round more than bytes are waiting;
  \<open>sched_pick\<close> and the table searches run once per entry; string scans in the kernel and the file
  server run at most \<open>2^32\<close> rounds, the size of the address space. Functions on unterminated strings
  are partial functions with result \<open>None\<close> when they do not end.

  \<^bold>\<open>Not modelled.\<close> Assembly code, the boot loader, device probing, the interrupt controllers and the
  clock chip (their effect is defined by the hardware); start-up order, the outer loop of the kernel
  monitor and what a backtrace prints; the user programs and tests; the lwIP stack, which is third-party
  code, and the servers and client libraries around it; program loading (\<^verbatim>\<open>lib/spawn.c\<close>); the retry loop of
  \<open>ipc_send\<close>, which depends on the scheduling of the other environment.
\<close>

end
